(* ===== verification/Prelude.thy ===== *)
theory Prelude
  imports Main "HOL-Library.Word" "HOL-Library.Multiset" "HOL-Library.AList"
    "HOL-Library.Product_Lexorder"
begin

section \<open>Prelude: Go values, maps and slices\<close>

text \<open>
  What every component theory shares:
  \<^item> Go's signed integers of a fixed width. A value of type \<^verbatim>\<open>int64\<close>, \<^verbatim>\<open>int32\<close> or \<^verbatim>\<open>int16\<close> is an
    \<^typ>\<open>int\<close>; wherever the source does arithmetic on it the model applies \<open>wrap64\<close>, \<open>wrap32\<close>
    or \<open>wrap16\<close>, which reduce to the two's complement range as Go does. (\<^verbatim>\<open>int\<close> is 64 bits wide on
    the platforms the program builds for.)
  \<^item> Go maps as association lists (\<open>gomap\<close>): \<open>map_of\<close> reads, \<open>AList.update\<close> stores,
    \<open>AList.delete\<close> is the built-in \<^verbatim>\<open>delete\<close>, \<open>length\<close> is \<^verbatim>\<open>len\<close>. Go leaves the order of
    \<^verbatim>\<open>range\<close> over a map unspecified; the list carries one order, and every theorem that depends
    on a \<^verbatim>\<open>range\<close> is stated for an arbitrary association list, so for every order.
  \<^item> sets written \<^verbatim>\<open>map[string]struct{}\<close> as lists of distinct strings (\<open>goset\<close>).
  \<^item> generic lemmas on lists and \<open>List.extract\<close>, the library function that models
    "find the first element with a property and cut it out of the slice".
\<close>

named_theorems inv_simps \<open>definitions of the components' invariants\<close>
named_theorems op_defs \<open>definitions of the components' operations\<close>

type_synonym byte = "8 word"
type_synonym bytes = "byte list"
type_synonym ('k, 'v) gomap = "('k \<times> 'v) list"
type_synonym goset = "string list"
type_synonym time = int

abbreviation gm_wf :: "('k, 'v) gomap \<Rightarrow> bool" where
  "gm_wf m \<equiv> distinct (map fst m)"

subsection \<open>Fixed width integers\<close>

definition wrap64 :: "int \<Rightarrow> int" where
  "wrap64 x = signed_take_bit 63 x"

definition wrap32 :: "int \<Rightarrow> int" where
  "wrap32 x = signed_take_bit 31 x"

definition wrap16 :: "int \<Rightarrow> int" where
  "wrap16 x = signed_take_bit 15 x"

definition in_int64 :: "int \<Rightarrow> bool" where
  "in_int64 x \<longleftrightarrow> - (2 ^ 63) \<le> x \<and> x < 2 ^ 63"

definition in_int32 :: "int \<Rightarrow> bool" where
  "in_int32 x \<longleftrightarrow> - (2 ^ 31) \<le> x \<and> x < 2 ^ 31"

lemma wrap64_id [simp]: "in_int64 x \<Longrightarrow> wrap64 x = x"
  by (simp add: wrap64_def in_int64_def signed_take_bit_int_eq_self)

lemma wrap32_id [simp]: "in_int32 x \<Longrightarrow> wrap32 x = x"
  by (simp add: wrap32_def in_int32_def signed_take_bit_int_eq_self)

lemma in_int64_wrap64 [simp]: "in_int64 (wrap64 x)"
  using signed_take_bit_int_greater_eq_minus_exp [of 63 x] signed_take_bit_int_less_exp [of 63 x]
  by (simp add: wrap64_def in_int64_def)

lemma wrap64_wrap64 [simp]: "wrap64 (wrap64 x) = wrap64 x"
  by simp

lemma wrap64_add_left [simp]: "wrap64 (wrap64 x + y) = wrap64 (x + y)"
  unfolding wrap64_def by (metis signed_take_bit_add signed_take_bit_signed_take_bit min.idem)

lemma in_int64_nonneg: "0 \<le> x \<Longrightarrow> x \<le> y \<Longrightarrow> in_int64 y \<Longrightarrow> in_int64 x"
  by (simp add: in_int64_def)

lemma wrap64_small: "- 9223372036854775808 \<le> x \<Longrightarrow> x \<le> 9223372036854775807 \<Longrightarrow> wrap64 x = x"
  by (rule wrap64_id) (simp add: in_int64_def)

text \<open>A loop that adds up \<^verbatim>\<open>int64\<close> values.\<close>

definition wsum :: "int list \<Rightarrow> int" where
  "wsum xs = fold (\<lambda>x acc. wrap64 (acc + x)) xs 0"

lemma wrap64_diff_right: "wrap64 (x - wrap64 y) = wrap64 (x - y)"
  unfolding wrap64_def by (metis signed_take_bit_diff signed_take_bit_signed_take_bit min.idem)

lemma in_int64_wsum: "in_int64 (wsum xs)"
  by (induction xs rule: rev_induct) (simp_all add: wsum_def in_int64_def [of 0])

subsection \<open>Lists\<close>

lemma extract_None: "List.extract P xs = None \<longleftrightarrow> (\<forall>x\<in>set xs. \<not> P x)"
  by (auto simp: extract_None_iff)

lemma sorted_wrt_remove: "sorted_wrt R (ys @ x # zs) \<Longrightarrow> sorted_wrt R (ys @ zs)"
  by (auto simp: sorted_wrt_append)

lemma distinct_map_remove: "distinct (map f (ys @ x # zs)) \<Longrightarrow> distinct (map f (ys @ zs))"
  by auto

lemma image_Collect_mem: "f ` {x \<in> A. f x \<in> B} = f ` A \<inter> B"
  by auto

subsection \<open>Association lists\<close>

lemma gm_wf_update [simp]: "gm_wf m \<Longrightarrow> gm_wf (AList.update k v m)"
  by (rule distinct_update)

lemma gm_wf_delete [simp]: "gm_wf m \<Longrightarrow> gm_wf (AList.delete k m)"
  by (rule distinct_delete)

lemma set_update_iff:
  "gm_wf m \<Longrightarrow> (k', v') \<in> set (AList.update k v m) \<longleftrightarrow>
     (k' = k \<and> v' = v) \<or> (k' \<noteq> k \<and> (k', v') \<in> set m)"
  by (induction m) (auto simp: rev_image_eqI)

lemma set_delete: "set (AList.delete k m) = {(k', v). (k', v) \<in> set m \<and> k' \<noteq> k}"
  by (auto simp: AList.delete_eq)

lemma mem_deleteD: "x \<in> set (AList.delete k m) \<Longrightarrow> x \<in> set m"
  by (auto simp: AList.delete_eq)

lemma keys_update [simp]: "fst ` set (AList.update k v m) = insert k (fst ` set m)"
  by (simp add: dom_update)

lemma keys_delete [simp]: "fst ` set (AList.delete k m) = fst ` set m - {k}"
  by (auto simp: set_delete rev_image_eqI)

lemma map_of_update [simp]: "map_of (AList.update k v m) = (map_of m)(k \<mapsto> v)"
  by (rule update_conv')

lemma map_of_delete_conv [simp]: "map_of (AList.delete k m) = (map_of m)(k := None)"
  by (rule delete_conv')

lemma map_of_None_keys: "map_of m k = None \<longleftrightarrow> k \<notin> fst ` set m"
  by (rule map_of_eq_None_iff)

lemma map_of_Some_keys: "(\<exists>v. map_of m k = Some v) \<longleftrightarrow> k \<in> fst ` set m"
  using map_of_None_keys [of m k] by auto

subsection \<open>Decimal numbers\<close>

text \<open>\<^verbatim>\<open>fmt.Sprintf("%d", i)\<close> and the digits \<^verbatim>\<open>fmt.Sscanf("%d")\<close> reads.\<close>

definition digit_char :: "nat \<Rightarrow> char" where
  "digit_char d = char_of (48 + d)"

definition is_digit :: "char \<Rightarrow> bool" where
  "is_digit c \<longleftrightarrow> 48 \<le> (of_char c :: nat) \<and> (of_char c :: nat) \<le> 57"

definition digit_val :: "char \<Rightarrow> nat" where
  "digit_val c = of_char c - 48"

fun show_nat :: "nat \<Rightarrow> string" where
  "show_nat n = (if n < 10 then [digit_char n] else show_nat (n div 10) @ [digit_char (n mod 10)])"

declare show_nat.simps [simp del]

definition show_int :: "int \<Rightarrow> string" where
  "show_int i = (if i < 0 then CHR ''-'' # show_nat (nat (- i)) else show_nat (nat i))"

definition digits_val :: "string \<Rightarrow> nat" where
  "digits_val ds = foldl (\<lambda>n c. 10 * n + digit_val c) 0 ds"

lemma digit_char [simp]: "d < 10 \<Longrightarrow> is_digit (digit_char d)" "d < 10 \<Longrightarrow> digit_val (digit_char d) = d"
  by (simp_all add: is_digit_def digit_val_def digit_char_def)

lemma show_nat_digits: "c \<in> set (show_nat n) \<Longrightarrow> is_digit c"
proof (induction n rule: show_nat.induct)
  case (1 n)
  then show ?case
    by (subst (asm) show_nat.simps) (auto split: if_splits)
qed

lemma show_nat_nonempty [simp]: "show_nat n \<noteq> []"
  by (subst show_nat.simps) simp

lemma digits_val_show_nat [simp]: "digits_val (show_nat n) = n"
proof (induction n rule: show_nat.induct)
  case (1 n)
  show ?case
  proof (cases "n < 10")
    case True
    then show ?thesis
      by (simp add: show_nat.simps [of n] digits_val_def)
  next
    case False
    then have "digits_val (show_nat (n div 10)) = n div 10"
      using 1 by simp
    with False show ?thesis
      by (simp add: show_nat.simps [of n]) (simp add: digits_val_def)
  qed
qed

end
