(* ===== verification/Arbiter.thy ===== *)
theory Arbiter
  imports Prelude
begin

section \<open>The packing queue (internal/arbiter/packer.go)\<close>

text \<open>
  \<^verbatim>\<open>Queue[T]\<close> is the priority queue both bin packers use: the scheduler's pending jobs and the
  cluster's pending jobs. It keeps a map from IDs to items, a slice \<open>q_order\<close> that is sorted and
  compacted lazily, and a dirty flag. The accessor functions that Go stores in the struct are
  the record \<open>accessors\<close>; they are an argument of the operations because, where the items are
  pointers, the closures read through the current heap. Each method runs under the queue's
  mutex, so each is one state transformer.

  Two invariants: \<open>queue_weak\<close> holds of every queue the operations can build; \<open>queue_inv\<close> is
  the contract the packers rely on (one entry of \<open>q_order\<close> per ID, and it is the item stored
  under that ID), which \<open>Push\<close> keeps only when the ID has no stale entry left in \<open>q_order\<close>.
  The locale \<open>packing_queue\<close> states that contract for the clients.
\<close>

record 'a accessors =
  idFn :: "'a \<Rightarrow> string"
  prioFn :: "'a \<Rightarrow> int"
  cpuFn :: "'a \<Rightarrow> int"
  memFn :: "'a \<Rightarrow> int"

record 'a queue =
  q_items :: "(string, 'a) gomap"
  q_order :: "'a list"
  q_dirty :: bool

definition NewQueue :: "'a queue" where
  "NewQueue = \<lparr>q_items = [], q_order = [], q_dirty = False\<rparr>"

definition Push :: "'a accessors \<Rightarrow> 'a queue \<Rightarrow> 'a \<Rightarrow> 'a queue" where
  "Push ac q item =
     (let id = idFn ac item;
          q1 = (case map_of (q_items q) id of
                  None \<Rightarrow> q\<lparr>q_order := q_order q @ [item], q_dirty := True\<rparr>
                | Some _ \<Rightarrow> q)
      in q1\<lparr>q_items := AList.update id item (q_items q1)\<rparr>)"

fun push_loop :: "'a accessors \<Rightarrow> 'a queue \<Rightarrow> 'a list \<Rightarrow> 'a queue" where
  "push_loop ac q [] = q"
| "push_loop ac q (item # rest) =
     (let id = idFn ac item;
          q1 = (case map_of (q_items q) id of
                  None \<Rightarrow> q\<lparr>q_order := q_order q @ [item], q_dirty := True\<rparr>
                | Some _ \<Rightarrow> q)
      in push_loop ac (q1\<lparr>q_items := AList.update id item (q_items q1)\<rparr>) rest)"

definition PushBatch :: "'a accessors \<Rightarrow> 'a queue \<Rightarrow> 'a list \<Rightarrow> 'a queue" where
  "PushBatch ac q its = (if length its = 0 then q else push_loop ac q its)"

definition PeekForHeuristic :: "'a queue \<Rightarrow> ('a \<Rightarrow> bool) \<Rightarrow> 'a list" where
  "PeekForHeuristic q heuristic =
     (if length (q_items q) = 0 then [] else filter heuristic (map snd (q_items q)))"

definition RemoveByID :: "'a queue \<Rightarrow> string \<Rightarrow> 'a queue" where
  "RemoveByID q key =
     (case map_of (q_items q) key of
        None \<Rightarrow> q
      | Some _ \<Rightarrow> q\<lparr>q_items := AList.delete key (q_items q), q_dirty := True\<rparr>)"

definition Clear :: "'a queue \<Rightarrow> 'a queue" where
  "Clear q = q\<lparr>q_items := [], q_order := [], q_dirty := False\<rparr>"

definition IDs :: "'a queue \<Rightarrow> string list" where
  "IDs q = map fst (q_items q)"

definition Size :: "'a queue \<Rightarrow> int" where
  "Size q = wrap32 (int (length (q_items q)))"

definition Items :: "'a queue \<Rightarrow> 'a list" where
  "Items q = map snd (q_items q)"

text \<open>
  The comparison \<^verbatim>\<open>sort.SliceStable\<close> is called with. A stable sort by a strict weak order is
  unique; \<open>packs_before_key\<close> shows that this one compares the pair (priority, memory),
  both descending, so that the library's stable \<open>sort_key\<close> on that key is the same sort.
\<close>

definition packs_before :: "'a accessors \<Rightarrow> 'a \<Rightarrow> 'a \<Rightarrow> bool" where
  "packs_before ac x y =
     (if prioFn ac x \<noteq> prioFn ac y then prioFn ac x > prioFn ac y else memFn ac x > memFn ac y)"

definition pack_key :: "'a accessors \<Rightarrow> 'a \<Rightarrow> int \<times> int" where
  "pack_key ac x = (- prioFn ac x, - memFn ac x)"

definition sortAndCompact :: "'a accessors \<Rightarrow> 'a queue \<Rightarrow> 'a queue" where
  "sortAndCompact ac q =
     (let compacted = filter (\<lambda>item. map_of (q_items q) (idFn ac item) \<noteq> None) (q_order q)
      in q\<lparr>q_order := sort_key (pack_key ac) compacted, q_dirty := False\<rparr>)"

definition PopBestFit :: "'a accessors \<Rightarrow> 'a queue \<Rightarrow> int \<Rightarrow> int \<Rightarrow> 'a option \<times> 'a queue" where
  "PopBestFit ac q availCPU availMem =
     (if length (q_items q) = 0 then (None, q)
      else
        let q1 = (if q_dirty q then sortAndCompact ac q else q)
        in case List.extract (\<lambda>item. cpuFn ac item \<le> availCPU \<and> memFn ac item \<le> availMem) (q_order q1) of
             None \<Rightarrow> (None, q1)
           | Some (before, item, after) \<Rightarrow>
               (Some item,
                q1\<lparr>q_items := AList.delete (idFn ac item) (q_items q1), q_order := before @ after\<rparr>))"

definition PopBestFitHeuristic ::
  "'a accessors \<Rightarrow> 'a queue \<Rightarrow> int \<Rightarrow> int \<Rightarrow> ('a \<Rightarrow> bool) \<Rightarrow> 'a option \<times> 'a queue" where
  "PopBestFitHeuristic ac q availCPU availMem heuristic =
     (if length (q_items q) = 0 then (None, q)
      else
        let q1 = (if q_dirty q then sortAndCompact ac q else q)
        in case List.extract (\<lambda>item. cpuFn ac item \<le> availCPU \<and> memFn ac item \<le> availMem \<and> heuristic item)
                  (q_order q1) of
             None \<Rightarrow> (None, q1)
           | Some (before, bestItem, after) \<Rightarrow>
               (Some bestItem,
                q1\<lparr>q_items := AList.delete (idFn ac bestItem) (q_items q1), q_order := before @ after\<rparr>))"

declare NewQueue_def [op_defs] Push_def [op_defs] PushBatch_def [op_defs] RemoveByID_def [op_defs]
  Clear_def [op_defs] sortAndCompact_def [op_defs] PopBestFit_def [op_defs]
  PopBestFitHeuristic_def [op_defs] Let_def [op_defs]

subsection \<open>Invariants\<close>

definition queue_weak :: "'a accessors \<Rightarrow> 'a queue \<Rightarrow> bool" where
  "queue_weak ac q \<longleftrightarrow>
     gm_wf (q_items q) \<and>
     (\<forall>(k, v) \<in> set (q_items q). idFn ac v = k) \<and>
     fst ` set (q_items q) \<subseteq> idFn ac ` set (q_order q) \<and>
     (\<not> q_dirty q \<longrightarrow> sorted (map (pack_key ac) (q_order q)))"

definition queue_inv :: "'a accessors \<Rightarrow> 'a queue \<Rightarrow> bool" where
  "queue_inv ac q \<longleftrightarrow>
     queue_weak ac q \<and>
     distinct (map (idFn ac) (q_order q)) \<and>
     (\<not> q_dirty q \<longrightarrow> idFn ac ` set (q_order q) \<subseteq> fst ` set (q_items q)) \<and>
     (\<forall>x \<in> set (q_order q). \<forall>v. map_of (q_items q) (idFn ac x) = Some v \<longrightarrow> v = x)"

definition queue_fresh :: "'a accessors \<Rightarrow> 'a queue \<Rightarrow> string \<Rightarrow> bool" where
  "queue_fresh ac q key \<longleftrightarrow> key \<notin> idFn ac ` set (q_order q)"

definition fits :: "'a accessors \<Rightarrow> int \<Rightarrow> int \<Rightarrow> 'a \<Rightarrow> bool" where
  "fits ac cpu mem x \<longleftrightarrow> cpuFn ac x \<le> cpu \<and> memFn ac x \<le> mem"

declare queue_weak_def [inv_simps] queue_inv_def [inv_simps]

subsection \<open>Sorting\<close>

lemma packs_before_key: "packs_before ac x y \<longleftrightarrow> pack_key ac x < pack_key ac y"
  by (auto simp: packs_before_def pack_key_def less_prod_def)

lemma pack_key_le: "pack_key ac x \<le> pack_key ac y \<longleftrightarrow> \<not> packs_before ac y x"
  by (simp add: packs_before_key not_less)

lemma sortAndCompact_items [simp]: "q_items (sortAndCompact ac q) = q_items q"
  and sortAndCompact_dirty [simp]: "\<not> q_dirty (sortAndCompact ac q)"
  and set_sortAndCompact [simp]:
    "set (q_order (sortAndCompact ac q)) = {x \<in> set (q_order q). idFn ac x \<in> fst ` set (q_items q)}"
  by (auto simp: sortAndCompact_def Let_def map_of_eq_None_iff)

lemma sorted_sortAndCompact [simp]: "sorted (map (pack_key ac) (q_order (sortAndCompact ac q)))"
  by (simp add: sortAndCompact_def Let_def)

subsection \<open>The invariants are kept\<close>

lemma queue_weak_New: "queue_weak ac NewQueue"
  by (simp add: queue_weak_def NewQueue_def)

lemma queue_inv_New: "queue_inv ac NewQueue"
  by (simp add: queue_inv_def queue_weak_New) (simp add: NewQueue_def)

lemma queue_weak_Push: "queue_weak ac q \<Longrightarrow> queue_weak ac (Push ac q x)"
  by (auto simp: queue_weak_def Push_def Let_def set_update_iff split: option.split)

lemma queue_weak_RemoveByID: "queue_weak ac q \<Longrightarrow> queue_weak ac (RemoveByID q k)"
  by (auto simp: queue_weak_def RemoveByID_def set_delete split: option.split)

lemma queue_weak_sortAndCompact: "queue_weak ac q \<Longrightarrow> queue_weak ac (sortAndCompact ac q)"
  by (simp add: queue_weak_def image_Collect_mem)

lemma queue_inv_Push_fresh:
  assumes "queue_inv ac q" and "queue_fresh ac q (idFn ac x)"
  shows "queue_inv ac (Push ac q x)"
proof -
  have new: "map_of (q_items q) (idFn ac x) = None"
    using assms by (auto simp: queue_inv_def queue_weak_def queue_fresh_def map_of_None_keys)
  then show ?thesis
    using assms queue_weak_Push [of ac q x]
    by (auto simp: queue_inv_def queue_fresh_def Push_def Let_def image_iff)
qed

lemma queue_inv_Push_again:
  "queue_inv ac q \<Longrightarrow> map_of (q_items q) (idFn ac x) = Some x \<Longrightarrow> queue_inv ac (Push ac q x)"
  using queue_weak_Push [of ac q x]
  by (auto simp: queue_inv_def Push_def Let_def map_of_Some_keys [symmetric])

lemma queue_inv_RemoveByID: "queue_inv ac q \<Longrightarrow> queue_inv ac (RemoveByID q k)"
  using queue_weak_RemoveByID [of ac q k]
  by (auto simp: queue_inv_def RemoveByID_def split: option.split)

lemma queue_inv_sortAndCompact: "queue_inv ac q \<Longrightarrow> queue_inv ac (sortAndCompact ac q)"
  using queue_weak_sortAndCompact [of ac q]
  by (auto simp: queue_inv_def sortAndCompact_def Let_def distinct_map inj_on_def map_of_None_keys)

subsection \<open>Popping\<close>

definition queue_ready :: "'a accessors \<Rightarrow> 'a queue \<Rightarrow> 'a queue" where
  "queue_ready ac q = (if q_dirty q then sortAndCompact ac q else q)"

lemma PopBestFit_heuristic: "PopBestFit ac q c m = PopBestFitHeuristic ac q c m (\<lambda>_. True)"
  by (simp add: PopBestFit_def PopBestFitHeuristic_def)

lemma queue_ready_items [simp]: "q_items (queue_ready ac q) = q_items q"
  by (simp add: queue_ready_def)

lemma queue_ready_inv: "queue_inv ac q \<Longrightarrow> queue_inv ac (queue_ready ac q)"
  by (simp add: queue_ready_def queue_inv_sortAndCompact)

lemma queue_ready_weak: "queue_weak ac q \<Longrightarrow> queue_weak ac (queue_ready ac q)"
  by (simp add: queue_ready_def queue_weak_sortAndCompact)

lemma queue_ready_clean [simp]: "\<not> q_dirty (queue_ready ac q)"
  by (simp add: queue_ready_def)

lemma mem_queue_ready:
  assumes "queue_inv ac q"
  shows "x \<in> set (q_order (queue_ready ac q)) \<longleftrightarrow> map_of (q_items q) (idFn ac x) = Some x"
proof -
  have inv: "queue_inv ac (queue_ready ac q)"
    by (rule queue_ready_inv [OF assms])
  show ?thesis
  proof
    assume x: "x \<in> set (q_order (queue_ready ac q))"
    then have "idFn ac x \<in> fst ` set (q_items q)"
      using inv by (auto simp: queue_inv_def)
    then show "map_of (q_items q) (idFn ac x) = Some x"
      using inv x by (auto simp: queue_inv_def map_of_Some_keys [symmetric])
  next
    assume x: "map_of (q_items q) (idFn ac x) = Some x"
    then have "idFn ac x \<in> idFn ac ` set (q_order (queue_ready ac q))"
      using inv by (auto simp: queue_inv_def queue_weak_def map_of_Some_keys [symmetric])
    then obtain y where "y \<in> set (q_order (queue_ready ac q))" "idFn ac y = idFn ac x"
      by auto
    then show "x \<in> set (q_order (queue_ready ac q))"
      using inv x by (auto simp: queue_inv_def)
  qed
qed

lemma PopBestFitHeuristic_ready:
  "q_items q \<noteq> [] \<Longrightarrow> PopBestFitHeuristic ac q c m h =
     (case List.extract (\<lambda>x. fits ac c m x \<and> h x) (q_order (queue_ready ac q)) of
        None \<Rightarrow> (None, queue_ready ac q)
      | Some (before, x, after) \<Rightarrow> (Some x, (queue_ready ac q)
          \<lparr>q_items := AList.delete (idFn ac x) (q_items q), q_order := before @ after\<rparr>))"
  by (simp add: PopBestFitHeuristic_def fits_def conj_assoc Let_def flip: queue_ready_def split: option.split)

lemma PopBestFitHeuristic_cases:
  assumes "PopBestFitHeuristic ac q c m h = (r, q')"
  obtains (none_left) "r = None" "q_items q = []" "q' = q"
  | (nofit) "r = None" "q' = queue_ready ac q"
      "\<forall>x\<in>set (q_order (queue_ready ac q)). \<not> (fits ac c m x \<and> h x)"
  | (found) before x after where "r = Some x" "fits ac c m x" "h x"
      "q_order (queue_ready ac q) = before @ x # after"
      "\<forall>y\<in>set before. \<not> (fits ac c m y \<and> h y)"
      "q' = (queue_ready ac q)\<lparr>q_items := AList.delete (idFn ac x) (q_items q), q_order := before @ after\<rparr>"
proof (cases "q_items q = []")
  case True
  then have r: "r = None" and q: "q' = q"
    using assms by (simp_all add: PopBestFitHeuristic_def)
  show ?thesis
    by (rule none_left [OF r True q])
next
  case False
  show ?thesis
  proof (cases "List.extract (\<lambda>x. fits ac c m x \<and> h x) (q_order (queue_ready ac q))")
    case None
    then have "r = None" "q' = queue_ready ac q"
      using assms False by (simp_all add: PopBestFitHeuristic_ready)
    then show ?thesis
      by (rule nofit) (use None in \<open>simp add: extract_None\<close>)
  next
    case (Some t)
    obtain before x after where t: "t = (before, x, after)"
      by (cases t)
    then have "r = Some x"
      "q' = (queue_ready ac q)\<lparr>q_items := AList.delete (idFn ac x) (q_items q), q_order := before @ after\<rparr>"
      using assms False Some by (simp_all add: PopBestFitHeuristic_ready)
    then show ?thesis
      using Some t by (intro found [of x before after]) (simp_all add: extract_Some_iff)
  qed
qed

lemma queue_inv_cut:
  assumes inv: "queue_inv ac q" and clean: "\<not> q_dirty q" and ord: "q_order q = before @ x # after"
  shows "queue_inv ac (q\<lparr>q_items := AList.delete (idFn ac x) (q_items q), q_order := before @ after\<rparr>)"
proof -
  have d: "distinct (map (idFn ac) (before @ x # after))"
    and keys: "fst ` set (q_items q) = idFn ac ` set (before @ x # after)"
    and srt: "sorted (map (pack_key ac) (before @ x # after))"
    using inv clean by (auto simp: queue_inv_def queue_weak_def ord [symmetric])
  have keys': "fst ` set (q_items q) - {idFn ac x} = idFn ac ` set (before @ after)"
    using d unfolding keys by (auto intro: rev_image_eqI)
  have "sorted (map (pack_key ac) (before @ after))"
    using srt by (auto simp: sorted_append)
  then show ?thesis
    using inv d keys' unfolding queue_inv_def queue_weak_def
    by (auto simp: ord dest!: mem_deleteD)
qed

lemma queue_inv_pop:
  assumes "queue_inv ac q" "PopBestFitHeuristic ac q c m h = (r, q')"
  shows "queue_inv ac q'"
  using assms(2)
proof (cases rule: PopBestFitHeuristic_cases)
  case (found before x after)
  then show ?thesis
    using queue_inv_cut [OF queue_ready_inv [OF assms(1)] queue_ready_clean found(4)] by simp
qed (use assms(1) in \<open>simp_all add: queue_ready_inv\<close>)

lemma pop_maximal:
  assumes inv: "queue_inv ac q" and pop: "PopBestFitHeuristic ac q c m h = (Some x, q')"
    and y: "map_of (q_items q) k = Some y" "fits ac c m y" "h y"
  shows "\<not> packs_before ac y x"
  using pop
proof (cases rule: PopBestFitHeuristic_cases)
  case (found before x' after)
  have "idFn ac y = k"
    using inv y(1) by (auto simp: queue_inv_def queue_weak_def)
  then have "y \<in> set (before @ x' # after)"
    using y(1) found(4) mem_queue_ready [OF inv, of y] by simp
  moreover have "sorted (map (pack_key ac) (before @ x' # after))"
    using queue_ready_inv [OF inv] by (simp add: queue_inv_def queue_weak_def flip: found(4))
  ultimately show ?thesis
    using found y(2,3) by (auto simp: pack_key_le [symmetric] sorted_append)
qed simp_all

lemma pop_Some:
  assumes inv: "queue_inv ac q" and pop: "PopBestFitHeuristic ac q c m h = (Some x, q')"
  shows "map_of (q_items q) (idFn ac x) = Some x" "fits ac c m x" "h x"
    "map_of (q_items q') = (map_of (q_items q))(idFn ac x := None)"
    "queue_fresh ac q' (idFn ac x)"
proof -
  from pop obtain before after where found: "fits ac c m x" "h x"
      "q_order (queue_ready ac q) = before @ x # after"
      "q' = (queue_ready ac q)\<lparr>q_items := AList.delete (idFn ac x) (q_items q), q_order := before @ after\<rparr>"
    by (rule PopBestFitHeuristic_cases) auto
  show "map_of (q_items q) (idFn ac x) = Some x"
    using mem_queue_ready [OF inv, of x] found(3) by simp
  show "fits ac c m x" "h x" "map_of (q_items q') = (map_of (q_items q))(idFn ac x := None)"
    using found by simp_all
  have "distinct (map (idFn ac) (before @ x # after))"
    using queue_ready_inv [OF inv] by (simp add: queue_inv_def flip: found(3))
  then show "queue_fresh ac q' (idFn ac x)"
    using found(4) by (auto simp: queue_fresh_def)
qed

lemma pop_None:
  assumes inv: "queue_inv ac q" and pop: "PopBestFitHeuristic ac q c m h = (None, q')"
  shows "q_items q' = q_items q"
    and "map_of (q_items q) k = Some y \<Longrightarrow> \<not> (fits ac c m y \<and> h y)"
proof -
  from pop show "q_items q' = q_items q"
    by (rule PopBestFitHeuristic_cases) auto
  assume y: "map_of (q_items q) k = Some y"
  then have "idFn ac y = k"
    using inv by (auto simp: queue_inv_def queue_weak_def)
  then have "y \<in> set (q_order (queue_ready ac q))"
    using y mem_queue_ready [OF inv, of y] by simp
  with pop y show "\<not> (fits ac c m y \<and> h y)"
    by (auto elim!: PopBestFitHeuristic_cases)
qed

lemma queue_inv_Clear: "queue_inv ac (Clear q)"
  by (simp add: queue_inv_def queue_weak_def Clear_def)

lemma push_loop_Push: "push_loop ac q its = fold (\<lambda>x q. Push ac q x) its q"
  by (induction its arbitrary: q) (simp_all add: Push_def Let_def)

lemma PushBatch_Push: "PushBatch ac q its = fold (\<lambda>x q. Push ac q x) its q"
  by (simp add: PushBatch_def push_loop_Push)

lemma lookup_Push [simp]: "map_of (q_items (Push ac q x)) = (map_of (q_items q))(idFn ac x \<mapsto> x)"
  by (simp add: Push_def Let_def split: option.split)

lemma lookup_RemoveByID [simp]: "map_of (q_items (RemoveByID q k)) = (map_of (q_items q))(k := None)"
  by (auto simp: RemoveByID_def split: option.split)

lemma lookup_PushBatch:
  "map_of (q_items (PushBatch ac q its)) = map_of (q_items q) ++ map_of (rev (map (\<lambda>x. (idFn ac x, x)) its))"
  unfolding PushBatch_Push
  by (induction its arbitrary: q) (simp_all add: fun_eq_iff map_add_def split: option.split)

text \<open>No operation brings back an ID that has left \<open>q_order\<close>, except pushing it.\<close>

lemma fresh_RemoveByID: "queue_fresh ac (RemoveByID q k) k' = queue_fresh ac q k'"
  by (auto simp: queue_fresh_def RemoveByID_def split: option.split)

lemma fresh_Push: "idFn ac x \<noteq> k' \<Longrightarrow> queue_fresh ac (Push ac q x) k' = queue_fresh ac q k'"
  by (auto simp: queue_fresh_def Push_def Let_def split: option.split)

lemma fresh_hpop:
  assumes "PopBestFitHeuristic ac q c m h = (r, q')" "queue_fresh ac q k'"
  shows "queue_fresh ac q' k'"
proof -
  have sub: "set (q_order (queue_ready ac q)) \<subseteq> set (q_order q)" by (auto simp: queue_ready_def)
  from assms(1) show ?thesis
  proof (cases rule: PopBestFitHeuristic_cases)
    case none_left
    then show ?thesis using assms(2) by simp
  next
    case nofit
    then show ?thesis using assms(2) sub by (auto simp: queue_fresh_def)
  next
    case (found before x after)
    then have "set (before @ after) \<subseteq> set (q_order q)" using sub by auto
    then show ?thesis using assms(2) found by (auto simp: queue_fresh_def)
  qed
qed

lemma fresh_pop: "PopBestFit ac q c m = (r, q') \<Longrightarrow> queue_fresh ac q k' \<Longrightarrow> queue_fresh ac q' k'"
  unfolding PopBestFit_heuristic by (rule fresh_hpop)

subsection \<open>The contract of a packing queue\<close>

text \<open>
  What the two packers rely on: the map the queue stands for (\<open>lookup\<close>), when an ID may be pushed
  (\<open>fresh\<close>), and that a pop returns a stored item that fits, no stored item that fits is packed
  before it, and exactly that item leaves the queue.
\<close>

locale packing_queue =
  fixes ac :: "'a accessors"
    and inv :: "'q \<Rightarrow> bool"
    and lookup :: "'q \<Rightarrow> string \<Rightarrow> 'a option"
    and fresh :: "'q \<Rightarrow> string \<Rightarrow> bool"
    and push :: "'q \<Rightarrow> 'a \<Rightarrow> 'q"
    and remove :: "'q \<Rightarrow> string \<Rightarrow> 'q"
    and pop :: "'q \<Rightarrow> int \<Rightarrow> int \<Rightarrow> 'a option \<times> 'q"
  assumes push_inv: "inv q \<Longrightarrow> fresh q (idFn ac x) \<or> lookup q (idFn ac x) = Some x \<Longrightarrow> inv (push q x)"
    and push_lookup: "lookup (push q x) = (lookup q)(idFn ac x \<mapsto> x)"
    and remove_inv: "inv q \<Longrightarrow> inv (remove q k)"
    and remove_lookup: "lookup (remove q k) = (lookup q)(k := None)"
    and pop_inv: "inv q \<Longrightarrow> pop q c m = (r, q') \<Longrightarrow> inv q'"
    and pop_stored: "inv q \<Longrightarrow> pop q c m = (Some x, q') \<Longrightarrow> lookup q (idFn ac x) = Some x \<and> fits ac c m x"
    and pop_best: "inv q \<Longrightarrow> pop q c m = (Some x, q') \<Longrightarrow> lookup q k = Some y \<Longrightarrow> fits ac c m y \<Longrightarrow>
      \<not> packs_before ac y x"
    and pop_lookup: "inv q \<Longrightarrow> pop q c m = (Some x, q') \<Longrightarrow> lookup q' = (lookup q)(idFn ac x := None)"
    and pop_fresh: "inv q \<Longrightarrow> pop q c m = (Some x, q') \<Longrightarrow> fresh q' (idFn ac x)"
    and pop_nothing: "inv q \<Longrightarrow> pop q c m = (None, q') \<Longrightarrow>
      lookup q' = lookup q \<and> (\<forall>k y. lookup q k = Some y \<longrightarrow> \<not> fits ac c m y)"
begin

text \<open>Rolling a popped item back restores the queue's contents.\<close>

lemma rollback:
  assumes "inv q" "pop q c m = (Some x, q')"
  shows "lookup (push q' x) = lookup q" "inv (push q' x)"
  using assms pop_stored pop_lookup pop_inv pop_fresh push_inv
  by (fastforce simp: push_lookup)+

text \<open>Two pops in a row never hand out the same ID.\<close>

lemma pop_twice_distinct:
  assumes "inv q" "pop q c m = (Some x, q')" "pop q' c' m' = (Some y, q'')"
  shows "idFn ac x \<noteq> idFn ac y"
proof
  assume eq: "idFn ac x = idFn ac y"
  have "lookup q' (idFn ac y) = Some y"
    using pop_stored [OF pop_inv [OF assms(1,2)] assms(3)] by simp
  then show False
    by (simp add: pop_lookup [OF assms(1,2)] eq)
qed

text \<open>With the same free space, items come out in packing order.\<close>

lemma pop_twice_ordered:
  assumes "inv q" "pop q c m = (Some x, q')" "pop q' c m = (Some y, q'')"
  shows "\<not> packs_before ac y x"
proof -
  have y: "lookup q' (idFn ac y) = Some y" "fits ac c m y"
    using pop_stored [OF pop_inv [OF assms(1,2)] assms(3)] by simp_all
  then have "lookup q (idFn ac y) = Some y"
    by (simp add: pop_lookup [OF assms(1,2)] split: if_splits)
  then show ?thesis
    using pop_best [OF assms(1,2) _ y(2)] by blast
qed

end

interpretation pq: packing_queue ac "queue_inv ac" "\<lambda>q. map_of (q_items q)" "queue_fresh ac"
  "Push ac" RemoveByID "PopBestFit ac" for ac :: "'a accessors"
  by unfold_locales
    (auto simp: PopBestFit_heuristic queue_inv_RemoveByID
      intro: queue_inv_Push_fresh queue_inv_Push_again queue_inv_pop pop_Some pop_maximal
      dest: pop_maximal pop_Some(4) pop_None)

text \<open>
  The cluster packer also pops with a heuristic and puts one of two popped items back. The extended contract:
  the laws of the second pop, and that freshness of an ID survives the operations on other IDs.
\<close>

locale heuristic_queue = packing_queue ac inv lookup fresh push remove pop
  for ac :: "'a accessors" and inv :: "'q \<Rightarrow> bool" and lookup :: "'q \<Rightarrow> string \<Rightarrow> 'a option"
    and fresh :: "'q \<Rightarrow> string \<Rightarrow> bool" and push :: "'q \<Rightarrow> 'a \<Rightarrow> 'q" and remove :: "'q \<Rightarrow> string \<Rightarrow> 'q"
    and pop :: "'q \<Rightarrow> int \<Rightarrow> int \<Rightarrow> 'a option \<times> 'q" +
  fixes hpop :: "'q \<Rightarrow> int \<Rightarrow> int \<Rightarrow> ('a \<Rightarrow> bool) \<Rightarrow> 'a option \<times> 'q"
  assumes lookup_key: "inv q \<Longrightarrow> lookup q k = Some x \<Longrightarrow> idFn ac x = k"
    and hpop_inv: "inv q \<Longrightarrow> hpop q c m h = (r, q') \<Longrightarrow> inv q'"
    and hpop_stored: "inv q \<Longrightarrow> hpop q c m h = (Some x, q') \<Longrightarrow> lookup q (idFn ac x) = Some x \<and> fits ac c m x \<and> h x"
    and hpop_best: "inv q \<Longrightarrow> hpop q c m h = (Some x, q') \<Longrightarrow> lookup q k = Some y \<Longrightarrow> fits ac c m y \<Longrightarrow> h y \<Longrightarrow>
      \<not> packs_before ac y x"
    and hpop_lookup: "inv q \<Longrightarrow> hpop q c m h = (Some x, q') \<Longrightarrow> lookup q' = (lookup q)(idFn ac x := None)"
    and hpop_fresh: "inv q \<Longrightarrow> hpop q c m h = (Some x, q') \<Longrightarrow> fresh q' (idFn ac x)"
    and hpop_nothing: "inv q \<Longrightarrow> hpop q c m h = (None, q') \<Longrightarrow>
      lookup q' = lookup q \<and> (\<forall>k y. lookup q k = Some y \<longrightarrow> fits ac c m y \<longrightarrow> \<not> h y)"
    and fresh_hpop_other: "hpop q c m h = (r, q') \<Longrightarrow> fresh q k \<Longrightarrow> fresh q' k"
    and fresh_pop_other: "pop q c m = (r, q') \<Longrightarrow> fresh q k \<Longrightarrow> fresh q' k"
    and fresh_push_other: "idFn ac x \<noteq> k \<Longrightarrow> fresh q k \<Longrightarrow> fresh (push q x) k"
begin

text \<open>A heuristic pop, then a pop with the same limits: the second item is the best of the rest.\<close>

lemma two_pops:
  assumes inv: "inv q" and x: "hpop q c m h = (Some x, q1)" and y: "pop q1 c m = (Some y, q2)"
  shows "idFn ac x \<noteq> idFn ac y" "lookup q (idFn ac y) = Some y" "fits ac c m y" "inv q2"
    "lookup q k = Some z \<Longrightarrow> fits ac c m z \<Longrightarrow> z = x \<or> \<not> packs_before ac z y"
    "lookup q2 = (lookup q)(idFn ac x := None, idFn ac y := None)"
    "fresh q2 (idFn ac x)" "fresh q2 (idFn ac y)"
proof -
  note inv1 = hpop_inv [OF inv x]
  note l1 = hpop_lookup [OF inv x]
  note sy = pop_stored [OF inv1 y]
  show ne: "idFn ac x \<noteq> idFn ac y" using sy by (auto simp: l1)
  then show "lookup q (idFn ac y) = Some y" "fits ac c m y" using sy by (simp_all add: l1)
  show "inv q2" by (rule pop_inv [OF inv1 y])
  show "lookup q2 = (lookup q)(idFn ac x := None, idFn ac y := None)" using pop_lookup [OF inv1 y] by (simp add: l1)
  show "fresh q2 (idFn ac x)" by (rule fresh_pop_other [OF y hpop_fresh [OF inv x]])
  show "fresh q2 (idFn ac y)" by (rule pop_fresh [OF inv1 y])
  assume z: "lookup q k = Some z" "fits ac c m z"
  show "z = x \<or> \<not> packs_before ac z y"
  proof (cases "k = idFn ac x")
    case True
    then show ?thesis using z hpop_stored [OF inv x] by simp
  next
    case False
    then show ?thesis using pop_best [OF inv1 y, of k z] z by (simp add: l1)
  qed
qed

text \<open>Putting one of the two back leaves the queue without the other.\<close>

lemma put_back:
  assumes inv: "inv q" and x: "hpop q c m h = (Some x, q1)" and y: "pop q1 c m = (Some y, q2)"
  shows "inv (push q2 x)" "lookup (push q2 x) = (lookup q)(idFn ac y := None)" "fresh (push q2 x) (idFn ac y)"
    "inv (push q2 y)" "lookup (push q2 y) = (lookup q)(idFn ac x := None)" "fresh (push q2 y) (idFn ac x)"
proof -
  note t = two_pops [OF inv x y]
  show "inv (push q2 x)" "inv (push q2 y)" using t(4,7,8) push_inv by blast+
  show "fresh (push q2 x) (idFn ac y)" "fresh (push q2 y) (idFn ac x)" using t(1,7,8) fresh_push_other by metis+
  have "lookup q (idFn ac x) = Some x" using hpop_stored [OF inv x] by simp
  then show "lookup (push q2 x) = (lookup q)(idFn ac y := None)" using t(1) by (auto simp: push_lookup t(6) fun_eq_iff)
  show "lookup (push q2 y) = (lookup q)(idFn ac x := None)" using t(1,2) by (auto simp: push_lookup t(6) fun_eq_iff)
qed

end

interpretation pqh: heuristic_queue ac "queue_inv ac" "\<lambda>q. map_of (q_items q)" "queue_fresh ac"
  "Push ac" RemoveByID "PopBestFit ac" "PopBestFitHeuristic ac" for ac :: "'a accessors"
proof
  show "queue_inv ac q \<Longrightarrow> map_of (q_items q) k = Some x \<Longrightarrow> idFn ac x = k" for q k x
    by (auto simp: queue_inv_def queue_weak_def)
qed (auto simp: fresh_Push intro: queue_inv_pop pop_Some fresh_hpop fresh_pop dest: pop_maximal pop_Some(4) pop_None)

subsection \<open>Properties\<close>

text \<open>Items of the examples: an ID with its priority, CPU and memory.\<close>

definition demo_ac :: "(string \<times> int \<times> int \<times> int) accessors" where
  "demo_ac = \<lparr>idFn = fst, prioFn = fst \<circ> snd, cpuFn = fst \<circ> snd \<circ> snd, memFn = snd \<circ> snd \<circ> snd\<rparr>"

definition demo_queue :: "(string \<times> int \<times> int \<times> int) queue" where
  "demo_queue = Push demo_ac (Push demo_ac (Push demo_ac NewQueue (''a'', 1, 2, 2)) (''b'', 5, 9, 9)) (''c'', 3, 1, 1)"

lemma demo_inv: "queue_inv demo_ac demo_queue"
  unfolding demo_queue_def
  by (intro queue_inv_Push_fresh queue_inv_New) (simp_all add: queue_fresh_def demo_ac_def op_defs)

lemma demo_pop: "PopBestFit demo_ac demo_queue 4 4 =
    (Some (''c'', 3, 1, 1), \<lparr>q_items = [(''a'', ''a'', 1, 2, 2), (''b'', ''b'', 5, 9, 9)],
       q_order = [(''b'', 5, 9, 9), (''a'', 1, 2, 2)], q_dirty = False\<rparr>)"
  by (simp add: demo_queue_def demo_ac_def op_defs pack_key_def List.extract_def)

lemma demo_pop_none: "PopBestFit demo_ac demo_queue 0 0 =
    (None, \<lparr>q_items = [(''a'', ''a'', 1, 2, 2), (''b'', ''b'', 5, 9, 9), (''c'', ''c'', 3, 1, 1)],
       q_order = [(''b'', 5, 9, 9), (''c'', 3, 1, 1), (''a'', 1, 2, 2)], q_dirty = False\<rparr>)"
  by (simp add: demo_queue_def demo_ac_def op_defs pack_key_def List.extract_def)

text \<open>
  C23. Best fit: from a queue in its contract, \<open>PopBestFit\<close> hands out an item that is stored
  under its ID and fits the free CPU and memory; no stored item that fits has a higher priority,
  nor the same priority and more memory; exactly that item leaves the map, and the queue is in
  its contract again.
\<close>

theorem PopBestFit_best:
  assumes "queue_inv ac q" and "PopBestFit ac q availCPU availMem = (Some item, q')"
  shows "map_of (q_items q) (idFn ac item) = Some item \<and>
    cpuFn ac item \<le> availCPU \<and> memFn ac item \<le> availMem \<and>
    (\<forall>k y. map_of (q_items q) k = Some y \<and> cpuFn ac y \<le> availCPU \<and> memFn ac y \<le> availMem \<longrightarrow>
       prioFn ac y < prioFn ac item \<or> (prioFn ac y = prioFn ac item \<and> memFn ac y \<le> memFn ac item)) \<and>
    map_of (q_items q') = (map_of (q_items q))(idFn ac item := None) \<and>
    queue_inv ac q'"
proof -
  have "prioFn ac y < prioFn ac item \<or> (prioFn ac y = prioFn ac item \<and> memFn ac y \<le> memFn ac item)"
    if "map_of (q_items q) k = Some y" "cpuFn ac y \<le> availCPU" "memFn ac y \<le> availMem" for k y
    using pq.pop_best [OF assms, of k y] that by (auto simp: fits_def packs_before_def split: if_splits)
  then show ?thesis
    using pq.pop_stored [OF assms] pq.pop_lookup [OF assms] pq.pop_inv [OF assms]
    unfolding fits_def by blast
qed

theorem PopBestFit_best_witness:
  "queue_inv demo_ac demo_queue \<and>
   PopBestFit demo_ac demo_queue 4 4 = (Some (''c'', 3, 1, 1), snd (PopBestFit demo_ac demo_queue 4 4)) \<and>
   map_of (q_items demo_queue) ''c'' = Some (''c'', 3, 1, 1) \<and>
   queue_inv demo_ac (snd (PopBestFit demo_ac demo_queue 4 4))"
  using PopBestFit_best [OF demo_inv demo_pop] demo_inv
  by (simp add: demo_pop) (simp add: demo_ac_def)

text \<open>From a queue in its contract nothing is found exactly if no stored item fits.\<close>

lemma PopBestFit_none:
  assumes "queue_inv ac q" and "PopBestFit ac q availCPU availMem = (None, q')"
  shows "map_of (q_items q') = map_of (q_items q) \<and>
    (\<forall>k y. map_of (q_items q) k = Some y \<longrightarrow> availCPU < cpuFn ac y \<or> availMem < memFn ac y)"
  using pq.pop_nothing [OF assms] by (fastforce simp: fits_def not_le)


text \<open>
  The stale entry: removing an item and pushing it again before the next pop leaves its ID twice
  in \<open>q_order\<close>, because \<open>RemoveByID\<close> defers the slice compaction and compaction keeps every entry
  whose ID is stored. Two pops then hand out the same item.
\<close>

lemma stale_entry_popped_twice:
  "let q = Push demo_ac (RemoveByID (Push demo_ac NewQueue (''a'', 9, 1, 1)) ''a'') (''a'', 9, 1, 1);
       q = Push demo_ac q (''b'', 1, 1, 1);
       (r1, q1) = PopBestFit demo_ac q 4 4;
       (r2, q2) = PopBestFit demo_ac q1 4 4
   in r1 = Some (''a'', 9, 1, 1) \<and> r2 = Some (''a'', 9, 1, 1)"
  by (simp add: demo_ac_def op_defs pack_key_def List.extract_def)

text \<open>Pushing an identifier that is already stored leaves the old item in the order list, and that one is popped.\<close>

lemma overwritten_item_popped:
  "let q = Push demo_ac (Push demo_ac NewQueue (''a'', 1, 1, 1)) (''a'', 7, 2, 2)
   in map_of (q_items q) ''a'' = Some (''a'', 7, 2, 2) \<and>
      fst (PopBestFit demo_ac q 4 4) = Some (''a'', 1, 1, 1)"
  by (simp add: demo_ac_def op_defs pack_key_def List.extract_def)

end
