(* ===== verification/LogCodec.thy ===== *)
theory LogCodec
  imports Prelude
begin

section \<open>The log entry codec (internal/consensus/filesystem/interpreter.go)\<close>

text \<open>
  The write-ahead log and the snapshot file are sequences of length-prefixed binary entries:
  \<open>encodeLogEntry\<close>, \<open>decodeLogEntry\<close> and \<open>readLogEntries\<close>, byte for byte, with the widths of
  the source (\<^verbatim>\<open>uint16\<close>, \<^verbatim>\<open>uint32\<close>, \<^verbatim>\<open>uint64\<close> are words, whose arithmetic wraps). Slicing out of
  range is \<open>Panic\<close>. \<open>decodeLogEntry\<close> is called on buffers from \<^verbatim>\<open>make\<close>, whose capacity is their
  length.
\<close>

datatype store_error =
    ErrLogBufferFull
  | ErrAppendIndexBehind
  | ErrAppendIndexAhead
  | ErrAppendTermBehind
  | ErrCorruptedLogData
  | ErrReadHeader
  | ErrReadPayload
  | ErrWrite
  | ErrSync
  | ErrTruncate
  | ErrSeek
  | ErrOpen
  | ErrClose
  | ErrRename
  | ErrMkdir
  | ErrReadDir
  | ErrNoSnapshotFile
  | Panic

record LogEntry =
  le_Index :: int
  le_Term :: int
  le_SchedulerID :: string
  le_Payload :: bytes

subsection \<open>Little endian integers and slices\<close>

fun le_bytes :: "nat \<Rightarrow> nat \<Rightarrow> bytes" where
  "le_bytes 0 n = []"
| "le_bytes (Suc k) n = word_of_nat n # le_bytes k (n div 256)"

fun le_nat :: "bytes \<Rightarrow> nat" where
  "le_nat [] = 0"
| "le_nat (b # bs) = unat b + 256 * le_nat bs"

definition PutUint16 :: "16 word \<Rightarrow> bytes" where
  "PutUint16 w = le_bytes 2 (unat w)"

definition PutUint32 :: "32 word \<Rightarrow> bytes" where
  "PutUint32 w = le_bytes 4 (unat w)"

definition PutUint64 :: "64 word \<Rightarrow> bytes" where
  "PutUint64 w = le_bytes 8 (unat w)"

definition Uint16 :: "bytes \<Rightarrow> 16 word" where
  "Uint16 bs = word_of_nat (le_nat bs)"

definition Uint32 :: "bytes \<Rightarrow> 32 word" where
  "Uint32 bs = word_of_nat (le_nat bs)"

definition Uint64 :: "bytes \<Rightarrow> 64 word" where
  "Uint64 bs = word_of_nat (le_nat bs)"

definition go_slice :: "bytes \<Rightarrow> nat \<Rightarrow> nat \<Rightarrow> store_error + bytes" where
  "go_slice data a b = (if a \<le> b \<and> b \<le> length data then Inr (take (b - a) (drop a data)) else Inl Panic)"

definition bytes_of_string :: "string \<Rightarrow> bytes" where
  "bytes_of_string s = map of_char s"

definition string_of_bytes :: "bytes \<Rightarrow> string" where
  "string_of_bytes bs = map (\<lambda>b. char_of (unat b)) bs"

lemma length_le_bytes [simp]: "length (le_bytes k n) = k"
  by (induction k n rule: le_bytes.induct) auto

lemma le_nat_le_bytes [simp]: "le_nat (le_bytes k n) = n mod 256 ^ k"
proof (induction k n rule: le_bytes.induct)
  case (2 k n)
  have "n mod 256 ^ Suc k = n mod 256 + 256 * (n div 256 mod 256 ^ k)"
    by (simp add: mod_mult2_eq)
  then show ?case
    using 2 by (simp add: unsigned_of_nat take_bit_eq_mod)
qed simp

lemma length_Put [simp]:
  "length (PutUint16 w2) = 2" "length (PutUint32 w4) = 4" "length (PutUint64 w8) = 8"
  by (simp_all add: PutUint16_def PutUint32_def PutUint64_def)

lemma unat_below: "unat (w :: 'a::len word) < 2 ^ LENGTH('a)"
  by (rule unsigned_less)

lemma Uint16_Put [simp]: "Uint16 (PutUint16 w) = w"
  using unat_below [of w] by (simp add: Uint16_def PutUint16_def)

lemma Uint32_Put [simp]: "Uint32 (PutUint32 w) = w"
  using unat_below [of w] by (simp add: Uint32_def PutUint32_def)

lemma Uint64_Put [simp]: "Uint64 (PutUint64 w) = w"
  using unat_below [of w] by (simp add: Uint64_def PutUint64_def)

lemma unat_of_char [simp]: "unat (of_char c :: byte) = of_char c"
proof -
  have "unat (word_of_nat (of_char c) :: byte) = of_char c"
    using nat_of_char_less_256 [of c] by (simp add: unsigned_of_nat take_bit_nat_eq_self)
  then show ?thesis by (simp add: of_nat_of_char)
qed

lemma string_of_bytes_of_string [simp]: "string_of_bytes (bytes_of_string s) = s"
  by (induction s) (simp_all add: string_of_bytes_def bytes_of_string_def)

lemma length_bytes_of_string [simp]: "length (bytes_of_string s) = length s"
  by (simp add: bytes_of_string_def)

subsection \<open>Encoding and decoding\<close>

definition encodeLogEntry :: "LogEntry \<Rightarrow> bytes" where
  "encodeLogEntry entry =
     (let masterIDLen = length (le_SchedulerID entry);
          entrySize = 8 + 8 + 2 + masterIDLen + length (le_Payload entry)
      in PutUint32 (word_of_nat entrySize)
         @ PutUint64 (word_of_int (le_Index entry))
         @ PutUint64 (word_of_int (le_Term entry))
         @ PutUint16 (word_of_nat masterIDLen)
         @ bytes_of_string (le_SchedulerID entry)
         @ le_Payload entry)"

definition decodeLogEntry :: "bytes \<Rightarrow> store_error + LogEntry" where
  "decodeLogEntry data =
     (if length data < 4 then Inl ErrCorruptedLogData
      else let entrySize = Uint32 (take 4 data) in
      if entrySize < 18 then Inl ErrCorruptedLogData
      else if (word_of_nat (length data) :: 32 word) < 4 + entrySize then Inl ErrCorruptedLogData
      else case go_slice data 20 22 of Inl e \<Rightarrow> Inl e | Inr lenBytes \<Rightarrow>
      let masterIDLen = Uint16 lenBytes in
      if (ucast (18 + masterIDLen) :: 32 word) > entrySize then Inl ErrCorruptedLogData
      else case go_slice data 22 (unat (22 + masterIDLen)) of Inl e \<Rightarrow> Inl e | Inr masterID \<Rightarrow>
      let payloadOffset = 22 + int (unat masterIDLen);
          payloadSize = int (unat entrySize) - (18 + int (unat masterIDLen))
      in case go_slice data 4 12 of Inl e \<Rightarrow> Inl e | Inr indexBytes \<Rightarrow>
      case go_slice data 12 20 of Inl e \<Rightarrow> Inl e | Inr termBytes \<Rightarrow>
      if payloadSize < 0 then Inl Panic
      else case go_slice data (nat payloadOffset) (nat (payloadOffset + payloadSize)) of Inl e \<Rightarrow> Inl e
      | Inr payload \<Rightarrow>
          Inr \<lparr>le_Index = sint (Uint64 indexBytes), le_Term = sint (Uint64 termBytes),
               le_SchedulerID = string_of_bytes masterID, le_Payload = payload\<rparr>)"

text \<open>
  The reader loop. \<^verbatim>\<open>io.ReadFull\<close> of the header ends the loop on an empty stream and fails on one
  to three bytes; the buffer for the body has \<^verbatim>\<open>4+entrySize\<close> bytes in \<^verbatim>\<open>uint32\<close> arithmetic, and
  \<^verbatim>\<open>buf[:4]\<close> of a shorter buffer panics.
\<close>

function read_loop :: "bytes \<Rightarrow> LogEntry list \<Rightarrow> int \<Rightarrow> store_error + LogEntry list \<times> int" where
  "read_loop r recoveredEntries totalSize =
     (if r = [] then Inr (recoveredEntries, totalSize)
      else if length r < 4 then Inl ErrReadHeader
      else
        let header = take 4 r;
            rest = drop 4 r;
            entrySize = Uint32 header;
            bufLen = unat (4 + entrySize)
        in if bufLen < 4 then Inl Panic
           else if length rest < bufLen - 4 then Inl ErrReadPayload
           else case decodeLogEntry (header @ take (bufLen - 4) rest) of
                  Inl e \<Rightarrow> Inl e
                | Inr entry \<Rightarrow>
                    read_loop (drop (bufLen - 4) rest) (recoveredEntries @ [entry])
                      (wrap64 (totalSize + int bufLen)))"
  by pat_completeness auto
termination
  by (relation "measure (\<lambda>(r, _, _). length r)") auto

declare read_loop.simps [simp del]

definition readLogEntries :: "bytes \<Rightarrow> store_error + LogEntry list \<times> int" where
  "readLogEntries r = read_loop r [] 0"

subsection \<open>Lengths and bounds\<close>

definition entry_size :: "LogEntry \<Rightarrow> nat" where
  "entry_size e = 18 + length (le_SchedulerID e) + length (le_Payload e)"

text \<open>The entries the codec carries unchanged.\<close>

definition encodable :: "LogEntry \<Rightarrow> bool" where
  "encodable e \<longleftrightarrow> in_int64 (le_Index e) \<and> in_int64 (le_Term e) \<and>
     length (le_SchedulerID e) < 65514 \<and> 4 + entry_size e < 4294967296"

lemma length_encodeLogEntry [simp]: "length (encodeLogEntry e) = 4 + entry_size e"
  by (simp add: encodeLogEntry_def Let_def entry_size_def)

lemma encodeLogEntry_nonempty [simp]: "encodeLogEntry e \<noteq> []"
  by (simp flip: length_greater_0_conv)

lemma sint_word_of_int_in_range: "in_int64 x \<Longrightarrow> sint (word_of_int x :: 64 word) = x"
  by (simp add: in_int64_def signed_of_int signed_take_bit_int_eq_self)

lemma unat_ucast_16_32 [simp]: "unat (ucast (w :: 16 word) :: 32 word) = unat w"
  using unat_below [of w] by (simp add: unsigned_ucast_eq take_bit_nat_eq_self)

lemma unat_word_of_nat_below: "n < 2 ^ LENGTH('a) \<Longrightarrow> unat (word_of_nat n :: 'a::len word) = n"
  by (simp add: unsigned_of_nat take_bit_nat_eq_self)

text \<open>Where the header fields of an encoded entry sit.\<close>

lemma layout_slices:
  assumes "length S = 4" "length I = 8" "length T = 8" "length L = 2"
  shows "take 4 (S @ I @ T @ L @ B) = S"
    and "go_slice (S @ I @ T @ L @ B) 4 12 = Inr I"
    and "go_slice (S @ I @ T @ L @ B) 12 20 = Inr T"
    and "go_slice (S @ I @ T @ L @ B) 20 22 = Inr L"
    and "go_slice (S @ I @ T @ L @ B) 22 (22 + n) = (if n \<le> length B then Inr (take n B) else Inl Panic)"
  using assms by (auto simp: go_slice_def)

lemma slice_from_22:
  assumes "length S = 4" "length I = 8" "length T = 8" "length L = 2"
  shows "go_slice (S @ I @ T @ L @ xs @ ys) (22 + length xs) (22 + length xs + length ys) = Inr ys"
  using assms by (auto simp: go_slice_def)

text \<open>
  Decoding an encoded entry up to the scheduler ID, whose slice bounds are computed in \<^verbatim>\<open>uint16\<close>.
\<close>

lemma decode_encode_frame:
  fixes e :: LogEntry
  defines "n \<equiv> length (le_SchedulerID e)"
  assumes range: "in_int64 (le_Index e)" "in_int64 (le_Term e)" and n: "n < 65536"
    and frame: "4 + entry_size e < 4294967296"
  shows "decodeLogEntry (encodeLogEntry e) =
    (case go_slice (encodeLogEntry e) 22 ((22 + n) mod 65536) of
       Inl x \<Rightarrow> Inl x
     | Inr masterID \<Rightarrow> Inr \<lparr>le_Index = le_Index e, le_Term = le_Term e,
         le_SchedulerID = string_of_bytes masterID, le_Payload = le_Payload e\<rparr>)"
proof -
  define S where "S = PutUint32 (word_of_nat (entry_size e))"
  define I where "I = PutUint64 (word_of_int (le_Index e))"
  define T where "T = PutUint64 (word_of_int (le_Term e))"
  define L where "L = PutUint16 (word_of_nat n)"
  let ?sid = "bytes_of_string (le_SchedulerID e)"
  let ?data = "S @ I @ T @ L @ ?sid @ le_Payload e"
  have len [simp]: "length S = 4" "length I = 8" "length T = 8" "length L = 2"
    by (simp_all add: S_def I_def T_def L_def)
  have enc: "encodeLogEntry e = ?data"
    by (simp add: encodeLogEntry_def S_def I_def T_def L_def n_def entry_size_def add.assoc Let_def)
  have size: "unat (word_of_nat (entry_size e) :: 32 word) = entry_size e"
    "unat (4 + word_of_nat (entry_size e) :: 32 word) = 4 + entry_size e"
    using frame by (simp_all add: unat_word_of_nat_below unat_word_ariths)
  have n_le: "18 + n \<le> entry_size e"
    by (simp add: n_def entry_size_def)
  have idlen: "unat (word_of_nat n :: 16 word) = n" "unat (18 + word_of_nat n :: 16 word) = (18 + n) mod 65536"
    "unat (22 + word_of_nat n :: 16 word) = (22 + n) mod 65536"
    using n by (simp_all add: unat_word_of_nat_below unat_word_ariths)
  have data_len: "length ?data = 4 + entry_size e"
    using length_encodeLogEntry [of e] by (simp only: enc)
  have lenw: "unat (word_of_nat (length ?data) :: 32 word) = 4 + entry_size e"
    by (simp add: data_len size del: length_append)
  have fields: "Uint32 S = word_of_nat (entry_size e)" "Uint16 L = word_of_nat n"
    "sint (Uint64 I) = le_Index e" "sint (Uint64 T) = le_Term e"
    using range by (simp_all add: S_def L_def I_def T_def sint_word_of_int_in_range)
  have "(18 + n) mod 65536 \<le> entry_size e"
    using n_le mod_less_eq_dividend [of "18 + n" 65536] by linarith
  then have guards: "\<not> Uint32 S < 18" "\<not> (word_of_nat (length ?data) :: 32 word) < 4 + Uint32 S"
    "\<not> (ucast (18 + Uint16 L) :: 32 word) > Uint32 S"
    using n_le by (simp_all add: fields word_less_nat_alt lenw size idlen del: length_append)
  have payload: "go_slice ?data (22 + n) (4 + entry_size e) = Inr (le_Payload e)"
    using slice_from_22 [OF len, of ?sid "le_Payload e"] by (simp add: n_def entry_size_def add.assoc)
  have offsets: "nat (22 + int n + (int (entry_size e) - (18 + int n))) = 4 + entry_size e" "nat (22 + int n) = 22 + n"
    by simp_all
  show ?thesis
    using guards n_le payload offsets
    by (simp add: decodeLogEntry_def Let_def enc data_len layout_slices [OF len] fields idlen size
        del: length_append split: sum.split)
qed

lemma sid_slice:
  "go_slice (encodeLogEntry e) 22 (22 + length (le_SchedulerID e)) = Inr (bytes_of_string (le_SchedulerID e))"
  unfolding encodeLogEntry_def Let_def by (simp add: layout_slices(5))

lemma sid_slice_panics:
  "65514 \<le> length (le_SchedulerID e) \<Longrightarrow> length (le_SchedulerID e) < 65536 \<Longrightarrow>
   go_slice (encodeLogEntry e) 22 ((22 + length (le_SchedulerID e)) mod 65536) = Inl Panic"
  by (auto simp: go_slice_def mod_if)

lemma decode_encode: "encodable e \<Longrightarrow> decodeLogEntry (encodeLogEntry e) = Inr e"
  by (simp add: encodable_def decode_encode_frame sid_slice)

lemma take_4_encode: "take 4 (encodeLogEntry e) = PutUint32 (word_of_nat (entry_size e))"
  by (simp add: encodeLogEntry_def Let_def entry_size_def)

lemma buffer_length:
  "encodable e \<Longrightarrow> unat (4 + Uint32 (take 4 (encodeLogEntry e))) = 4 + entry_size e"
  by (simp add: take_4_encode encodable_def unat_word_ariths unat_word_of_nat_below)

lemma read_loop_entry:
  assumes "encodable e"
  shows "read_loop (encodeLogEntry e @ r) acc tot =
    read_loop r (acc @ [e]) (wrap64 (tot + int (4 + entry_size e)))"
proof -
  have parts: "take 4 (encodeLogEntry e @ r) = take 4 (encodeLogEntry e)"
    "drop 4 (encodeLogEntry e @ r) = drop 4 (encodeLogEntry e) @ r"
    by simp_all
  have body: "take (entry_size e) (drop 4 (encodeLogEntry e)) = drop 4 (encodeLogEntry e)"
    by simp
  show ?thesis
    by (subst read_loop.simps)
      (simp add: parts body buffer_length [OF assms] decode_encode [OF assms] Let_def)
qed

lemma read_loop_entries:
  "\<forall>e\<in>set es. encodable e \<Longrightarrow> read_loop (concat (map encodeLogEntry es) @ r) acc tot =
     read_loop r (acc @ es) (if es = [] then tot else wrap64 (tot + int (\<Sum>e\<leftarrow>es. 4 + entry_size e)))"
proof (induction es arbitrary: acc tot)
  case (Cons e es)
  then show ?case
    by (simp add: read_loop_entry add.assoc)
qed simp

lemma read_loop_torn:
  assumes "encodable e" "0 < n" "n < 4 + entry_size e"
  shows "read_loop (take n (encodeLogEntry e)) acc tot = Inl (if n < 4 then ErrReadHeader else ErrReadPayload)"
proof (cases "n < 4")
  case True
  then have "take n (encodeLogEntry e) \<noteq> []"
    using assms(2) by (simp flip: length_greater_0_conv)
  with True show ?thesis
    by (subst read_loop.simps) simp
next
  case False
  then have "take 4 (take n (encodeLogEntry e)) = take 4 (encodeLogEntry e)"
    "take n (encodeLogEntry e) \<noteq> []" "n - 4 < entry_size e"
    using assms(2,3) by (auto simp add: min_def)
  with False show ?thesis
    using assms by (subst read_loop.simps) (simp add: buffer_length [OF assms(1)] Let_def)
qed

subsection \<open>Properties\<close>

definition demo_entry :: LogEntry where
  "demo_entry = \<lparr>le_Index = 7, le_Term = 3, le_SchedulerID = ''sched'', le_Payload = [1, 2, 255]\<rparr>"

lemma encodable_demo: "encodable demo_entry"
  by (simp add: encodable_def demo_entry_def in_int64_def entry_size_def)

text \<open>
  C25. The codec round trip: decoding an encoded entry gives the entry back, for every entry whose index
  and term are \<^verbatim>\<open>int64\<close> values, whose scheduler ID is shorter than 65514 bytes and whose frame
  fits the 32 bit length prefix.
\<close>

theorem codec_roundtrip:
  assumes "in_int64 (le_Index e)" "in_int64 (le_Term e)" "length (le_SchedulerID e) < 65514"
    "22 + length (le_SchedulerID e) + length (le_Payload e) < 2 ^ 32"
  shows "decodeLogEntry (encodeLogEntry e) = Inr e"
  using assms by (intro decode_encode) (simp add: encodable_def entry_size_def)

theorem codec_roundtrip_witness: "decodeLogEntry (encodeLogEntry demo_entry) = Inr demo_entry"
  by (rule codec_roundtrip) (simp_all add: demo_entry_def in_int64_def)

text \<open>
  Reading a log back: the reader returns, from the concatenation of encoded entries, exactly
  these entries in order, and their total size in bytes.
\<close>

lemma readLogEntries_roundtrip:
  assumes "\<forall>e\<in>set es. encodable e" "(\<Sum>e\<leftarrow>es. 4 + entry_size e) < 2 ^ 63"
  shows "readLogEntries (concat (map encodeLogEntry es)) =
    Inr (es, int (length (concat (map encodeLogEntry es))))"
proof -
  have len: "length (concat (map encodeLogEntry es)) = (\<Sum>e\<leftarrow>es. 4 + entry_size e)"
    by (simp add: length_concat comp_def)
  have "in_int64 (int (\<Sum>e\<leftarrow>es. 4 + entry_size e))"
    using assms(2) by (simp add: in_int64_def)
  then have "read_loop (concat (map encodeLogEntry es) @ []) [] 0 =
      read_loop [] es (int (\<Sum>e\<leftarrow>es. 4 + entry_size e))"
    using read_loop_entries [OF assms(1), of "[]" "[]" 0] by (auto split: if_splits)
  then show ?thesis
    by (simp add: readLogEntries_def len read_loop.simps [of "[]"])
qed

lemma readLogEntries_roundtrip_example:
  "readLogEntries (concat (map encodeLogEntry [demo_entry, demo_entry])) = Inr ([demo_entry, demo_entry], 60)"
  using readLogEntries_roundtrip [of "[demo_entry, demo_entry]"] encodable_demo
  by (simp add: demo_entry_def entry_size_def)

text \<open>
  A torn write is noticed: reading a log whose last frame was cut short, at any byte, reports a
  header or a payload error; it never returns entries that were not written. (The reader returns no
  entry at all then: the error also discards the complete frames before the torn one.)
\<close>

lemma torn_log_rejected:
  assumes "\<forall>x\<in>set es. encodable x" "encodable e" "0 < n" "n < length (encodeLogEntry e)"
  shows "readLogEntries (concat (map encodeLogEntry es) @ take n (encodeLogEntry e)) =
    Inl (if n < 4 then ErrReadHeader else ErrReadPayload)"
  using assms by (simp add: readLogEntries_def read_loop_entries read_loop_torn)

lemma torn_log_rejected_example:
  "readLogEntries (concat (map encodeLogEntry [demo_entry]) @ take 29 (encodeLogEntry demo_entry)) =
    Inl ErrReadPayload"
  using torn_log_rejected [of "[demo_entry]" demo_entry 29] encodable_demo
  by (simp add: entry_size_def demo_entry_def)

text \<open>
  C40. Long scheduler IDs: \<open>decodeLogEntry\<close> adds 22 to the ID's length in \<^verbatim>\<open>uint16\<close> arithmetic. For an
  ID of 65514 to 65535 bytes, which \<open>encodeLogEntry\<close> writes without complaint, the sum wraps and
  decoding panics on the slice bounds.
\<close>

theorem long_scheduler_id_panics:
  assumes "65514 \<le> length (le_SchedulerID e)" "length (le_SchedulerID e) \<le> 65535"
    "in_int64 (le_Index e)" "in_int64 (le_Term e)" "length (le_Payload e) < 4000000000"
  shows "decodeLogEntry (encodeLogEntry e) = Inl Panic"
  using assms by (simp add: decode_encode_frame sid_slice_panics entry_size_def)

theorem long_scheduler_id_panics_witness:
  "decodeLogEntry (encodeLogEntry
     \<lparr>le_Index = 1, le_Term = 1, le_SchedulerID = replicate 65514 (CHR ''x''), le_Payload = [1]\<rparr>) = Inl Panic"
  by (rule long_scheduler_id_panics) (simp_all add: in_int64_def)

end
