(* ===== verification/Models.thy ===== *)
theory Models
  imports Prelude
begin

section \<open>Shared models (internal/models)\<close>

text \<open>
  The job status and the scheduler events, the payloads that travel through the consensus log, and
  the prefixed identifiers. \<^verbatim>\<open>Status\<close> is an \<^verbatim>\<open>int\<close> with named constants in the source, and a JSON
  payload may carry any number in it, so it is an \<^typ>\<open>int\<close> here with the same four constants.
  Identifiers come from the \<^verbatim>\<open>uuid\<close> package, which is outside the repository: the generated UUID is
  an argument.
\<close>

type_synonym Status = int

abbreviation (input) Pending :: Status where "Pending \<equiv> 0"
abbreviation (input) Running :: Status where "Running \<equiv> 1"
abbreviation (input) Completed :: Status where "Completed \<equiv> 2"
abbreviation (input) Failed :: Status where "Failed \<equiv> 3"

definition Status_String :: "Status \<Rightarrow> string" where
  "Status_String s =
     (if s = Pending then ''Pending''
      else if s = Running then ''Running''
      else if s = Completed then ''Completed''
      else if s = Failed then ''Failed''
      else ''Unknown'')"

type_synonym SchedulerEvent = int

abbreviation (input) Online :: SchedulerEvent where "Online \<equiv> 0"
abbreviation (input) Offline :: SchedulerEvent where "Offline \<equiv> 1"
abbreviation (input) HeartbeatFailed :: SchedulerEvent where "HeartbeatFailed \<equiv> 2"
abbreviation (input) RedistributedJobs :: SchedulerEvent where "RedistributedJobs \<equiv> 3"

definition SchedulerEvent_String :: "SchedulerEvent \<Rightarrow> string" where
  "SchedulerEvent_String s =
     (if s = Online then ''Online''
      else if s = Offline then ''Offline''
      else if s = HeartbeatFailed then ''HeartbeatFailed''
      else if s = RedistributedJobs then ''RedistributedJobs''
      else ''Unknown'')"

record JobPayload =
  jp_ID :: string
  jp_State :: Status
  jp_Image :: string
  jp_Priority :: int
  jp_CPURequirement :: int
  jp_MemoryRequirement :: int
  jp_Payload :: bytes

record SchedulerPayload =
  sp_ID :: string
  sp_OriginSchedulerID :: string
  sp_Entry :: string
  sp_Timestamp :: int

text \<open>The messages between a scheduler and its clusters (api/proto/cluster/v1/cluster.proto).\<close>

record JobRequest =
  jr_JobId :: string
  jr_RequiredNanoCpu :: int
  jr_RequiredMemoryBytes :: int
  jr_ImageAlias :: string
  jr_Priority :: int
  jr_Payload :: bytes

record JobResponse =
  jres_JobId :: string
  jres_Accept :: bool
  jres_AssignedNodeId :: string
  jres_AssignedNodePort :: string

record ClusterStatusResponse =
  csr_NodeId :: string
  csr_NodeAddress :: string
  csr_TotalNanoCpu :: int
  csr_TotalMemoryBytes :: int
  csr_AvailableNanoCpu :: int
  csr_AvailableMemoryBytes :: int
  csr_ActiveJobIds :: "string list"

datatype JobStatus =
    JOB_STATUS_PENDING | JOB_STATUS_RUNNING | JOB_STATUS_COMPLETED | JOB_STATUS_FAILED | JOB_STATUS_UNKNOWN

record JobStatusResponse =
  jsr_JobId :: string
  jsr_Status :: JobStatus
  jsr_Priority :: int
  jsr_ImageAlias :: string
  jsr_Payload :: "bytes option"

definition PrefixJob :: string where "PrefixJob = ''job_''"
definition PrefixContainer :: string where "PrefixContainer = ''con_''"
definition PrefixRequest :: string where "PrefixRequest = ''req_''"

definition NewJobID :: "string \<Rightarrow> string" where
  "NewJobID uuid = PrefixJob @ uuid"

definition NewContainerID :: "string \<Rightarrow> string" where
  "NewContainerID uuid = PrefixContainer @ uuid"

definition NewRequestID :: "string \<Rightarrow> string" where
  "NewRequestID uuid = PrefixRequest @ uuid"

definition IsJobID :: "string \<Rightarrow> bool" where
  "IsJobID s = (take (length PrefixJob) s = PrefixJob)"

text \<open>\<^verbatim>\<open>strings.SplitN(s, "_", 2)\<close> and the parse of its second part; \<open>uuid_Parse\<close> is the package's.\<close>

definition ExtractRawUUID :: "(string \<Rightarrow> 'u option) \<Rightarrow> string \<Rightarrow> 'u option" where
  "ExtractRawUUID uuid_Parse prefixedID =
     (case dropWhile (\<lambda>c. c \<noteq> CHR ''_'') prefixedID of
        [] \<Rightarrow> None
      | _ # rest \<Rightarrow> uuid_Parse rest)"

lemma ExtractRawUUID_New:
  "ExtractRawUUID uuid_Parse (NewJobID u) = uuid_Parse u"
  "ExtractRawUUID uuid_Parse (NewContainerID u) = uuid_Parse u"
  "ExtractRawUUID uuid_Parse (NewRequestID u) = uuid_Parse u"
  by (simp_all add: ExtractRawUUID_def NewJobID_def NewContainerID_def NewRequestID_def
      PrefixJob_def PrefixContainer_def PrefixRequest_def)

lemma IsJobID_New: "IsJobID (NewJobID u)" "\<not> IsJobID (NewContainerID u)" "\<not> IsJobID (NewRequestID u)"
  by (simp_all add: IsJobID_def NewJobID_def NewContainerID_def NewRequestID_def
      PrefixJob_def PrefixContainer_def PrefixRequest_def)

end
