(* ===== verification/LogSnapshot.thy ===== *)
theory LogSnapshot
  imports LogCodec Models
begin

section \<open>Log compaction (internal/consensus/filesystem/interpreter.go, createSnapshot)\<close>

text \<open>
  \<open>createSnapshot\<close> compacts a log to the entries still needed. \<^verbatim>\<open>json.Unmarshal\<close> into
  \<^verbatim>\<open>genericPayload\<close> is its argument \<open>unmarshal\<close> (\<open>None\<close> on an error), so that the theorems hold for
  every decoder of payloads. The result is the values of a Go map: its order is the association
  list's, which stands for any order.
\<close>

record genericPayload =
  gp_ID :: string
  gp_State :: "Status option"
  gp_Entry :: "string option"

text \<open>The loop of \<open>createSnapshot\<close>, over the log from its end to its start.\<close>

fun snapshot_loop :: "(bytes \<Rightarrow> genericPayload option) \<Rightarrow> LogEntry list \<Rightarrow> (string, LogEntry) gomap \<Rightarrow> goset \<Rightarrow>
    (string, LogEntry) gomap" where
  "snapshot_loop unmarshal [] snapshots excluded = snapshots"
| "snapshot_loop unmarshal (e # es) snapshots excluded =
     (case unmarshal (le_Payload e) of
        None \<Rightarrow> snapshot_loop unmarshal es (AList.update (''raw-'' @ show_int (le_Index e)) e snapshots) excluded
      | Some peek \<Rightarrow>
          if gp_ID peek = '''' then snapshot_loop unmarshal es snapshots excluded
          else if gp_ID peek \<in> set excluded then snapshot_loop unmarshal es snapshots excluded
          else case gp_State peek of
            Some state \<Rightarrow>
              if state = Completed \<or> state = Failed
              then snapshot_loop unmarshal es (AList.delete (gp_ID peek) snapshots)
                (List.insert (gp_ID peek) excluded)
              else snapshot_loop unmarshal es
                (case map_of snapshots (gp_ID peek) of
                   None \<Rightarrow> AList.update (gp_ID peek) e snapshots
                 | Some _ \<Rightarrow> snapshots) excluded
          | None \<Rightarrow> snapshot_loop unmarshal es snapshots excluded)"

definition createSnapshot :: "(bytes \<Rightarrow> genericPayload option) \<Rightarrow> LogEntry list \<Rightarrow> LogEntry list" where
  "createSnapshot unmarshal data = map snd (snapshot_loop unmarshal (rev data) [] [])"

text \<open>The job an entry is about, with the state it records.\<close>

definition job_state :: "(bytes \<Rightarrow> genericPayload option) \<Rightarrow> LogEntry \<Rightarrow> (string \<times> Status) option" where
  "job_state unmarshal e =
     (case unmarshal (le_Payload e) of
        None \<Rightarrow> None
      | Some p \<Rightarrow> if gp_ID p = '''' then None else map_option (Pair (gp_ID p)) (gp_State p))"

definition is_job :: "(bytes \<Rightarrow> genericPayload option) \<Rightarrow> string \<Rightarrow> LogEntry \<Rightarrow> bool" where
  "is_job unmarshal i e \<longleftrightarrow> map_option fst (job_state unmarshal e) = Some i"

definition is_finished :: "(bytes \<Rightarrow> genericPayload option) \<Rightarrow> string \<Rightarrow> LogEntry \<Rightarrow> bool" where
  "is_finished unmarshal i e \<longleftrightarrow>
     job_state unmarshal e = Some (i, Completed) \<or> job_state unmarshal e = Some (i, Failed)"

lemmas job_defs = job_state_def is_job_def is_finished_def

lemma snapshot_loop_excluded:
  "i \<in> set excl \<Longrightarrow> take 4 i \<noteq> ''raw-'' \<Longrightarrow> map_of (snapshot_loop u es snaps excl) i = map_of snaps i"
  by (induction u es snaps excl rule: snapshot_loop.induct) (auto split: option.split)

lemma snapshot_loop_lookup:
  "i \<notin> set excl \<Longrightarrow> take 4 i \<noteq> ''raw-'' \<Longrightarrow> map_of (snapshot_loop u es snaps excl) i =
    (if \<exists>e\<in>set es. is_finished u i e then None
     else case map_of snaps i of Some e \<Rightarrow> Some e | None \<Rightarrow> find (is_job u i) es)"
proof (induction es arbitrary: snaps excl)
  case (Cons e es)
  have raw: "i \<noteq> ''raw-'' @ show_int (le_Index e)"
    using Cons.prems(2) by auto
  note IH = Cons.IH [OF _ Cons.prems(2)]
  show ?case
  proof (cases "u (le_Payload e)")
    case None
    then have "\<not> is_job u i e" "\<not> is_finished u i e"
      by (simp_all add: job_defs)
    with None raw Cons.prems(1) show ?thesis
      by (simp add: IH cong: option.case_cong)
  next
    case (Some p)
    show ?thesis
    proof (cases "gp_ID p = i \<and> i \<noteq> ''''")
      case False
      then have "\<not> is_job u i e" "\<not> is_finished u i e"
        using Some by (auto simp: job_defs)
      with Some False Cons.prems(1) show ?thesis
        by (auto simp: IH split: option.split)
    next
      case True
      then have "is_job u i e \<longleftrightarrow> gp_State p \<noteq> None"
        "is_finished u i e \<longleftrightarrow> gp_State p = Some Completed \<or> gp_State p = Some Failed"
        using Some by (auto simp: job_defs)
      with Some True Cons.prems show ?thesis
        by (auto simp: IH snapshot_loop_excluded split: option.split)
    qed
  qed
qed (simp split: option.split)

text \<open>Every value is filed under its own job's ID, or is an undecodable entry under its raw key.\<close>

definition filed :: "(bytes \<Rightarrow> genericPayload option) \<Rightarrow> string \<times> LogEntry \<Rightarrow> bool" where
  "filed u x \<longleftrightarrow> is_job u (fst x) (snd x) \<or>
     (u (le_Payload (snd x)) = None \<and> fst x = ''raw-'' @ show_int (le_Index (snd x)))"

lemma snapshot_loop_invariant:
  assumes "\<And>k e m. P m \<Longrightarrow> e \<in> set es \<Longrightarrow> filed u (k, e) \<Longrightarrow> P (AList.update k e m)"
    and "\<And>k m. P m \<Longrightarrow> P (AList.delete k m)"
  shows "P snaps \<Longrightarrow> P (snapshot_loop u es snaps excl)"
  using assms(1)
proof (induction es arbitrary: snaps excl)
  case (Cons e es)
  have IH: "P m \<Longrightarrow> P (snapshot_loop u es m x)" for m x
    using Cons.IH Cons.prems(2) by simp
  have upd: "filed u (k, e) \<Longrightarrow> P (snapshot_loop u es (AList.update k e snaps) x)" for k x
    using Cons.prems by (simp add: IH)
  have raw: "u (le_Payload e) = None \<Longrightarrow> filed u (''raw-'' @ show_int (le_Index e), e)"
    by (simp add: filed_def)
  have job: "filed u (gp_ID p, e)" if "u (le_Payload e) = Some p" "gp_ID p \<noteq> ''''" "gp_State p = Some s" for p s
    using that by (auto simp: filed_def job_defs)
  show ?case
  proof (cases "u (le_Payload e)")
    case None
    then show ?thesis using upd [OF raw] by simp
  next
    case (Some p)
    note keep = IH [OF Cons.prems(1)] and drop = IH [OF assms(2) [OF Cons.prems(1)]]
    show ?thesis
    proof (cases "gp_State p")
      case None
      then show ?thesis using Some keep by simp
    next
      case (Some s)
      then show ?thesis
        using \<open>u (le_Payload e) = Some p\<close> keep drop upd [OF job] by (auto split: option.split)
    qed
  qed
qed simp

lemma snapshot_loop_filed:
  "gm_wf (snapshot_loop u es [] []) \<and> (\<forall>x\<in>set (snapshot_loop u es [] []). filed u x)"
  by (rule snapshot_loop_invariant) (auto simp: set_update_iff dest: mem_deleteD)

lemma snd_update: "snd ` set (AList.update k e m) \<subseteq> insert e (snd ` set m)"
  by (induction m) auto

lemma snapshot_loop_subset: "snd ` set (snapshot_loop u es [] []) \<subseteq> set es"
proof (rule snapshot_loop_invariant)
  fix k e and m :: "(string, LogEntry) gomap"
  assume "snd ` set m \<subseteq> set es" "e \<in> set es"
  then show "snd ` set (AList.update k e m) \<subseteq> set es"
    using snd_update [of k e m] by (meson insert_subset order_trans)
qed (auto dest: mem_deleteD)

lemma filter_values:
  assumes "gm_wf m" "\<forall>(k, e)\<in>set m. P e \<longleftrightarrow> k = i"
  shows "filter P (map snd m) = (case map_of m i of None \<Rightarrow> [] | Some e \<Rightarrow> [e])"
  using assms
proof (induction m)
  case (Cons x m)
  have "map_of m (fst x) = None"
    using Cons.prems(1) by (simp add: map_of_None_keys)
  with Cons show ?case
    by (cases x) auto
qed simp

subsection \<open>Properties\<close>

text \<open>
  C29. What compaction keeps of a job: of all the log entries about job \<open>i\<close>, the snapshot keeps none
  if any of them records the state Completed or Failed, and otherwise exactly the last one. (IDs
  that start with the prefix of the raw keys are excluded: they can collide with those.)
\<close>

theorem createSnapshot_latest_job_state:
  assumes "take 4 i \<noteq> ''raw-''"
  shows "filter (is_job u i) (createSnapshot u data) =
    (if \<exists>e\<in>set data. is_finished u i e then []
     else case find (is_job u i) (rev data) of None \<Rightarrow> [] | Some e \<Rightarrow> [e])"
proof -
  let ?m = "snapshot_loop u (rev data) [] []"
  have "is_job u i e \<longleftrightarrow> k = i" if "(k, e) \<in> set ?m" for k e
    using that snapshot_loop_filed [of u "rev data"] assms by (fastforce simp: filed_def is_job_def job_state_def)
  then have "filter (is_job u i) (map snd ?m) = (case map_of ?m i of None \<Rightarrow> [] | Some e \<Rightarrow> [e])"
    using snapshot_loop_filed [of u "rev data"] by (intro filter_values) auto
  then show ?thesis
    using assms by (simp add: createSnapshot_def snapshot_loop_lookup)
qed

theorem createSnapshot_latest_job_state_witness:
  "let u = (\<lambda>p. if p = [] then None else Some \<lparr>gp_ID = ''job_1'', gp_State = Some (uint (hd p)), gp_Entry = None\<rparr>);
       e = (\<lambda>n s. \<lparr>le_Index = n, le_Term = 1, le_SchedulerID = ''s'', le_Payload = [s]\<rparr>)
   in filter (is_job u ''job_1'') (createSnapshot u [e 1 0, e 2 1]) = [e 2 1]"
  unfolding Let_def
  by (subst createSnapshot_latest_job_state) (simp_all add: job_defs)

text \<open>Compaction invents no entry.\<close>

lemma createSnapshot_subset:
  "set (createSnapshot u data) \<subseteq> {e \<in> set data. u (le_Payload e) = None \<or> (\<exists>q. job_state u e = Some q)}"
  using snapshot_loop_filed [of u "rev data"] snapshot_loop_subset [of u "rev data"]
  by (fastforce simp: createSnapshot_def filed_def is_job_def)

end
