(* ===== verification/LogStore.thy ===== *)
theory LogStore
  imports LogSnapshot "HOL-Library.List_Lexorder" "HOL-Library.Char_ord"
begin

section \<open>The log store (internal/consensus/filesystem)\<close>

text \<open>
  The \<^verbatim>\<open>Handler\<close> of handler.go with the operations of writer.go (Append, TruncateLog), reader.go
  (Entries, QueryEntries), snapshot.go (StoreSnapshot, rotateFile, SnapshotReader, InstallSnapshot)
  and entry.go (LoadStorage). The data directory is part of the state: a map from file names to
  contents; a handle is the name of its file, \<open>None\<close> is nil, and the snapshot handle also says
  whether it is still open (StoreSnapshot closes it when a write fails and keeps the pointer). The channel
  \<^verbatim>\<open>SnapshotRequired\<close> of capacity one is \<open>None\<close> when closed and otherwise says whether a signal waits.
  Each method holds the handler's mutex, so each is one state transformer; only StoreSnapshot
  releases it half way and is split there (\<open>snapshot_begin\<close>, \<open>snapshot_finish\<close>).

  Every system call may fail. The record \<open>disk_env\<close> says which calls of an operation do: its
  \<open>k\<close>-th open, and its \<open>k\<close>-th write, which may have written a prefix. In \<open>disk_ok\<close> nothing fails.
\<close>

record disk_env =
  de_open :: "nat \<Rightarrow> bool"
  de_write :: "nat \<Rightarrow> nat option"
  de_sync :: bool
  de_close :: bool
  de_truncate :: bool
  de_seek :: bool
  de_rename :: bool
  de_stat :: bool
  de_mkdir :: bool
  de_readdir :: bool
  de_notexist :: bool

definition disk_ok :: disk_env where
  "disk_ok = \<lparr>de_open = (\<lambda>_. True), de_write = (\<lambda>_. None), de_sync = True, de_close = True,
     de_truncate = True, de_seek = True, de_rename = True, de_stat = True, de_mkdir = True, de_readdir = True,
     de_notexist = False\<rparr>"

type_synonym disk = "(string, bytes) gomap"

definition content :: "disk \<Rightarrow> string \<Rightarrow> bytes" where
  "content d f = (case map_of d f of None \<Rightarrow> [] | Some bs \<Rightarrow> bs)"

definition append_file :: "string \<Rightarrow> bytes \<Rightarrow> disk \<Rightarrow> disk" where
  "append_file f bs d = AList.update f (content d f @ bs) d"

definition write_at :: "bytes \<Rightarrow> nat \<Rightarrow> bytes \<Rightarrow> bytes" where
  "write_at old off new =
     take off (old @ replicate (off - length old) 0) @ new @ drop (off + length new) old"

record Handler =
  h_disk :: disk
  h_activeFile :: "string option"
  h_snapshotFile :: "(string \<times> bool) option"
  h_currentSize :: int
  h_maxLogSizekB :: int
  h_prevIndex :: int
  h_prevTerm :: int
  h_discIndex :: int
  h_discTerm :: int
  h_entries :: "LogEntry list"
  h_SnapshotRequired :: "bool option"

definition UpdateTerm :: "Handler \<Rightarrow> int \<Rightarrow> Handler" where
  "UpdateTerm h term = h\<lparr>h_prevTerm := term\<rparr>"

definition Handler_Close :: "Handler \<Rightarrow> Handler" where
  "Handler_Close h = h\<lparr>h_activeFile := None, h_snapshotFile := None, h_SnapshotRequired := None\<rparr>"

subsection \<open>Writing\<close>

definition signal_snapshot :: "Handler \<Rightarrow> Handler" where
  "signal_snapshot h =
     (if h_currentSize h \<ge> wrap64 (h_maxLogSizekB h * 1024)
      then h\<lparr>h_SnapshotRequired := map_option (\<lambda>_. True) (h_SnapshotRequired h)\<rparr>
      else h)"

definition Append :: "disk_env \<Rightarrow> Handler \<Rightarrow> LogEntry \<Rightarrow> store_error option \<times> Handler" where
  "Append env h entry =
     (if le_Index entry \<le> h_prevIndex h then (Some ErrAppendIndexBehind, h)
      else if le_Index entry > wrap64 (h_prevIndex h + 1) then (Some ErrAppendIndexAhead, h)
      else case h_activeFile h of
        None \<Rightarrow> (Some ErrWrite, h)
      | Some f \<Rightarrow>
          let data = encodeLogEntry entry in
          case de_write env 0 of
            Some n \<Rightarrow> (Some ErrWrite, h\<lparr>h_disk := append_file f (take n data) (h_disk h)\<rparr>)
          | None \<Rightarrow>
              let h1 = h\<lparr>h_disk := append_file f data (h_disk h)\<rparr> in
              if \<not> de_sync env then (Some ErrSync, h1)
              else (None, signal_snapshot (h1\<lparr>
                h_entries := h_entries h1 @ [entry],
                h_currentSize := wrap64 (h_currentSize h1 + int (length data)),
                h_prevIndex := le_Index entry,
                h_prevTerm := le_Term entry\<rparr>)))"

text \<open>
  Writing a list of entries to an open file, one write each, from the \<open>k\<close>-th write of the operation:
  the new disk, the bytes added to the size counter, and whether every write succeeded.
\<close>

fun write_entries :: "disk_env \<Rightarrow> nat \<Rightarrow> string \<Rightarrow> LogEntry list \<Rightarrow> disk \<Rightarrow> int \<Rightarrow> bool \<times> disk \<times> int" where
  "write_entries env k f [] d sz = (True, d, sz)"
| "write_entries env k f (e # es) d sz =
     (case de_write env k of
        Some n \<Rightarrow> (False, append_file f (take n (encodeLogEntry e)) d, sz)
      | None \<Rightarrow> write_entries env (Suc k) f es (append_file f (encodeLogEntry e) d)
          (wrap64 (sz + int (length (encodeLogEntry e)))))"

definition TruncateLog :: "disk_env \<Rightarrow> Handler \<Rightarrow> int \<Rightarrow> store_error option \<times> Handler" where
  "TruncateLog env h fromIndex =
     (case List.extract (\<lambda>entry. le_Index entry = fromIndex) (h_entries h) of
        None \<Rightarrow> (None, h)
      | Some (before, _, _) \<Rightarrow>
          let h1 = h\<lparr>h_entries := before\<rparr> in
          case h_activeFile h1 of
            None \<Rightarrow> (Some ErrTruncate, h1)
          | Some f \<Rightarrow>
              if \<not> de_truncate env then (Some ErrTruncate, h1)
              else
                let h2 = h1\<lparr>h_disk := AList.update f [] (h_disk h1)\<rparr> in
                if \<not> de_seek env then (Some ErrSeek, h2)
                else case write_entries env 0 f before (h_disk h2) 0 of (ok, d, sz) \<Rightarrow>
                  let h3 = h2\<lparr>h_disk := d, h_currentSize := sz\<rparr> in
                  if \<not> ok then (Some ErrWrite, h3)
                  else if \<not> de_sync env then (Some ErrSync, h3)
                  else if before \<noteq> []
                  then (None, h3\<lparr>h_prevIndex := le_Index (last before), h_prevTerm := le_Term (last before)\<rparr>)
                  else (None, h3))"

subsection \<open>Reading\<close>

definition Entries :: "Handler \<Rightarrow> int \<Rightarrow> int \<Rightarrow> LogEntry list" where
  "Entries h startRaftIndex endRaftIndex =
     (let startSlice = wrap64 (startRaftIndex - h_discIndex h - 1);
          endSlice = wrap64 (endRaftIndex - h_discIndex h - 1);
          startSlice = (if startSlice < 0 then 0 else startSlice);
          endSlice = (if endSlice < 0 then 0 else endSlice);
          endSlice = (if endSlice > int (length (h_entries h)) then int (length (h_entries h)) else endSlice)
      in if startSlice \<ge> endSlice then []
         else take (nat (endSlice - startSlice)) (drop (nat startSlice) (h_entries h)))"

fun query_loop :: "(bytes \<Rightarrow> genericPayload option) \<Rightarrow> string option \<Rightarrow> string option \<Rightarrow> LogEntry list \<Rightarrow>
    goset \<Rightarrow> LogEntry list" where
  "query_loop unmarshal schedulerID payloadID [] foundPayloads = []"
| "query_loop unmarshal schedulerID payloadID (entry # es) foundPayloads =
     (if schedulerID \<noteq> None \<and> schedulerID \<noteq> Some (le_SchedulerID entry)
      then query_loop unmarshal schedulerID payloadID es foundPayloads
      else case unmarshal (le_Payload entry) of
        None \<Rightarrow> query_loop unmarshal schedulerID payloadID es foundPayloads
      | Some peek \<Rightarrow>
          if payloadID \<noteq> None \<and> payloadID \<noteq> Some (gp_ID peek)
          then query_loop unmarshal schedulerID payloadID es foundPayloads
          else if gp_ID peek \<notin> set foundPayloads
          then entry #
            (if payloadID \<noteq> None then []
             else query_loop unmarshal schedulerID payloadID es (List.insert (gp_ID peek) foundPayloads))
          else query_loop unmarshal schedulerID payloadID es foundPayloads)"

definition QueryEntries :: "(bytes \<Rightarrow> genericPayload option) \<Rightarrow> Handler \<Rightarrow> string option \<Rightarrow> string option \<Rightarrow>
    LogEntry list" where
  "QueryEntries unmarshal h schedulerID payloadID =
     (if schedulerID = None \<and> payloadID = None then []
      else query_loop unmarshal schedulerID payloadID (rev (h_entries h)) [])"

subsection \<open>Snapshots\<close>

definition log_name :: "int \<Rightarrow> int \<Rightarrow> string" where
  "log_name term index = show_int term @ ''-'' @ show_int index @ ''.log''"

definition rotateFile :: "disk_env \<Rightarrow> Handler \<Rightarrow> string \<Rightarrow> int \<Rightarrow> int \<Rightarrow> int \<Rightarrow> nat \<Rightarrow> store_error option \<times> Handler" where
  "rotateFile env h newFile snapshotIndex lastTerm lastIndex k =
     (if h_activeFile h = None \<or> \<not> de_close env then (Some ErrClose, h)
      else
        let remainingEntries = filter (\<lambda>entry. le_Index entry > snapshotIndex) (h_entries h) in
        case write_entries env k newFile remainingEntries (h_disk h) 0 of (ok, d, sz) \<Rightarrow>
          let h1 = h\<lparr>h_activeFile := Some newFile, h_disk := d, h_currentSize := sz\<rparr> in
          if \<not> ok then (Some ErrWrite, h1)
          else
            let h2 = h1\<lparr>h_entries := remainingEntries\<rparr> in
            if sz > 0 \<and> \<not> de_sync env then (Some ErrSync, h2)
            else (None, h2\<lparr>h_discIndex := lastIndex, h_discTerm := lastTerm\<rparr>))"

record snapshot_plan =
  sn_compressedData :: "LogEntry list"
  sn_cutoffIndex :: int
  sn_lastTerm :: int
  sn_lastIndex :: int

text \<open>
  One round of StoreSnapshot's loop: receiving the signal and reading the log under the lock
  (\<open>Inr None\<close> when the log is empty and the round ends), then the file work and the rotation.
\<close>

definition snapshot_begin :: "(bytes \<Rightarrow> genericPayload option) \<Rightarrow> Handler \<Rightarrow>
    (store_error + snapshot_plan option) \<times> Handler" where
  "snapshot_begin unmarshal h =
     (let h1 = h\<lparr>h_SnapshotRequired := map_option (\<lambda>_. False) (h_SnapshotRequired h)\<rparr> in
      if h_snapshotFile h1 = None then (Inl ErrNoSnapshotFile, h1)
      else if h_entries h1 = [] then (Inr None, h1)
      else
        let lastEntry = last (h_entries h1) in
        (Inr (Some \<lparr>sn_compressedData = createSnapshot unmarshal (h_entries h1),
           sn_cutoffIndex = le_Index lastEntry, sn_lastTerm = le_Term lastEntry,
           sn_lastIndex = le_Index lastEntry\<rparr>), h1))"

definition snapshot_finish :: "disk_env \<Rightarrow> Handler \<Rightarrow> snapshot_plan \<Rightarrow> store_error option \<times> Handler" where
  "snapshot_finish env h plan =
     (if \<not> de_open env 0 then (Some ErrOpen, h\<lparr>h_snapshotFile := None\<rparr>)
      else
        let d0 = AList.update ''active.log'' [] (h_disk h) in
        case write_entries env 0 ''active.log'' (sn_compressedData plan) d0 0 of (ok, d, _) \<Rightarrow>
          let h1 = h\<lparr>h_snapshotFile := Some (''active.log'', ok), h_disk := d\<rparr> in
          if \<not> ok then (Some ErrWrite, h1)
          else if \<not> de_sync env then (Some ErrSync, h1)
          else if \<not> de_open env 1 then (Some ErrOpen, h1)
          else
            let newFile = log_name (sn_lastTerm plan) (sn_lastIndex plan);
                h2 = h1\<lparr>h_disk := append_file newFile [] (h_disk h1)\<rparr>
            in rotateFile env h2 newFile (sn_cutoffIndex plan) (sn_lastTerm plan) (sn_lastIndex plan)
                 (length (sn_compressedData plan)))"

definition StoreSnapshot :: "(bytes \<Rightarrow> genericPayload option) \<Rightarrow> disk_env \<Rightarrow> Handler \<Rightarrow> store_error option \<times> Handler" where
  "StoreSnapshot unmarshal env h =
     (case snapshot_begin unmarshal h of
        (Inl e, h1) \<Rightarrow> (Some e, h1)
      | (Inr None, h1) \<Rightarrow> (None, h1)
      | (Inr (Some plan), h1) \<Rightarrow> snapshot_finish env h1 plan)"

definition SnapshotReader :: "disk_env \<Rightarrow> Handler \<Rightarrow> store_error + bytes \<times> int" where
  "SnapshotReader env h =
     (case h_snapshotFile h of
        None \<Rightarrow> Inl ErrNoSnapshotFile
      | Some (f, isOpen) \<Rightarrow>
          if \<not> isOpen \<or> \<not> de_stat env then Inl ErrReadHeader
          else if \<not> de_open env 0 then Inl ErrOpen
          else Inr (content (h_disk h) f, int (length (content (h_disk h) f))))"

definition Handler_InstallSnapshot :: "disk_env \<Rightarrow> Handler \<Rightarrow> int \<Rightarrow> bytes \<Rightarrow> bool \<Rightarrow> int \<Rightarrow> int \<Rightarrow>
    store_error option \<times> Handler" where
  "Handler_InstallSnapshot env h offset data done lastIncludedIndex lastIncludedTerm =
     (let tempPath = ''snapshot.tmp''; snapPath = ''active.log'' in
      if \<not> de_open env 0 \<or> (offset \<noteq> 0 \<and> map_of (h_disk h) tempPath = None) then (Some ErrOpen, h)
      else
        let h1 = (if offset = 0 then h\<lparr>h_disk := AList.update tempPath [] (h_disk h)\<rparr> else h) in
        if offset < 0 then (Some ErrWrite, h1)
        else case de_write env 0 of
          Some n \<Rightarrow> (Some ErrWrite, h1\<lparr>h_disk :=
            AList.update tempPath (write_at (content (h_disk h1) tempPath) (nat offset) (take n data)) (h_disk h1)\<rparr>)
        | None \<Rightarrow>
            let h2 = h1\<lparr>h_disk :=
              AList.update tempPath (write_at (content (h_disk h1) tempPath) (nat offset) data) (h_disk h1)\<rparr> in
            if \<not> de_sync env then (Some ErrSync, h2)
            else if \<not> done then (None, h2)
            else
              let h3 = h2\<lparr>h_snapshotFile := None\<rparr> in
              if \<not> de_rename env then (Some ErrRename, h3)
              else
                let h4 = h3\<lparr>h_disk := AList.update snapPath (content (h_disk h3) tempPath)
                  (AList.delete tempPath (h_disk h3))\<rparr> in
                if \<not> de_open env 1 then (Some ErrOpen, h4)
                else
                  let h5 = h4\<lparr>h_snapshotFile := Some (snapPath, True)\<rparr>;
                      h6 = (case h_activeFile h5 of
                              None \<Rightarrow> h5
                            | Some f \<Rightarrow> if de_truncate env then h5\<lparr>h_disk := AList.update f [] (h_disk h5)\<rparr> else h5)
                  in (None, h6\<lparr>h_entries := [], h_currentSize := 0,
                        h_prevIndex := lastIncludedIndex, h_prevTerm := lastIncludedTerm,
                        h_discIndex := lastIncludedIndex, h_discTerm := lastIncludedTerm\<rparr>))"

subsection \<open>Loading\<close>

text \<open>
  \<^verbatim>\<open>fmt.Sscanf(name, "%d-%d.log", ...)\<close>: white space is skipped before a number, a number is an
  optional sign and at least one digit and must fit 64 bits, the literal parts must match, and what
  follows is ignored.
\<close>

definition scan_int :: "string \<Rightarrow> (int \<times> string) option" where
  "scan_int s =
     (let s = dropWhile (\<lambda>c. c \<in> set [CHR '' '', CHR 0x09, CHR 0x0B, CHR 0x0C, CHR 0x0D]) s;
          neg = (s \<noteq> [] \<and> hd s = CHR ''-'');
          s = (if s \<noteq> [] \<and> (hd s = CHR ''-'' \<or> hd s = CHR ''+'') then tl s else s);
          ds = takeWhile is_digit s;
          v = (if neg then - int (digits_val ds) else int (digits_val ds))
      in if ds = [] \<or> \<not> in_int64 v then None else Some (v, dropWhile is_digit s))"

definition scan_log_name :: "string \<Rightarrow> (int \<times> int) option" where
  "scan_log_name name =
     (case scan_int name of
        None \<Rightarrow> None
      | Some (term, rest) \<Rightarrow>
          if take 1 rest \<noteq> ''-'' then None
          else case scan_int (drop 1 rest) of
            None \<Rightarrow> None
          | Some (index, rest) \<Rightarrow> if take 4 rest = ''.log'' then Some (term, index) else None)"

fun latest_loop :: "string list \<Rightarrow> (string \<times> int \<times> int) option \<Rightarrow> (string \<times> int \<times> int) option" where
  "latest_loop [] best = best"
| "latest_loop (name # names) best =
     (case scan_log_name name of
        None \<Rightarrow> latest_loop names best
      | Some (term, index) \<Rightarrow>
          latest_loop names
            (case best of
               None \<Rightarrow> Some (name, term, index)
             | Some (_, latestTerm, latestIndex) \<Rightarrow>
                 if term > latestTerm \<or> (term = latestTerm \<and> index > latestIndex)
                 then Some (name, term, index) else best))"

text \<open>\<^verbatim>\<open>os.ReadDir\<close> lists the directory sorted by file name.\<close>

definition findLatestLog :: "disk \<Rightarrow> (string \<times> int \<times> int) option" where
  "findLatestLog d = latest_loop (sort (map fst d)) None"

definition LoadStorage :: "disk_env \<Rightarrow> disk \<Rightarrow> int \<Rightarrow> store_error + Handler" where
  "LoadStorage env d maxLogSizekB =
     (if \<not> de_mkdir env then Inl ErrMkdir
      else if \<not> de_open env 0 \<and> \<not> de_notexist env then Inl ErrOpen
      else
        let snapshotFile = (if de_open env 0 then Some (''active.log'', True) else None);
            d1 = (if de_open env 0 then append_file ''active.log'' [] d else d);
            snapshotEntries = (if snapshotFile = None \<or> \<not> de_seek env then []
                               else case readLogEntries (content d1 ''active.log'') of
                                 Inl _ \<Rightarrow> [] | Inr (entries, _) \<Rightarrow> entries);
            mk = (\<lambda>d file sz term index discTerm discIndex entries.
              \<lparr>h_disk = d, h_activeFile = Some file, h_snapshotFile = snapshotFile,
               h_currentSize = sz, h_maxLogSizekB = maxLogSizekB, h_prevIndex = index, h_prevTerm = term,
               h_discIndex = discIndex, h_discTerm = discTerm, h_entries = entries,
               h_SnapshotRequired = Some False\<rparr>)
        in if \<not> de_readdir env then Inl ErrReadDir
           else case findLatestLog d1 of
             Some (file, diskTerm, diskIndex) \<Rightarrow>
               if \<not> de_open env 1 then Inl ErrOpen
               else (case readLogEntries (content d1 file) of
                  Inl e \<Rightarrow> Inl e
                | Inr (entries, sz) \<Rightarrow>
                    if \<not> de_close env then Inl ErrClose
                    else if \<not> de_open env 2 then Inl ErrOpen
                    else if entries \<noteq> []
                    then Inr (mk d1 file sz (le_Term (last entries)) (le_Index (last entries)) diskTerm diskIndex entries)
                    else Inr (mk d1 file sz diskTerm diskIndex diskTerm diskIndex entries))
           | None \<Rightarrow>
               if \<not> de_open env 2 then Inl ErrOpen
               else if snapshotEntries \<noteq> []
               then
                 let lastSnap = last snapshotEntries; file = log_name (le_Term lastSnap) (le_Index lastSnap)
                 in Inr (mk (append_file file [] d1) file 0 (le_Term lastSnap) (le_Index lastSnap)
                      (le_Term lastSnap) (le_Index lastSnap) [])
               else Inr (mk (append_file ''0-0.log'' [] d1) ''0-0.log'' 0 0 0 0 0 []))"

subsection \<open>File names\<close>

lemma is_digit_not_blank [simp]:
  "is_digit c \<Longrightarrow> c \<noteq> CHR ''-''" "is_digit c \<Longrightarrow> c \<noteq> CHR ''+''" "is_digit c \<Longrightarrow> c \<noteq> CHR '' ''"
  "is_digit c \<Longrightarrow> c \<noteq> CHR 0x09" "is_digit c \<Longrightarrow> c \<noteq> CHR 0x0B" "is_digit c \<Longrightarrow> c \<noteq> CHR 0x0C" "is_digit c \<Longrightarrow> c \<noteq> CHR 0x0D"
  by (auto simp: is_digit_def)

lemma takeWhile_digits:
  "r = [] \<or> \<not> is_digit (hd r) \<Longrightarrow> takeWhile is_digit (show_nat n @ r) = show_nat n"
  "r = [] \<or> \<not> is_digit (hd r) \<Longrightarrow> dropWhile is_digit (show_nat n @ r) = r"
  by (cases r; auto simp: takeWhile_append dropWhile_append show_nat_digits)+

lemma show_nat_hd: "is_digit (hd (show_nat n))"
  by (rule show_nat_digits [of _ n]) (simp add: hd_in_set)

lemma scan_int_show_int:
  assumes v: "in_int64 v" and r: "r = [] \<or> \<not> is_digit (hd r)"
  shows "scan_int (show_int v @ r) = Some (v, r)"
proof -
  have nonblank: "dropWhile (\<lambda>c. c \<in> set [CHR '' '', CHR 0x09, CHR 0x0B, CHR 0x0C, CHR 0x0D]) (show_nat n @ s) = show_nat n @ s" for n s
    using show_nat_hd [of n] by (cases "show_nat n") auto
  show ?thesis
    using v show_nat_hd [of "nat v"]
    by (auto simp: scan_int_def show_int_def nonblank [simplified] takeWhile_digits [OF r] Let_def)
qed

lemma scan_log_name_log_name:
  "in_int64 t \<Longrightarrow> in_int64 i \<Longrightarrow> scan_log_name (log_name t i) = Some (t, i)"
  by (simp add: scan_log_name_def log_name_def scan_int_show_int is_digit_def)

lemma scan_active_log [simp]: "scan_log_name ''active.log'' = None"
  by (simp add: scan_log_name_def scan_int_def is_digit_def)

lemma latest_loop_unique:
  assumes "\<forall>n\<in>set names. \<forall>t i. scan_log_name n = Some (t, i) \<longrightarrow>
      (n, t, i) = (N, T, I) \<or> t < T \<or> t = T \<and> i < I"
    and "scan_log_name N = Some (T, I)"
    and "N \<in> set names \<or> best = Some (N, T, I)"
    and "case best of None \<Rightarrow> True | Some (m, t, i) \<Rightarrow> (m, t, i) = (N, T, I) \<or> t < T \<or> t = T \<and> i < I"
  shows "latest_loop names best = Some (N, T, I)"
  using assms
proof (induction names arbitrary: best)
  case (Cons n names)
  show ?case
  proof (cases "scan_log_name n")
    case None
    with Cons show ?thesis by auto
  next
    case (Some ti)
    obtain t i where ti: "ti = (t, i)" by (cases ti)
    define best' where "best' = (case best of None \<Rightarrow> Some (n, t, i)
      | Some (_, latestTerm, latestIndex) \<Rightarrow>
          if t > latestTerm \<or> t = latestTerm \<and> i > latestIndex then Some (n, t, i) else best)"
    have this_n: "(n, t, i) = (N, T, I) \<or> t < T \<or> t = T \<and> i < I"
      using Cons.prems(1) Some ti by simp
    have "latest_loop names best' = Some (N, T, I)"
    proof (rule Cons.IH)
      show "N \<in> set names \<or> best' = Some (N, T, I)"
        using Cons.prems(2-4) this_n Some ti by (auto simp: best'_def split: option.splits)
      show "case best' of None \<Rightarrow> True | Some (m, t, i) \<Rightarrow> (m, t, i) = (N, T, I) \<or> t < T \<or> t = T \<and> i < I"
        using Cons.prems(4) this_n by (auto simp: best'_def split: option.splits)
    qed (use Cons.prems in auto)
    then show ?thesis using Some ti by (simp add: best'_def)
  qed
qed simp


subsection \<open>Files and their contents\<close>

lemma content_update [simp]: "content (AList.update f bs d) g = (if g = f then bs else content d g)"
  by (simp add: content_def)

lemma content_append_file [simp]: "content (append_file f bs d) g = (if g = f then content d f @ bs else content d g)"
  by (simp add: append_file_def)

lemma content_delete [simp]: "g \<noteq> f \<Longrightarrow> content (AList.delete f d) g = content d g"
  by (simp add: content_def)

lemma append_file_keys [simp]: "fst ` set (append_file f bs d) = insert f (fst ` set d)"
  by (simp add: append_file_def)

lemma append_file_wf [simp]: "gm_wf d \<Longrightarrow> gm_wf (append_file f bs d)"
  by (simp add: append_file_def)

lemma disk_ok_simps [simp]:
  "de_open disk_ok k" "de_write disk_ok k = None" "de_sync disk_ok" "de_close disk_ok" "de_truncate disk_ok"
  "de_seek disk_ok" "de_rename disk_ok" "de_stat disk_ok" "de_mkdir disk_ok" "de_readdir disk_ok" "\<not> de_notexist disk_ok"
  by (simp_all add: disk_ok_def)

definition encoded :: "LogEntry list \<Rightarrow> bytes" where
  "encoded es = concat (map encodeLogEntry es)"

lemma encoded_simps [simp]:
  "encoded [] = []" "encoded (e # es) = encodeLogEntry e @ encoded es" "encoded (xs @ ys) = encoded xs @ encoded ys"
  by (simp_all add: encoded_def)

lemma length_encoded: "length (encoded es) = (\<Sum>e\<leftarrow>es. 4 + entry_size e)"
  by (induction es) (simp_all add: encoded_def)

lemma readLogEntries_encoded:
  "\<forall>e\<in>set es. encodable e \<Longrightarrow> in_int64 (int (length (encoded es))) \<Longrightarrow>
   readLogEntries (encoded es) = Inr (es, int (length (encoded es)))"
  using read_loop_entries [of es "[]" "[]" 0]
  by (cases "es = []") (simp_all add: readLogEntries_def encoded_def [symmetric] length_encoded read_loop.simps [of "[]"])

lemma write_entries_ok:
  "write_entries disk_ok k f es d sz =
     (True, (if es = [] then d else AList.update f (content d f @ encoded es) d),
      (if es = [] then sz else wrap64 (sz + int (length (encoded es)))))"
proof (induction es arbitrary: k d sz)
  case (Cons e es)
  have "AList.update f a (AList.update f b d) = AList.update f a d" for a b
    by simp
  with Cons show ?case
    by (simp add: append_file_def add.assoc)
qed simp


subsection \<open>The log in memory\<close>

text \<open>
  \<open>log_wf\<close>: the entries in memory have the indices from \<^verbatim>\<open>discIndex+1\<close> to \<^verbatim>\<open>prevIndex\<close> without a gap, and
  \<^verbatim>\<open>prevTerm\<close> is the term of the last one (of the snapshot when there is none).
\<close>

definition log_wf :: "Handler \<Rightarrow> bool" where
  "log_wf h \<longleftrightarrow> 0 \<le> h_discIndex h \<and> h_discIndex h \<le> h_prevIndex h \<and> in_int64 (h_prevIndex h) \<and>
     map le_Index (h_entries h) = [h_discIndex h + 1..h_prevIndex h] \<and>
     h_prevTerm h = last (h_discTerm h # map le_Term (h_entries h))"

lemma upto_prefix:
  "xs @ ys = [a..b] \<Longrightarrow> xs \<noteq> [] \<Longrightarrow>
     xs = [a..last xs] \<and> ys = [last xs + 1..b] \<and> a \<le> last xs \<and> last xs \<le> b"
proof (induction xs arbitrary: a)
  case (Cons x xs)
  have ab: "a \<le> b" using Cons.prems(1) by (metis append_Cons list.distinct(1) upto_empty not_le)
  then have x: "x = a" and rest: "xs @ ys = [a + 1..b]" using Cons.prems(1) by (simp_all add: upto_rec1)
  show ?case
  proof (cases "xs = []")
    case True
    then show ?thesis using x rest ab by simp
  next
    case False
    then show ?thesis using Cons.IH [OF rest False] x by (simp add: upto_rec1)
  qed
qed simp

lemma log_wf_index_range:
  "log_wf h \<Longrightarrow> e \<in> set (h_entries h) \<Longrightarrow> h_discIndex h < le_Index e \<and> le_Index e \<le> h_prevIndex h"
proof -
  assume wf: "log_wf h" and e: "e \<in> set (h_entries h)"
  have "le_Index e \<in> set (map le_Index (h_entries h))" using e by simp
  also have "\<dots> = set [h_discIndex h + 1..h_prevIndex h]" using wf by (simp only: log_wf_def)
  finally show ?thesis by simp
qed

lemma log_wf_last:
  assumes "log_wf h" and "h_entries h \<noteq> []"
  shows "h_discIndex h < h_prevIndex h \<and> le_Index (last (h_entries h)) = h_prevIndex h"
proof -
  have "map le_Index (h_entries h) @ [] = [h_discIndex h + 1..h_prevIndex h]"
    using assms(1) by (simp add: log_wf_def)
  from upto_prefix [OF this] assms(2) show ?thesis
    by (auto simp: last_map)
qed

lemma signal_snapshot_fields [simp]:
  "h_entries (signal_snapshot h) = h_entries h" "h_prevIndex (signal_snapshot h) = h_prevIndex h"
  "h_prevTerm (signal_snapshot h) = h_prevTerm h" "h_discIndex (signal_snapshot h) = h_discIndex h"
  "h_discTerm (signal_snapshot h) = h_discTerm h" "h_disk (signal_snapshot h) = h_disk h"
  "h_activeFile (signal_snapshot h) = h_activeFile h" "h_snapshotFile (signal_snapshot h) = h_snapshotFile h"
  "h_currentSize (signal_snapshot h) = h_currentSize h" "h_maxLogSizekB (signal_snapshot h) = h_maxLogSizekB h"
  by (simp_all add: signal_snapshot_def)

lemma Append_log_wf:
  assumes "log_wf h" and e: "in_int64 (le_Index e)"
  shows "log_wf (snd (Append env h e))"
proof (cases "fst (Append env h e) = None")
  case True
  have "in_int64 (h_prevIndex h)" using assms by (simp add: log_wf_def)
  with True e have idx: "le_Index e = h_prevIndex h + 1"
    by (cases "h_prevIndex h = 9223372036854775807")
      (auto simp: Append_def Let_def in_int64_def split: if_splits option.splits)
  have "[h_discIndex h + 1..h_prevIndex h] @ [h_prevIndex h + 1] = [h_discIndex h + 1..h_prevIndex h + 1]"
    using assms(1) by (simp add: log_wf_def upto_rec2)
  with True idx assms show ?thesis
    by (auto simp: Append_def log_wf_def Let_def split: if_splits option.splits)
next
  case False
  then show ?thesis using assms(1)
    by (auto simp: Append_def log_wf_def Let_def split: if_splits option.splits)
qed


lemma log_wf_split:
  assumes "log_wf h" and "h_entries h = pre @ post" and "pre \<noteq> []"
  defines "c \<equiv> le_Index (last pre)"
  shows "map le_Index pre = [h_discIndex h + 1..c]" "map le_Index post = [c + 1..h_prevIndex h]"
    "h_discIndex h < c" "c \<le> h_prevIndex h"
    "filter (\<lambda>e. le_Index e > c) (h_entries h) = post" "filter (\<lambda>e. le_Index e < c + 1) (h_entries h) = pre"
proof -
  have "map le_Index pre @ map le_Index post = [h_discIndex h + 1..h_prevIndex h]"
    using assms(1,2) by (simp add: log_wf_def)
  from upto_prefix [OF this] assms(3)
  show pre: "map le_Index pre = [h_discIndex h + 1..c]" and post: "map le_Index post = [c + 1..h_prevIndex h]"
    and "h_discIndex h < c" "c \<le> h_prevIndex h"
    by (simp_all add: c_def last_map)
  have "le_Index e \<le> c" if "e \<in> set pre" for e
  proof -
    have "le_Index e \<in> set (map le_Index pre)" using that by simp
    then show ?thesis unfolding pre by simp
  qed
  moreover have "le_Index e > c" if "e \<in> set post" for e
  proof -
    have "le_Index e \<in> set (map le_Index post)" using that by simp
    then show ?thesis unfolding post by simp
  qed
  ultimately show "filter (\<lambda>e. le_Index e > c) (h_entries h) = post" "filter (\<lambda>e. le_Index e < c + 1) (h_entries h) = pre"
    using assms(2) by (fastforce simp: filter_empty_conv filter_id_conv not_less)+
qed

lemma TruncateLog_cut:
  assumes wf: "log_wf h" and i: "h_discIndex h + 1 < i" "i \<le> h_prevIndex h"
  obtains pre e post where "h_entries h = pre @ e # post" "pre \<noteq> []" "le_Index e = i" "le_Index (last pre) = i - 1"
    "List.extract (\<lambda>entry. le_Index entry = i) (h_entries h) = Some (pre, e, post)"
proof -
  have "i \<in> set (map le_Index (h_entries h))" using wf i by (simp add: log_wf_def)
  then have "\<exists>x\<in>set (h_entries h). le_Index x = i" by auto
  then obtain pre e post where ex: "List.extract (\<lambda>entry. le_Index entry = i) (h_entries h) = Some (pre, e, post)"
    by (cases "List.extract (\<lambda>entry. le_Index entry = i) (h_entries h)") (auto simp: extract_None)
  then have es: "h_entries h = pre @ e # post" and e: "le_Index e = i"
    by (auto simp: extract_Some_iff)
  have eq: "map le_Index pre @ i # map le_Index post = [h_discIndex h + 1..h_prevIndex h]"
    using wf es e by (simp add: log_wf_def)
  have ne: "pre \<noteq> []"
    using eq i by (cases pre) (auto simp: upto_rec1)
  from upto_prefix [OF eq] ne have "i # map le_Index post = [le_Index (last pre) + 1..h_prevIndex h]"
    by (simp add: last_map)
  moreover have "le_Index (last pre) + 1 \<le> h_prevIndex h"
    using calculation by (metis list.distinct(1) not_le upto_empty)
  ultimately have "le_Index (last pre) = i - 1"
    by (simp add: upto_rec1)
  with es ne e ex that show ?thesis by blast
qed

subsection \<open>The log on disk\<close>

text \<open>
  \<open>durable\<close>: the active file is named after the snapshot it continues, it is the newest log of the
  directory, and its content is the encoding of the entries in memory.
\<close>

definition newest_log :: "disk \<Rightarrow> int \<Rightarrow> int \<Rightarrow> bool" where
  "newest_log d T I \<longleftrightarrow> log_name T I \<in> fst ` set d \<and>
     (\<forall>f\<in>fst ` set d. \<forall>t i. scan_log_name f = Some (t, i) \<longrightarrow>
        (f, t, i) = (log_name T I, T, I) \<or> t < T \<or> t = T \<and> i < I)"

definition durable :: "Handler \<Rightarrow> bool" where
  "durable h \<longleftrightarrow> log_wf h \<and> in_int64 (h_discTerm h) \<and>
     sorted (h_discTerm h # map le_Term (h_entries h)) \<and>
     (\<forall>e\<in>set (h_entries h). encodable e) \<and>
     h_activeFile h = Some (log_name (h_discTerm h) (h_discIndex h)) \<and>
     content (h_disk h) (log_name (h_discTerm h) (h_discIndex h)) = encoded (h_entries h) \<and>
     h_currentSize h = int (length (encoded (h_entries h))) \<and> in_int64 (h_currentSize h) \<and>
     gm_wf (h_disk h) \<and> newest_log (h_disk h) (h_discTerm h) (h_discIndex h) \<and>
     h_snapshotFile h = Some (''active.log'', True) \<and> ''active.log'' \<in> fst ` set (h_disk h)"

lemma durable_disc_int64: "durable h \<Longrightarrow> in_int64 (h_discIndex h)"
  by (auto simp: durable_def log_wf_def in_int64_def)

lemma findLatestLog_newest:
  assumes "newest_log d T I" "in_int64 T" "in_int64 I"
  shows "findLatestLog d = Some (log_name T I, T, I)"
  unfolding findLatestLog_def
  using assms by (intro latest_loop_unique) (auto simp: newest_log_def scan_log_name_log_name)

lemma append_nothing: "f \<in> fst ` set d \<Longrightarrow> append_file f [] d = d"
  by (auto simp: append_file_def content_def map_of_Some_keys [symmetric] intro!: AList.update_triv)

lemma LoadStorage_durable:
  assumes "durable h"
  shows "LoadStorage disk_ok (h_disk h) (h_maxLogSizekB h) = Inr (h\<lparr>h_SnapshotRequired := Some False\<rparr>)"
proof -
  let ?f = "log_name (h_discTerm h) (h_discIndex h)"
  have latest: "findLatestLog (h_disk h) = Some (?f, h_discTerm h, h_discIndex h)"
    using assms durable_disc_int64 [OF assms] by (intro findLatestLog_newest) (simp_all add: durable_def)
  have read: "readLogEntries (content (h_disk h) ?f) = Inr (h_entries h, h_currentSize h)"
    using assms readLogEntries_encoded [of "h_entries h"] unfolding durable_def by metis
  have tail: "h_entries h \<noteq> [] \<Longrightarrow> le_Index (last (h_entries h)) = h_prevIndex h \<and> le_Term (last (h_entries h)) = h_prevTerm h"
    "h_entries h = [] \<Longrightarrow> h_prevIndex h = h_discIndex h \<and> h_prevTerm h = h_discTerm h"
    using assms log_wf_last [of h] by (auto simp: durable_def log_wf_def last_map)
  have files: "h_activeFile h = Some ?f" "h_snapshotFile h = Some (''active.log'', True)"
    using assms by (simp_all add: durable_def)
  have active: "append_file ''active.log'' [] (h_disk h) = h_disk h"
    using assms by (simp add: durable_def append_nothing)
  show ?thesis
    using files tail
    by (cases "h_entries h = []") (simp_all add: LoadStorage_def Let_def active latest read)
qed


lemma Append_durable:
  assumes d: "durable h" and ok: "fst (Append disk_ok h e) = None"
    and e: "encodable e" "h_prevTerm h \<le> le_Term e"
    and sz: "in_int64 (h_currentSize h + int (length (encodeLogEntry e)))"
  shows "durable (snd (Append disk_ok h e))"
proof -
  let ?f = "log_name (h_discTerm h) (h_discIndex h)" and ?h = "snd (Append disk_ok h e)"
  have f: "h_activeFile h = Some ?f" and wf: "log_wf h"
    and sorted: "sorted (h_discTerm h # map le_Term (h_entries h))"
    using d by (simp_all add: durable_def)
  have h: "h_disk ?h = append_file ?f (encodeLogEntry e) (h_disk h)" "h_entries ?h = h_entries h @ [e]"
    "h_currentSize ?h = wrap64 (h_currentSize h + int (length (encodeLogEntry e)))"
    "h_discIndex ?h = h_discIndex h" "h_discTerm ?h = h_discTerm h"
    "h_activeFile ?h = Some ?f" "h_snapshotFile ?h = h_snapshotFile h"
    using ok f by (auto simp: Append_def Let_def split: if_splits)
  have wf': "log_wf ?h"
    using Append_log_wf [OF wf] e(1) by (simp add: encodable_def)
  have last_max: "x \<le> last (a # xs)" if "sorted (a # xs)" "x \<in> set (a # xs)" for x a :: int and xs
    using that by (induction xs arbitrary: a) auto
  have bound: "x \<le> le_Term e" if "x \<in> set (h_discTerm h # map le_Term (h_entries h))" for x
    using last_max [OF sorted that] wf e(2) by (simp add: log_wf_def)
  then have sorted': "sorted (h_discTerm h # map le_Term (h_entries h @ [e]))"
    using sorted by (auto simp: sorted_append)
  have known: "?f \<in> fst ` set (h_disk h)"
    using d by (simp add: durable_def newest_log_def)
  have keys: "fst ` set (append_file ?f (encodeLogEntry e) (h_disk h)) = fst ` set (h_disk h)"
    using known by (simp add: insert_absorb)
  have newest: "newest_log (append_file ?f (encodeLogEntry e) (h_disk h)) (h_discTerm h) (h_discIndex h)"
    using d unfolding durable_def newest_log_def keys by blast
  show ?thesis
    using d wf' sorted' sz e(1) newest unfolding durable_def h keys
    by (simp add: ball_Un)
qed

lemma TruncateLog_durable:
  assumes d: "durable h" and i: "h_discIndex h + 1 < i" "i \<le> h_prevIndex h"
  shows "fst (TruncateLog disk_ok h i) = None" "durable (snd (TruncateLog disk_ok h i))"
    "h_entries (snd (TruncateLog disk_ok h i)) = filter (\<lambda>e. le_Index e < i) (h_entries h)"
    "h_prevIndex (snd (TruncateLog disk_ok h i)) = i - 1"
    "h_discIndex (snd (TruncateLog disk_ok h i)) = h_discIndex h"
proof -
  let ?f = "log_name (h_discTerm h) (h_discIndex h)" and ?h = "snd (TruncateLog disk_ok h i)"
  have wf: "log_wf h" and f: "h_activeFile h = Some ?f" using d by (simp_all add: durable_def)
  from TruncateLog_cut [OF wf i] obtain pre e post where
    es: "h_entries h = pre @ e # post" and ne: "pre \<noteq> []" and c: "le_Index (last pre) = i - 1"
    and ex: "List.extract (\<lambda>entry. le_Index entry = i) (h_entries h) = Some (pre, e, post)" .
  show "fst (TruncateLog disk_ok h i) = None"
    using f by (simp add: TruncateLog_def ex write_entries_ok Let_def)
  have sz: "in_int64 (int (length (encoded pre)))"
    using d es by (auto simp: durable_def in_int64_def)
  have h: "h_disk ?h = AList.update ?f (encoded pre) (h_disk h)" "h_entries ?h = pre"
    "h_currentSize ?h = int (length (encoded pre))"
    "h_discIndex ?h = h_discIndex h" "h_discTerm ?h = h_discTerm h"
    "h_prevIndex ?h = i - 1" "h_prevTerm ?h = le_Term (last pre)"
    "h_activeFile ?h = Some ?f" "h_snapshotFile ?h = h_snapshotFile h"
    using f ne sz c by (simp_all add: TruncateLog_def ex write_entries_ok Let_def)
  note split = log_wf_split [OF wf es ne]
  have "log_wf ?h"
    using wf i c split ne unfolding log_wf_def h by (auto simp: in_int64_def last_map)
  moreover have keys: "fst ` set (AList.update ?f (encoded pre) (h_disk h)) = fst ` set (h_disk h)"
    using d by (auto simp: durable_def newest_log_def)
  moreover have "newest_log (AList.update ?f (encoded pre) (h_disk h)) (h_discTerm h) (h_discIndex h)"
    using d unfolding durable_def newest_log_def keys by blast
  moreover have "sorted (h_discTerm h # map le_Term pre)"
    using d es by (auto simp: durable_def sorted_append)
  ultimately show "durable ?h"
    using d sz es unfolding durable_def h keys by (simp add: ball_Un)
  have "filter (\<lambda>e. le_Index e < i) (h_entries h) = pre" using split(6) c by simp
  then show "h_entries ?h = filter (\<lambda>e. le_Index e < i) (h_entries h)" using h by simp
  show "h_prevIndex ?h = i - 1" "h_discIndex ?h = h_discIndex h" using h by simp_all
qed


lemma newest_log_extend:
  assumes "newest_log d T I" "T \<le> t" "I < i" "scan_log_name (log_name t i) = Some (t, i)"
  shows "newest_log (AList.update (log_name t i) bs (AList.update ''active.log'' bs' d)) t i"
  unfolding newest_log_def
proof (intro conjI ballI allI impI)
  fix f t' i'
  assume f: "f \<in> fst ` set (AList.update (log_name t i) bs (AList.update ''active.log'' bs' d))"
    and scan: "scan_log_name f = Some (t', i')"
  then consider "f = log_name t i" | "f \<in> fst ` set d" by auto
  then show "(f, t', i') = (log_name t i, t, i) \<or> t' < t \<or> t' = t \<and> i' < i"
  proof cases
    case 2
    then have "t' < T \<or> t' = T \<and> i' \<le> I"
      using assms(1) scan unfolding newest_log_def by fastforce
    then show ?thesis using assms(2,3) by auto
  qed (use scan assms(4) in simp)
qed simp

text \<open>A snapshot under way covers a non-empty prefix of the log.\<close>

definition plan_wf :: "Handler \<Rightarrow> snapshot_plan \<Rightarrow> bool" where
  "plan_wf h plan \<longleftrightarrow> (\<exists>pre post. h_entries h = pre @ post \<and> pre \<noteq> [] \<and>
     sn_cutoffIndex plan = le_Index (last pre) \<and> sn_lastIndex plan = le_Index (last pre) \<and>
     sn_lastTerm plan = le_Term (last pre))"

lemma snapshot_finish_durable:
  assumes d: "durable h" and p: "plan_wf h plan"
  shows "fst (snapshot_finish disk_ok h plan) = None"
    and "durable (snd (snapshot_finish disk_ok h plan))"
    and "h_entries (snd (snapshot_finish disk_ok h plan)) =
           filter (\<lambda>e. le_Index e > sn_cutoffIndex plan) (h_entries h)"
    and "h_prevIndex (snd (snapshot_finish disk_ok h plan)) = h_prevIndex h"
    and "content (h_disk (snd (snapshot_finish disk_ok h plan))) ''active.log'' = encoded (sn_compressedData plan)"
proof -
  from p obtain pre post where es: "h_entries h = pre @ post" and ne: "pre \<noteq> []"
    and plan: "sn_cutoffIndex plan = le_Index (last pre)" "sn_lastIndex plan = le_Index (last pre)"
      "sn_lastTerm plan = le_Term (last pre)"
    unfolding plan_wf_def by blast
  let ?c = "le_Index (last pre)" and ?t = "le_Term (last pre)"
  let ?f = "log_name (h_discTerm h) (h_discIndex h)" and ?g = "log_name ?t ?c"
  let ?h = "snd (snapshot_finish disk_ok h plan)"
  have wf: "log_wf h" and f: "h_activeFile h = Some ?f" using d by (simp_all add: durable_def)
  note split = log_wf_split [OF wf es ne]
  have enc: "\<forall>e\<in>set (h_entries h). encodable e" using d by (simp add: durable_def)
  then have c64: "in_int64 ?c" "in_int64 ?t" using es ne by (auto simp: encodable_def)
  have tmono: "h_discTerm h \<le> ?t" using d es ne by (simp add: durable_def)
  have scan_g: "scan_log_name ?g = Some (?t, ?c)" using c64 by (simp add: scan_log_name_log_name)
  then have g: "?g \<notin> fst ` set (h_disk h)" "?g \<noteq> ''active.log''"
    using d tmono split(3) by (auto simp: durable_def newest_log_def)
  then have g0: "content (h_disk h) ?g = []"
    by (metis (no_types, lifting) content_def map_of_None_keys option.simps(4))
  have rem: "filter (\<lambda>entry. le_Index entry > ?c) (h_entries h) = post" using split(5) .
  have sz: "in_int64 (int (length (encoded post)))" using d es by (auto simp: durable_def in_int64_def)
  define d1 where "d1 = AList.update ''active.log'' (encoded (sn_compressedData plan)) (h_disk h)"
  have h: "?h = h\<lparr>h_snapshotFile := Some (''active.log'', True), h_disk := AList.update ?g (encoded post) d1,
      h_activeFile := Some ?g, h_currentSize := int (length (encoded post)), h_entries := post,
      h_discIndex := ?c, h_discTerm := ?t\<rparr>" and ok: "fst (snapshot_finish disk_ok h plan) = None"
    using f g g0 sz
    by (auto simp: snapshot_finish_def rotateFile_def Let_def plan rem write_entries_ok d1_def append_file_def)
  show "fst (snapshot_finish disk_ok h plan) = None" by (rule ok)
  show "h_entries ?h = filter (\<lambda>e. le_Index e > sn_cutoffIndex plan) (h_entries h)"
    by (simp add: h plan rem)
  show "h_prevIndex ?h = h_prevIndex h" by (simp add: h)
  show "content (h_disk ?h) ''active.log'' = encoded (sn_compressedData plan)" using g by (simp add: h d1_def)
  have "log_wf ?h" using wf es split by (auto simp: log_wf_def h last_map)
  moreover have "newest_log (AList.update ?g (encoded post) d1) ?t ?c"
    using d tmono split(3) scan_g unfolding d1_def by (intro newest_log_extend) (simp_all add: durable_def)
  moreover have "sorted (?t # map le_Term post)" using d es ne
    by (auto simp: durable_def sorted_append)
  ultimately show "durable ?h" using d c64 sz es g by (simp add: durable_def h d1_def ball_Un)
qed


lemma durable_signal [simp]: "durable (h\<lparr>h_SnapshotRequired := x\<rparr>) = durable h"
  by (simp add: durable_def log_wf_def)

lemma snapshot_begin_durable:
  assumes "durable h"
  shows "durable (snd (snapshot_begin u h))"
    and "fst (snapshot_begin u h) = Inr (Some plan) \<Longrightarrow> plan_wf (snd (snapshot_begin u h)) plan"
proof -
  show "durable (snd (snapshot_begin u h))"
    using assms by (simp add: snapshot_begin_def Let_def)
  show "plan_wf (snd (snapshot_begin u h)) plan" if "fst (snapshot_begin u h) = Inr (Some plan)"
    using that unfolding plan_wf_def
    by (intro exI [of _ "h_entries h"] exI [of _ "[]"]) (auto simp: snapshot_begin_def Let_def split: if_splits)
qed

lemma Append_plan_wf: "plan_wf h plan \<Longrightarrow> plan_wf (snd (Append env h e)) plan"
  unfolding plan_wf_def
  by (auto simp: Append_def Let_def split: option.splits) (metis append.assoc)+

lemma TruncateLog_plan_wf:
  assumes "durable h" "plan_wf h plan" "sn_cutoffIndex plan < i" "i \<le> h_prevIndex h"
  shows "plan_wf (snd (TruncateLog disk_ok h i)) plan"
proof -
  from assms(2) obtain pre post where es: "h_entries h = pre @ post" and ne: "pre \<noteq> []"
    and plan: "sn_cutoffIndex plan = le_Index (last pre)" "sn_lastIndex plan = le_Index (last pre)"
      "sn_lastTerm plan = le_Term (last pre)"
    unfolding plan_wf_def by blast
  have wf: "log_wf h" using assms(1) by (simp add: durable_def)
  note split = log_wf_split [OF wf es ne]
  have "h_discIndex h + 1 < i" using split(3) plan(1) assms(3) by simp
  note cut = TruncateLog_durable [OF assms(1) this assms(4)]
  have "filter (\<lambda>e. le_Index e < i) pre = pre"
  proof -
    have "le_Index x < i" if "x \<in> set pre" for x
    proof -
      have "le_Index x \<in> set (map le_Index pre)" using that by auto
      then show ?thesis unfolding split(1) using assms(3) plan(1) by simp
    qed
    then show ?thesis by simp
  qed
  then show ?thesis unfolding plan_wf_def cut(3) es using ne plan by auto
qed

subsection \<open>Runs of the store\<close>

text \<open>
  The state of a run is the handler and the snapshot StoreSnapshot is writing. Appends and truncations
  come between the two halves of a snapshot; a restart forgets the handler and loads the directory.
  The steps are those of a replica that follows one leader: terms do not decrease, a truncation keeps
  the first entry after the snapshot and the snapshot under way.
\<close>

inductive store_step :: "(bytes \<Rightarrow> genericPayload option) \<Rightarrow> Handler \<times> snapshot_plan option \<Rightarrow>
    Handler \<times> snapshot_plan option \<Rightarrow> bool" for u where
  step_append: "Append disk_ok h e = (None, h') \<Longrightarrow> encodable e \<Longrightarrow> h_prevTerm h \<le> le_Term e \<Longrightarrow>
    in_int64 (h_currentSize h + int (length (encodeLogEntry e))) \<Longrightarrow> store_step u (h, p) (h', p)"
| step_truncate: "TruncateLog disk_ok h i = (None, h') \<Longrightarrow> h_discIndex h + 1 < i \<Longrightarrow> i \<le> h_prevIndex h \<Longrightarrow>
    (case p of None \<Rightarrow> True | Some plan \<Rightarrow> sn_cutoffIndex plan < i) \<Longrightarrow> store_step u (h, p) (h', p)"
| step_snapshot_begin: "snapshot_begin u h = (Inr p, h') \<Longrightarrow> store_step u (h, None) (h', p)"
| step_snapshot_finish: "snapshot_finish disk_ok h plan = (None, h') \<Longrightarrow> store_step u (h, Some plan) (h', None)"
| step_restart: "LoadStorage disk_ok (h_disk h) (h_maxLogSizekB h) = Inr h' \<Longrightarrow> store_step u (h, p) (h', None)"

definition store_inv :: "Handler \<times> snapshot_plan option \<Rightarrow> bool" where
  "store_inv s \<longleftrightarrow> durable (fst s) \<and> (case snd s of None \<Rightarrow> True | Some plan \<Rightarrow> plan_wf (fst s) plan)"

lemma store_step_inv: "store_step u s s' \<Longrightarrow> store_inv s \<Longrightarrow> store_inv s'"
proof (induction rule: store_step.induct)
  case (step_append h e h' p)
  then show ?case using Append_durable [of h e] Append_plan_wf [of h _ disk_ok e]
    by (auto simp: store_inv_def split: option.splits)
next
  case (step_truncate h i h' p)
  then show ?case using TruncateLog_durable(2) [of h i] TruncateLog_plan_wf [of h _ i]
    by (auto simp: store_inv_def split: option.splits)
next
  case (step_snapshot_begin h p h')
  then show ?case using snapshot_begin_durable [of h u]
    by (auto simp: store_inv_def split: option.splits)
next
  case (step_snapshot_finish h plan h')
  then show ?case using snapshot_finish_durable(2) [of h plan] by (simp add: store_inv_def)
next
  case (step_restart h h' p)
  then have "durable h" by (simp add: store_inv_def)
  with step_restart LoadStorage_durable [of h] show ?case by (auto simp: store_inv_def durable_def log_wf_def)
qed

definition fresh_store :: "int \<Rightarrow> Handler" where
  "fresh_store maxLogSizekB = \<lparr>h_disk = [(''active.log'', []), (''0-0.log'', [])], h_activeFile = Some ''0-0.log'',
     h_snapshotFile = Some (''active.log'', True), h_currentSize = 0, h_maxLogSizekB = maxLogSizekB,
     h_prevIndex = 0, h_prevTerm = 0, h_discIndex = 0, h_discTerm = 0, h_entries = [], h_SnapshotRequired = Some False\<rparr>"

lemma LoadStorage_fresh: "LoadStorage disk_ok [] m = Inr (fresh_store m)"
  by (simp add: LoadStorage_def Let_def fresh_store_def append_file_def content_def findLatestLog_def
      readLogEntries_def read_loop.simps)

lemma log_name_0: "log_name 0 0 = ''0-0.log''"
  by code_simp

lemma fresh_durable: "durable (fresh_store m)"
  using scan_log_name_log_name [of 0 0]
  by (auto simp: durable_def fresh_store_def log_wf_def newest_log_def log_name_0 in_int64_def content_def)

lemma store_reachable_inv: "(store_step u)\<^sup>*\<^sup>* (fresh_store m, None) s \<Longrightarrow> store_inv s"
proof (induction rule: rtranclp_induct)
  case base
  show ?case by (simp add: store_inv_def fresh_durable)
next
  case (step y z)
  then show ?case by (blast intro: store_step_inv)
qed

subsection \<open>Properties\<close>

definition demo_log_entry :: "int \<Rightarrow> LogEntry" where
  "demo_log_entry i = \<lparr>le_Index = i, le_Term = 1, le_SchedulerID = ''sched'', le_Payload = [1, 2]\<rparr>"

definition demo_store :: Handler where
  "demo_store = snd (Append disk_ok (fresh_store 64) (demo_log_entry 1))"

lemma demo_step: "store_step u (fresh_store 64, p) (demo_store, p)"
proof (rule store_step.step_append [where e = "demo_log_entry 1"])
  show "Append disk_ok (fresh_store 64) (demo_log_entry 1) = (None, demo_store)"
    by (simp add: demo_store_def Append_def fresh_store_def demo_log_entry_def Let_def wrap64_small)
qed (simp_all add: encodable_def demo_log_entry_def fresh_store_def in_int64_def entry_size_def)

lemma demo_reachable: "(store_step u)\<^sup>*\<^sup>* (fresh_store 64, None) (demo_store, None)"
  using demo_step by blast

lemma demo_durable: "durable demo_store"
  using store_reachable_inv [OF demo_reachable] by (simp add: store_inv_def)

lemma demo_store_fields [simp]:
  "h_prevIndex demo_store = 1" "h_discIndex demo_store = 0" "h_discTerm demo_store = 0"
  "h_entries demo_store = [demo_log_entry 1]" "h_maxLogSizekB demo_store = 64" "h_prevTerm demo_store = 1"
  by (simp_all add: demo_store_def Append_def fresh_store_def demo_log_entry_def Let_def wrap64_small)

lemma demo_log_wf: "log_wf demo_store"
  using demo_durable by (simp add: durable_def)





text \<open>
  Append: Whatever the system calls do, Append accepts exactly the next index: it reports
  \<^verbatim>\<open>ErrAppendIndexBehind\<close> and \<^verbatim>\<open>ErrAppendIndexAhead\<close> on the two sides of it; on success the entry is the
  last one in memory and its index and term are the log's; on any error the entries, index and term
  in memory are those before; in both cases the entries keep their indices without a gap.
\<close>

lemma Append_spec:
  assumes "log_wf h" and "in_int64 (le_Index e)"
  shows "case Append env h e of
      (None, h') \<Rightarrow> le_Index e = h_prevIndex h + 1 \<and> h_entries h' = h_entries h @ [e] \<and>
        h_prevIndex h' = le_Index e \<and> h_prevTerm h' = le_Term e \<and> log_wf h'
    | (Some err, h') \<Rightarrow> h_entries h' = h_entries h \<and> h_prevIndex h' = h_prevIndex h \<and> h_prevTerm h' = h_prevTerm h \<and>
        (err = ErrAppendIndexBehind \<longleftrightarrow> le_Index e \<le> h_prevIndex h) \<and>
        (err = ErrAppendIndexAhead \<longleftrightarrow> h_prevIndex h + 1 < le_Index e) \<and> log_wf h'"
proof -
  have "in_int64 (h_prevIndex h)" using assms by (simp add: log_wf_def)
  then have w: "le_Index e > h_prevIndex h \<Longrightarrow> wrap64 (h_prevIndex h + 1) = h_prevIndex h + 1"
    using assms(2) by (intro wrap64_id) (auto simp: in_int64_def)
  have "log_wf (snd (Append env h e))" by (rule Append_log_wf [OF assms])
  with w show ?thesis
    by (auto simp: Append_def Let_def split: option.splits if_splits)
qed

lemma Append_spec_example:
  "case Append disk_ok demo_store (demo_log_entry 2) of
      (None, h') \<Rightarrow> h_entries h' = [demo_log_entry 1, demo_log_entry 2] | (Some err, h') \<Rightarrow> False"
proof -
  have "fst (Append disk_ok demo_store (demo_log_entry 2)) = None"
    using demo_durable by (simp add: Append_def durable_def demo_log_entry_def Let_def wrap64_small)
  then show ?thesis
    using Append_spec [OF demo_log_wf, of "demo_log_entry 2" disk_ok]
    by (auto simp: demo_log_entry_def in_int64_def split: prod.splits option.splits)
qed

lemma take_drop_filter_upto:
  assumes "map le_Index es = [d + 1..p]" "d \<le> p" "0 \<le> s" "s < t" "t \<le> int (length es)"
  shows "take (nat (t - s)) (drop (nat s) es) = filter (\<lambda>e. d + 1 + s \<le> le_Index e \<and> le_Index e < d + 1 + t) es"
proof -
  define A B C where "A = take (nat s) es" and "B = take (nat (t - s)) (drop (nat s) es)"
    and "C = drop (nat (t - s)) (drop (nat s) es)"
  have es: "es = A @ B @ C" by (simp add: A_def B_def C_def del: drop_drop)
  have len: "length es = nat (p - d)" using arg_cong [OF assms(1), of length] by simp
  have idx: "le_Index (es ! k) = d + 1 + int k" if "k < length es" for k
  proof -
    have "map le_Index es ! k = d + 1 + int k" using that assms(1,2) len by (simp add: nth_upto)
    then show ?thesis using that by simp
  qed
  have A: "le_Index e < d + 1 + s" if "e \<in> set A" for e
    using that assms idx by (auto simp: A_def in_set_conv_nth)
  have B: "d + 1 + s \<le> le_Index e \<and> le_Index e < d + 1 + t" if "e \<in> set B" for e
    using that assms idx by (auto simp: B_def in_set_conv_nth)
  have C: "d + 1 + t \<le> le_Index e" if "e \<in> set C" for e
    using that assms by (auto simp: C_def in_set_conv_nth idx)
  have "filter (\<lambda>e. d + 1 + s \<le> le_Index e \<and> le_Index e < d + 1 + t) es = B"
    using A B C unfolding es by (auto simp: filter_empty_conv not_le not_less intro!: filter_True)
  then show ?thesis by (simp add: B_def)
qed


text \<open>
  For a well-formed log and indices that are not negative, Entries returns exactly
  the entries with \<^verbatim>\<open>startRaftIndex \<le> Index < endRaftIndex\<close>, in order: the clamping of the slice
  bounds neither loses nor adds one, also when the range begins before the snapshot or ends after the log.
\<close>

lemma Entries_filter:
  assumes wf: "log_wf h" and a: "0 \<le> a" "in_int64 a" and b: "0 \<le> b" "in_int64 b"
  shows "Entries h a b = filter (\<lambda>e. a \<le> le_Index e \<and> le_Index e < b) (h_entries h)"
proof -
  let ?d = "h_discIndex h" and ?es = "h_entries h" and ?n = "int (length (h_entries h))"
  have d: "0 \<le> ?d" "?d \<le> h_prevIndex h" "in_int64 (h_prevIndex h)" and idx: "map le_Index ?es = [?d + 1..h_prevIndex h]"
    using wf by (simp_all add: log_wf_def)
  have w: "wrap64 (a - ?d - 1) = a - ?d - 1" "wrap64 (b - ?d - 1) = b - ?d - 1"
    using a b d by (auto intro!: wrap64_id simp: in_int64_def)
  have n: "?n = h_prevIndex h - ?d" using arg_cong [OF idx, of length] d by simp
  have range: "?d < le_Index e \<and> le_Index e \<le> h_prevIndex h" if "e \<in> set ?es" for e
    using log_wf_index_range [OF wf that] .
  define s where "s = max 0 (a - ?d - 1)"
  define t where "t = min (max 0 (b - ?d - 1)) ?n"
  have E: "Entries h a b = (if s \<ge> t then [] else take (nat (t - s)) (drop (nat s) ?es))"
    by (simp add: Entries_def Let_def w s_def t_def max_def min_def)
  have same: "(a \<le> le_Index e \<and> le_Index e < b) = (?d + 1 + s \<le> le_Index e \<and> le_Index e < ?d + 1 + t)" if "e \<in> set ?es" for e
    using range [OF that] by (auto simp: s_def t_def n max_def min_def)
  have "Entries h a b = filter (\<lambda>e. ?d + 1 + s \<le> le_Index e \<and> le_Index e < ?d + 1 + t) ?es"
  proof (cases "s \<ge> t")
    case True
    then show ?thesis by (auto simp: E filter_empty_conv)
  next
    case False
    moreover have "0 \<le> s" "t \<le> ?n" by (simp_all add: s_def t_def)
    ultimately show ?thesis using take_drop_filter_upto [OF idx d(2), of s t] by (simp add: E)
  qed
  then show ?thesis using same by (metis (mono_tags, lifting) filter_cong)
qed

definition query_match :: "(bytes \<Rightarrow> genericPayload option) \<Rightarrow> string option \<Rightarrow> string option \<Rightarrow> LogEntry \<Rightarrow> string \<Rightarrow> bool" where
  "query_match u sid pid e key \<longleftrightarrow> (sid = None \<or> sid = Some (le_SchedulerID e)) \<and>
     map_option gp_ID (u (le_Payload e)) = Some key \<and> (pid = None \<or> pid = Some key)"

lemma query_loop_skip:
  "\<not> (\<exists>key. query_match u sid pid x key \<and> key \<notin> set seen) \<Longrightarrow>
   query_loop u sid pid (x # xs) seen = query_loop u sid pid xs seen"
  by (auto simp: query_match_def split: option.splits)

lemma query_loop_take:
  "query_match u sid pid x key \<Longrightarrow> key \<notin> set seen \<Longrightarrow>
   query_loop u sid pid (x # xs) seen = x # (if pid \<noteq> None then [] else query_loop u sid pid xs (List.insert key seen))"
  by (cases "u (le_Payload x)"; cases pid; cases sid) (simp_all add: query_match_def)

lemma query_match_key: "query_match u sid pid x key \<Longrightarrow> query_match u sid pid x k \<Longrightarrow> k = key"
  by (auto simp: query_match_def)

lemma query_match_pid: "query_match u sid pid x key \<Longrightarrow> query_match u sid pid y k \<Longrightarrow> pid \<noteq> None \<Longrightarrow> k = key"
  by (auto simp: query_match_def)

lemma find_match: "List.find P xs = Some e \<Longrightarrow> P e"
  by (induction xs) (auto split: if_splits)

lemma query_loop_mem:
  "e \<in> set (query_loop u sid pid es seen) \<longleftrightarrow>
     (\<exists>key. key \<notin> set seen \<and> List.find (\<lambda>x. query_match u sid pid x key) es = Some e)"
proof (induction es arbitrary: seen)
  case (Cons x xs)
  show ?case
  proof (cases "\<exists>key. query_match u sid pid x key \<and> key \<notin> set seen")
    case False
    then have "k \<notin> set seen \<Longrightarrow> \<not> query_match u sid pid x k" for k by blast
    then show ?thesis unfolding query_loop_skip [OF False] Cons.IH by (intro ex_cong1 conj_cong refl) simp
  next
    case True
    then obtain key where key: "query_match u sid pid x key" "key \<notin> set seen" by blast
    have same: "query_match u sid pid x k \<longleftrightarrow> k = key" for k
      using key(1) query_match_key by blast
    have "(\<exists>k. k \<notin> set seen \<and> List.find (\<lambda>x. query_match u sid pid x k) (x # xs) = Some e) \<longleftrightarrow>
        e = x \<or> (\<exists>k. k \<noteq> key \<and> k \<notin> set seen \<and> List.find (\<lambda>x. query_match u sid pid x k) xs = Some e)"
      using key(2) by (auto simp: same)
    also have "\<dots> \<longleftrightarrow> e = x \<or> pid = None \<and> (\<exists>k. k \<notin> set (List.insert key seen) \<and> List.find (\<lambda>x. query_match u sid pid x k) xs = Some e)"
    proof (cases "pid = None")
      case False
      then have "List.find (\<lambda>x. query_match u sid pid x k) xs \<noteq> Some e" if "k \<noteq> key" for k
        using that query_match_pid [OF key(1), of e k] find_match [of "\<lambda>x. query_match u sid pid x k" xs e] by blast
      with False show ?thesis by blast
    qed simp
    also have "\<dots> \<longleftrightarrow> e \<in> set (query_loop u sid pid (x # xs) seen)"
      unfolding query_loop_take [OF key] using Cons.IH [of "List.insert key seen"] by (cases pid) simp_all
    finally show ?thesis by (rule sym)
  qed
qed simp

lemma query_loop_distinct:
  "distinct (map (\<lambda>e. map_option gp_ID (u (le_Payload e))) (query_loop u sid pid es seen))"
proof (induction es arbitrary: seen)
  case (Cons x xs)
  show ?case
  proof (cases "\<exists>key. query_match u sid pid x key \<and> key \<notin> set seen")
    case False
    show ?thesis unfolding query_loop_skip [OF False] by (rule Cons.IH)
  next
    case True
    then obtain key where key: "query_match u sid pid x key" "key \<notin> set seen" by blast
    have "map_option gp_ID (u (le_Payload y)) \<noteq> map_option gp_ID (u (le_Payload x))"
      if "y \<in> set (query_loop u sid pid xs (List.insert key seen))" for y
    proof -
      from that obtain k where "k \<noteq> key" "query_match u sid pid y k"
        unfolding query_loop_mem using find_match by fastforce
      with key(1) show ?thesis by (auto simp: query_match_def)
    qed
    then have "map_option gp_ID (u (le_Payload x)) \<notin>
        (\<lambda>e. map_option gp_ID (u (le_Payload e))) ` set (query_loop u sid pid xs (List.insert key seen))"
      by (metis (no_types, lifting) imageE)
    then show ?thesis unfolding query_loop_take [OF key] using Cons.IH by (cases pid) simp_all
  qed
qed simp

text \<open>
  QueryEntries: When a filter is given, an entry is in the result exactly if it is the most
  recent one, among the entries that pass the filters, with its payload identifier; no identifier
  appears twice. Entries whose payload does not parse are never returned.
\<close>

lemma QueryEntries_most_recent:
  assumes "schedulerID \<noteq> None \<or> payloadID \<noteq> None"
  shows "(e \<in> set (QueryEntries u h schedulerID payloadID) \<longleftrightarrow>
      (\<exists>key. List.find (\<lambda>x. query_match u schedulerID payloadID x key) (rev (h_entries h)) = Some e)) \<and>
    distinct (map (\<lambda>e. map_option gp_ID (u (le_Payload e))) (QueryEntries u h schedulerID payloadID))"
  using assms query_loop_distinct by (auto simp: QueryEntries_def query_loop_mem)

lemma QueryEntries_most_recent_example:
  "demo_log_entry 1 \<in> set (QueryEntries (\<lambda>_. Some \<lparr>gp_ID = ''j'', gp_State = None, gp_Entry = None\<rparr>) demo_store (Some ''sched'') None)"
  by (subst QueryEntries_most_recent [THEN conjunct1]) (auto simp: query_match_def demo_log_entry_def)

text \<open>
  TruncateLog: Cutting a durable log after its first entry succeeds and keeps exactly the
  entries below the index, in memory and on disk; the log then ends at the index before it, so
  Append accepts that index next.
\<close>

lemma TruncateLog_spec:
  assumes "durable h" and "h_discIndex h + 1 < i" and "i \<le> h_prevIndex h"
  shows "fst (TruncateLog disk_ok h i) = None \<and> durable (snd (TruncateLog disk_ok h i)) \<and>
    h_entries (snd (TruncateLog disk_ok h i)) = filter (\<lambda>e. le_Index e < i) (h_entries h) \<and>
    h_prevIndex (snd (TruncateLog disk_ok h i)) = i - 1"
  using TruncateLog_durable [OF assms] by simp

definition demo_store2 :: Handler where
  "demo_store2 = snd (Append disk_ok demo_store (demo_log_entry 2))"

lemma demo_store2_fields [simp]:
  "h_entries demo_store2 = [demo_log_entry 1, demo_log_entry 2]" "h_discIndex demo_store2 = 0" "h_prevIndex demo_store2 = 2"
  "h_activeFile demo_store2 = h_activeFile demo_store"
  using demo_durable
  by (simp_all add: demo_store2_def Append_def durable_def demo_log_entry_def Let_def wrap64_small)

lemma demo_store2_durable: "durable demo_store2"
  unfolding demo_store2_def
proof (rule Append_durable [OF demo_durable])
  show "fst (Append disk_ok demo_store (demo_log_entry 2)) = None"
    using demo_durable by (simp add: Append_def durable_def demo_log_entry_def Let_def wrap64_small)
  show "in_int64 (h_currentSize demo_store + int (length (encodeLogEntry (demo_log_entry 2))))"
    using demo_durable by (simp add: durable_def demo_log_entry_def entry_size_def in_int64_def)
qed (simp_all add: encodable_def demo_log_entry_def in_int64_def entry_size_def)

lemma TruncateLog_spec_example:
  "h_entries (snd (TruncateLog disk_ok demo_store2 2)) = [demo_log_entry 1]"
  using TruncateLog_spec [OF demo_store2_durable, of 2] by (simp add: demo_log_entry_def)

text \<open>
  When TruncateLog cuts at the first entry after the snapshot it reports success and
  empties the log but leaves \<^verbatim>\<open>prevIndex\<close> where it was, so the entry that replaces the first one is
  refused as behind: the log is empty and cannot take the leader's entry.
\<close>

lemma truncate_first_entry_stuck:
  assumes wf: "log_wf h" and ne: "h_entries h \<noteq> []" and f: "h_activeFile h \<noteq> None" and e: "le_Index e = h_discIndex h + 1"
  shows "case TruncateLog disk_ok h (h_discIndex h + 1) of (err, h') \<Rightarrow>
    err = None \<and> h_entries h' = [] \<and> h_prevIndex h' = h_prevIndex h \<and>
    fst (Append disk_ok h' e) = Some ErrAppendIndexBehind"
proof -
  have lt: "h_discIndex h < h_prevIndex h" using log_wf_last [OF wf ne] by simp
  obtain x xs where es: "h_entries h = x # xs" using ne by (cases "h_entries h") auto
  have "le_Index x = h_discIndex h + 1" using wf lt es by (simp add: log_wf_def upto_rec1)
  then have "List.extract (\<lambda>entry. le_Index entry = h_discIndex h + 1) (h_entries h) = Some ([], x, xs)"
    by (simp add: es extract_Cons_code)
  with f lt e show ?thesis by (auto simp: TruncateLog_def Let_def Append_def)
qed

text \<open>
  C30 (StoreSnapshot). A snapshot of a durable log that is not empty succeeds: \<^verbatim>\<open>active.log\<close> then holds
  the compacted log and nothing of its former content, the log in memory is empty, and it continues
  at the same index in a file that carries the name of the snapshot. Entries that were only in the
  previous snapshot are gone (finding: the previous snapshot is not merged).
\<close>

theorem StoreSnapshot_spec:
  assumes d: "durable h" and ne: "h_entries h \<noteq> []"
  shows "case StoreSnapshot u disk_ok h of (err, h') \<Rightarrow>
    err = None \<and> durable h' \<and> h_entries h' = [] \<and> h_prevIndex h' = h_prevIndex h \<and> h_discIndex h' = h_prevIndex h \<and>
    content (h_disk h') ''active.log'' = encoded (createSnapshot u (h_entries h))"
proof -
  obtain plan h1 where b: "snapshot_begin u h = (Inr (Some plan), h1)" and h1: "h_entries h1 = h_entries h" "h_prevIndex h1 = h_prevIndex h"
    and plan: "sn_compressedData plan = createSnapshot u (h_entries h)" "sn_cutoffIndex plan = le_Index (last (h_entries h))"
    using d ne by (auto simp: snapshot_begin_def Let_def durable_def)
  have d1: "durable h1" and p: "plan_wf h1 plan" using snapshot_begin_durable [OF d, of u] b by auto
  note fin = snapshot_finish_durable [OF d1 p]
  have "le_Index (last (h_entries h)) = h_prevIndex h" using log_wf_last d ne by (simp add: durable_def)
  then have empty: "h_entries (snd (snapshot_finish disk_ok h1 plan)) = []"
    using log_wf_index_range [of h] d unfolding fin(3) h1 plan by (auto simp: filter_empty_conv durable_def not_less)
  then have "h_discIndex (snd (snapshot_finish disk_ok h1 plan)) = h_prevIndex h"
    using fin(2,4) h1 by (simp add: durable_def log_wf_def)
  with fin empty h1 plan show ?thesis by (simp add: StoreSnapshot_def b case_prod_beta)
qed

theorem StoreSnapshot_spec_witness:
  "h_entries (snd (StoreSnapshot (\<lambda>_. None) disk_ok demo_store)) = []"
  using StoreSnapshot_spec [OF demo_durable, of "\<lambda>_. None"] by (simp split: prod.splits)

text \<open>
  C37 (finding). InstallSnapshot leaves the active file under its old name, and LoadStorage takes the
  snapshot index from that name: after a restart a replica that had installed a snapshot is back at
  the index its own last snapshot had.
\<close>

theorem installed_snapshot_forgotten:
  assumes d: "durable h"
  shows "case Handler_InstallSnapshot disk_ok h 0 data True li lt of (err, h') \<Rightarrow>
    err = None \<and> h_prevIndex h' = li \<and>
    (case LoadStorage disk_ok (h_disk h') m of Inl _ \<Rightarrow> False
     | Inr h'' \<Rightarrow> h_prevIndex h'' = h_discIndex h \<and> h_entries h'' = [])"
proof -
  let ?f = "log_name (h_discTerm h) (h_discIndex h)"
  define d3 where "d3 = AList.update ?f [] (AList.update ''active.log'' data
    (AList.delete ''snapshot.tmp'' (AList.update ''snapshot.tmp'' data (AList.update ''snapshot.tmp'' [] (h_disk h)))))"
  have inst: "Handler_InstallSnapshot disk_ok h 0 data True li lt = (None, h\<lparr>h_disk := d3, h_snapshotFile := Some (''active.log'', True),
      h_entries := [], h_currentSize := 0, h_prevIndex := li, h_prevTerm := lt, h_discIndex := li, h_discTerm := lt\<rparr>)"
    using d by (simp add: Handler_InstallSnapshot_def Let_def durable_def d3_def write_at_def)
  have tmp: "scan_log_name ''snapshot.tmp'' = None" by (simp add: scan_log_name_def scan_int_def is_digit_def)
  have f: "?f \<noteq> ''snapshot.tmp''"
    using d durable_disc_int64 [OF d] tmp scan_log_name_log_name [of "h_discTerm h" "h_discIndex h"] by (auto simp: durable_def)
  have keys: "fst ` set d3 = insert ?f (insert ''active.log'' (fst ` set (h_disk h) - {''snapshot.tmp''}))"
    by (auto simp: d3_def)
  have "newest_log d3 (h_discTerm h) (h_discIndex h)"
    using d f unfolding durable_def newest_log_def keys by auto
  then have latest: "findLatestLog d3 = Some (?f, h_discTerm h, h_discIndex h)"
    using d durable_disc_int64 [OF d] by (intro findLatestLog_newest) (simp_all add: durable_def)
  have act: "append_file ''active.log'' [] d3 = d3" by (rule append_nothing) (simp add: keys)
  have "content d3 ?f = []" by (simp add: d3_def)
  then show ?thesis
    by (simp add: inst LoadStorage_def Let_def act latest readLogEntries_def read_loop.simps)
qed

theorem installed_snapshot_forgotten_witness:
  "case Handler_InstallSnapshot disk_ok demo_store 0 [] True 9 2 of (err, h') \<Rightarrow> h_prevIndex h' = 9 \<and>
    (case LoadStorage disk_ok (h_disk h') 64 of Inl _ \<Rightarrow> False | Inr h'' \<Rightarrow> h_prevIndex h'' = 0)"
  using installed_snapshot_forgotten [OF demo_durable, where li = 9 and data = "[]" and lt = 2 and m = 64]
  by (auto simp: in_int64_def split: prod.splits sum.splits)

lemma TruncateLog_memory:
  assumes wf: "log_wf h" and t: "TruncateLog env h i = (None, h')" and i: "h_discIndex h < i" "i \<le> h_prevIndex h"
  shows "h_discIndex h' = h_discIndex h" "h_discTerm h' = h_discTerm h"
    "h_discIndex h + 1 < i \<Longrightarrow> h_entries h' = filter (\<lambda>e. le_Index e < i) (h_entries h) \<and> h_prevIndex h' = i - 1 \<and> log_wf h'"
    "i = h_discIndex h + 1 \<Longrightarrow> h_prevIndex h' = h_prevIndex h"
proof -
  show disc: "h_discIndex h' = h_discIndex h" "h_discTerm h' = h_discTerm h"
    using t by (auto simp: TruncateLog_def Let_def split: option.splits if_splits prod.splits)
  show "h_entries h' = filter (\<lambda>e. le_Index e < i) (h_entries h) \<and> h_prevIndex h' = i - 1 \<and> log_wf h'"
    if i': "h_discIndex h + 1 < i"
  proof -
    from TruncateLog_cut [OF wf i' i(2)] obtain pre e post where
      es: "h_entries h = pre @ e # post" and ne: "pre \<noteq> []" and c: "le_Index (last pre) = i - 1"
      and ex: "List.extract (\<lambda>entry. le_Index entry = i) (h_entries h) = Some (pre, e, post)" .
    note split = log_wf_split [OF wf es ne]
    have h': "h_entries h' = pre" "h_prevIndex h' = i - 1" "h_prevTerm h' = le_Term (last pre)"
      using t c ne by (auto simp: TruncateLog_def ex Let_def split: option.splits if_splits prod.splits)
    have "log_wf h'"
      using wf i' i c split ne disc unfolding log_wf_def h' by (auto simp: in_int64_def last_map)
    with h' show ?thesis using split(6) c by simp
  qed
  show "h_prevIndex h' = h_prevIndex h" if "i = h_discIndex h + 1"
  proof -
    have idx: "map le_Index (h_entries h) = i # [i + 1..h_prevIndex h]" using wf i that by (simp add: log_wf_def upto_rec1)
    then obtain x xs where es: "h_entries h = x # xs" and x: "le_Index x = i" by (cases "h_entries h") auto
    then have "List.extract (\<lambda>entry. le_Index entry = i) (h_entries h) = Some ([], x, xs)" by (simp add: extract_Cons_code)
    then show ?thesis using t by (auto simp: TruncateLog_def Let_def split: option.splits if_splits prod.splits)
  qed
qed

lemma Append_fields:
  "h_discIndex (snd (Append env h e)) = h_discIndex h" "h_discTerm (snd (Append env h e)) = h_discTerm h"
  "fst (Append env h e) = Some err \<Longrightarrow> h_entries (snd (Append env h e)) = h_entries h \<and>
     h_prevIndex (snd (Append env h e)) = h_prevIndex h \<and> h_prevTerm (snd (Append env h e)) = h_prevTerm h"
  by (auto simp: Append_def Let_def split: option.splits if_splits)

lemma Append_None:
  assumes "log_wf h" "in_int64 (le_Index e)" "Append env h e = (None, h')"
  shows "le_Index e = h_prevIndex h + 1" "h_entries h' = h_entries h @ [e]" "h_prevIndex h' = le_Index e"
    "h_prevTerm h' = le_Term e" "log_wf h'"
proof -
  have p: "in_int64 (h_prevIndex h)" using assms by (simp add: log_wf_def)
  show "le_Index e = h_prevIndex h + 1" using assms(2,3) p
    by (cases "h_prevIndex h = 9223372036854775807")
      (auto simp: Append_def Let_def in_int64_def split: if_splits option.splits)
  show "h_entries h' = h_entries h @ [e]" "h_prevIndex h' = le_Index e" "h_prevTerm h' = le_Term e"
    using assms(3) by (auto simp: Append_def Let_def split: if_splits option.splits)
  show "log_wf h'" using Append_log_wf [OF assms(1,2), of env] assms(3) by simp
qed

lemma log_wf_cong:
  "log_wf h \<Longrightarrow> h_entries h' = h_entries h \<Longrightarrow> h_prevIndex h' = h_prevIndex h \<Longrightarrow> h_prevTerm h' = h_prevTerm h \<Longrightarrow>
   h_discIndex h' = h_discIndex h \<Longrightarrow> h_discTerm h' = h_discTerm h \<Longrightarrow> log_wf h'"
  by (simp add: log_wf_def)


subsection \<open>The interface of the log store\<close>

text \<open>
  What a Raft node relies on: the log holds the entries above the index \<open>base\<close> (the snapshot) up to \<open>latest\<close>; an
  append is accepted only at the next index and changes nothing when it fails; a truncation above the first entry
  drops exactly the entries from its index on. At the first entry the code keeps \<open>latest\<close>, and the contract says no more.
\<close>

locale log_store =
  fixes inv :: "'h \<Rightarrow> bool"
    and entries :: "'h \<Rightarrow> LogEntry list"
    and base latest :: "'h \<Rightarrow> int"
    and latestTerm :: "'h \<Rightarrow> int"
    and append :: "'e \<Rightarrow> 'h \<Rightarrow> LogEntry \<Rightarrow> 'x option \<times> 'h"
    and truncate :: "'e \<Rightarrow> 'h \<Rightarrow> int \<Rightarrow> 'x option \<times> 'h"
  assumes entry_range: "inv h \<Longrightarrow> e \<in> set (entries h) \<Longrightarrow> base h < le_Index e \<and> le_Index e \<le> latest h"
    and append_ok: "inv h \<Longrightarrow> in_int64 (le_Index e) \<Longrightarrow> append env h e = (None, h') \<Longrightarrow>
      inv h' \<and> le_Index e = latest h + 1 \<and> entries h' = entries h @ [e] \<and> base h' = base h \<and> latest h' = le_Index e \<and> latestTerm h' = le_Term e"
    and append_err: "inv h \<Longrightarrow> append env h e = (Some x, h') \<Longrightarrow>
      inv h' \<and> entries h' = entries h \<and> base h' = base h \<and> latest h' = latest h"
    and append_behind: "le_Index e \<le> latest h \<Longrightarrow> append env h e \<noteq> (None, h')"
    and truncate_ok: "inv h \<Longrightarrow> truncate env h i = (None, h') \<Longrightarrow> base h + 1 < i \<Longrightarrow> i \<le> latest h \<Longrightarrow>
      inv h' \<and> entries h' = filter (\<lambda>e. le_Index e < i) (entries h) \<and> base h' = base h \<and> latest h' = i - 1"
    and truncate_first: "inv h \<Longrightarrow> base h < latest h \<Longrightarrow> truncate env h (base h + 1) = (None, h') \<Longrightarrow> latest h' = latest h"
begin

text \<open>An accepted entry follows everything that is stored.\<close>

lemma append_last:
  assumes "inv h" "in_int64 (le_Index e)" "append env h e = (None, h')"
  shows "entries h' = filter (\<lambda>x. le_Index x < le_Index e) (entries h) @ [e]"
proof -
  have "filter (\<lambda>x. le_Index x < le_Index e) (entries h) = entries h"
    using entry_range [OF assms(1)] append_ok [OF assms] by (fastforce simp: filter_id_conv)
  then show ?thesis using append_ok [OF assms] by simp
qed

text \<open>
  The conflict path of a follower: the append fails, the log is truncated at the entry's index, and the second append
  succeeds. The entry replaces everything from its index on; at the first entry the second append cannot succeed.
\<close>

lemma truncate_append:
  assumes inv: "inv h" and e: "in_int64 (le_Index e)" and i: "base h < le_Index e" "le_Index e \<le> latest h"
    and t: "truncate env h (le_Index e) = (None, h1)" and a: "append env' h1 e = (None, h2)"
  shows "inv h2 \<and> entries h2 = filter (\<lambda>x. le_Index x < le_Index e) (entries h) @ [e] \<and> base h2 = base h \<and>
    latest h2 = le_Index e \<and> latestTerm h2 = le_Term e"
proof (cases "le_Index e = base h + 1")
  case True
  then have "latest h1 = latest h" using truncate_first [OF inv, of env h1] i t by simp
  then show ?thesis using append_behind [of e h1 env' h2] i a by simp
next
  case False
  then have "inv h1" "entries h1 = filter (\<lambda>x. le_Index x < le_Index e) (entries h)" "base h1 = base h"
    using truncate_ok [OF inv t] i by simp_all
  then show ?thesis using append_ok [OF _ e a] by simp
qed

lemma append_twice:
  assumes "inv h" "in_int64 (le_Index e)" "append env h e = (None, h1)"
  shows "append env' h1 e \<noteq> (None, h2)"
  using append_behind [of e h1 env' h2] append_ok [OF assms] by simp

end

interpretation ls: log_store log_wf h_entries h_discIndex h_prevIndex h_prevTerm Append TruncateLog
proof (unfold_locales, goal_cases)
  case (1 h e)
  then show ?case using log_wf_index_range by blast
next
  case (2 h e env h')
  then show ?case using Append_None [OF 2] Append_fields(1) [of env h e] by simp
next
  case (3 h env e x h')
  then show ?case using Append_fields(1,2) [of env h e] Append_fields(3) [of env h e x] log_wf_cong [OF 3(1), of h'] by simp
next
  case (4 e h env h')
  then show ?case by (auto simp: Append_def)
next
  case (5 h env i h')
  then show ?case using TruncateLog_memory [OF 5(1,2)] by simp
next
  case (6 h env h')
  then show ?case using TruncateLog_memory(4) [OF 6(1,3)] by simp
qed

end
