(* ===== verification/RaftState.thy ===== *)
theory RaftState
  imports Prelude
begin

section \<open>The state of a Raft node (internal/consensus/state, internal/consensus/core)\<close>

text \<open>
  The \<^verbatim>\<open>State\<close> of state.go, one definition per method; each holds the mutex, so each is one step.
  \<^verbatim>\<open>time.Now()\<close> is the argument \<open>now\<close> (nanoseconds) and \<^verbatim>\<open>rand.Intn(150)\<close> the argument \<open>r\<close>; the gRPC
  connection and client are an opaque handle.
\<close>

datatype Role = Follower | Candidate | Leader

fun Role_String :: "Role \<Rightarrow> string" where
  "Role_String Follower = ''Follower''"
| "Role_String Candidate = ''Candidate''"
| "Role_String Leader = ''Leader''"

record State =
  st_id :: string
  st_address :: string
  st_leaderID :: string
  st_role :: Role
  st_connected :: bool
  st_LastContact :: time
  st_ElectionTimeout :: time
  st_conn :: "nat option"
  st_currentTerm :: int
  st_votedFor :: string

definition resetElectionTimer :: "time \<Rightarrow> nat \<Rightarrow> State \<Rightarrow> State" where
  "resetElectionTimer now r s = s\<lparr>st_LastContact := now, st_ElectionTimeout := 1000000 * (int r + 150)\<rparr>"

definition RecordContact :: "time \<Rightarrow> State \<Rightarrow> State" where
  "RecordContact now s = s\<lparr>st_LastContact := now\<rparr>"

definition BecomeFollower :: "time \<Rightarrow> nat \<Rightarrow> State \<Rightarrow> State" where
  "BecomeFollower now r s = resetElectionTimer now r (s\<lparr>st_role := Follower, st_leaderID := ''''\<rparr>)"

definition BecomeCandidate :: "time \<Rightarrow> nat \<Rightarrow> State \<Rightarrow> State" where
  "BecomeCandidate now r s = resetElectionTimer now r (s\<lparr>st_role := Candidate, st_leaderID := ''''\<rparr>)"

definition BecomeLeader :: "State \<Rightarrow> State" where
  "BecomeLeader s = s\<lparr>st_role := Leader, st_ElectionTimeout := 0\<rparr>"

definition UpdateLeader :: "string \<Rightarrow> State \<Rightarrow> State" where
  "UpdateLeader leaderID s = s\<lparr>st_leaderID := leaderID\<rparr>"

definition IsElectionTimeout :: "time \<Rightarrow> State \<Rightarrow> bool" where
  "IsElectionTimeout now s \<longleftrightarrow> st_role s \<noteq> Leader \<and> now - st_LastContact s > st_ElectionTimeout s"

definition TimeSinceLastContact :: "time \<Rightarrow> State \<Rightarrow> time" where
  "TimeSinceLastContact now s = now - st_LastContact s"

definition Connected :: "State \<Rightarrow> State" where
  "Connected s = s\<lparr>st_connected := True\<rparr>"

definition Disconnected :: "State \<Rightarrow> State" where
  "Disconnected s = s\<lparr>st_connected := False\<rparr>"

definition UpdateConnection :: "nat \<Rightarrow> State \<Rightarrow> State" where
  "UpdateConnection conn s = s\<lparr>st_conn := Some conn\<rparr>"

definition SetCurrentTerm :: "int \<Rightarrow> State \<Rightarrow> State" where
  "SetCurrentTerm term s = s\<lparr>st_currentTerm := term\<rparr>"

definition SetVotedFor :: "string \<Rightarrow> State \<Rightarrow> State" where
  "SetVotedFor candidateID s = s\<lparr>st_votedFor := candidateID\<rparr>"

definition New :: "time \<Rightarrow> nat \<Rightarrow> nat \<Rightarrow> string \<Rightarrow> string \<Rightarrow> State" where
  "New now r r' nodeID address =
     (let s = \<lparr>st_id = nodeID, st_address = address, st_leaderID = '''', st_role = Follower, st_connected = False,
               st_LastContact = 0, st_ElectionTimeout = 0, st_conn = None, st_currentTerm = 0, st_votedFor = ''''\<rparr>;
          s = resetElectionTimer now r s;
          s = RecordContact now s;
          s = BecomeFollower now r' s
      in Disconnected s)"

lemmas state_ops = resetElectionTimer_def RecordContact_def BecomeFollower_def BecomeCandidate_def
  BecomeLeader_def UpdateLeader_def Connected_def Disconnected_def UpdateConnection_def SetCurrentTerm_def
  SetVotedFor_def

declare state_ops [op_defs]

text \<open>What the transitions keep: only SetCurrentTerm and SetVotedFor write the persistent part.\<close>

lemma state_kept [simp]:
  "st_currentTerm (BecomeFollower now r s) = st_currentTerm s" "st_votedFor (BecomeFollower now r s) = st_votedFor s"
  "st_currentTerm (BecomeCandidate now r s) = st_currentTerm s" "st_votedFor (BecomeCandidate now r s) = st_votedFor s"
  "st_currentTerm (BecomeLeader s) = st_currentTerm s" "st_votedFor (BecomeLeader s) = st_votedFor s"
  "st_currentTerm (UpdateLeader l s) = st_currentTerm s" "st_votedFor (UpdateLeader l s) = st_votedFor s"
  "st_currentTerm (RecordContact now s) = st_currentTerm s" "st_votedFor (RecordContact now s) = st_votedFor s"
  "st_currentTerm (SetCurrentTerm t s) = t" "st_votedFor (SetCurrentTerm t s) = st_votedFor s"
  "st_currentTerm (SetVotedFor c s) = st_currentTerm s" "st_votedFor (SetVotedFor c s) = c"
  by (simp_all add: state_ops)

lemma state_id_kept [simp]:
  "st_id (BecomeFollower now r s) = st_id s" "st_id (BecomeCandidate now r s) = st_id s"
  "st_id (BecomeLeader s) = st_id s" "st_id (UpdateLeader l s) = st_id s" "st_id (RecordContact now s) = st_id s"
  "st_id (SetCurrentTerm t s) = st_id s" "st_id (SetVotedFor c s) = st_id s"
  by (simp_all add: state_ops)

lemma state_role [simp]:
  "st_role (BecomeFollower now r s) = Follower" "st_role (BecomeCandidate now r s) = Candidate"
  "st_role (BecomeLeader s) = Leader" "st_role (UpdateLeader l s) = st_role s"
  "st_role (RecordContact now s) = st_role s" "st_role (SetCurrentTerm t s) = st_role s"
  "st_role (SetVotedFor c s) = st_role s"
  by (simp_all add: state_ops)

lemma state_leader [simp]:
  "st_leaderID (BecomeFollower now r s) = ''''" "st_leaderID (BecomeCandidate now r s) = ''''"
  "st_leaderID (BecomeLeader s) = st_leaderID s" "st_leaderID (UpdateLeader l s) = l"
  "st_leaderID (RecordContact now s) = st_leaderID s" "st_leaderID (SetCurrentTerm t s) = st_leaderID s"
  "st_leaderID (SetVotedFor c s) = st_leaderID s"
  by (simp_all add: state_ops)

text \<open>A follower that was just reset does not time out within its randomised interval of 150 to 299 ms.\<close>

lemma election_timer:
  assumes "r < 150" "0 \<le> d"
  shows "IsElectionTimeout (now + d) (BecomeFollower now r s) \<longleftrightarrow> d > 1000000 * (int r + 150)"
    and "d \<le> 150000000 \<Longrightarrow> \<not> IsElectionTimeout (now + d) (BecomeFollower now r s)"
    and "d \<ge> 300000000 \<Longrightarrow> IsElectionTimeout (now + d) (BecomeFollower now r s)"
  using assms by (auto simp: IsElectionTimeout_def state_ops)

end
