(* ===== verification/RaftNode.thy ===== *)
theory RaftNode
  imports RaftState LogStore
begin

section \<open>The Raft node (internal/consensus/service)\<close>

text \<open>
  The \<^verbatim>\<open>Node\<close> of node.go with the request registry (registry.go), the peer connections
  (connections.go, node.go), the vote and election code (election.go), the follower's AppendEntries
  (append.go) and the service handlers (serve.go). A handler that holds \<^verbatim>\<open>n.mutex\<close> for its whole body is one
  state transformer; StartElection, which releases the mutex between its phases, is one definition
  per phase. RPCs are values: a request a node sends is a result, a response it receives an argument.
  The record \<open>tick\<close> carries the clock and the random number of one call.
\<close>

record tick =
  tk_now :: time
  tk_rand :: nat

datatype AppendResponseStatus =
    APPEND_RESPONSE_SUCCESS
  | APPEND_RESPONSE_BAD_PAYLOAD
  | APPEND_RESPONSE_BAD_ORIGIN_ID
  | APPEND_RESPONSE_NEEDS_SNAPSHOT
  | APPEND_RESPONSE_FAILED_CONSENSUS
  | APPEND_RESPONSE_CONCURRENT_CLAIM

record VoteRequest =
  vr_OriginNodeId :: string
  vr_Gossip :: bool
  vr_Term :: int
  vr_LogTerm :: int
  vr_LogIndex :: int

record VoteResponse =
  vp_ResponseNodeId :: string
  vp_Vote :: bool

record AppendRequest =
  aq_OriginNodeId :: string
  aq_RequestId :: string
  aq_Term :: int
  aq_Index :: int
  aq_PrevLogTerm :: int
  aq_PrevLogIndex :: int
  aq_SchedulerId :: string
  aq_Payload :: bytes

record AppendResponse =
  ar_RequestId :: string
  ar_Status :: AppendResponseStatus
  ar_PrevLogTerm :: int
  ar_PrevLogIndex :: int
  ar_LeaderAddress :: string

record RawAppendRequest =
  rq_OriginNodeId :: string
  rq_RequestId :: string
  rq_SchedulerId :: string
  rq_Payload :: bytes

record InstallSnapshotRequest =
  iq_LeaderId :: string
  iq_Term :: int
  iq_LastIncludedIndex :: int
  iq_LastIncludedTerm :: int
  iq_Offset :: int
  iq_Data :: bytes
  iq_Done :: bool

subsection \<open>The request registry\<close>

text \<open>
  A channel is an address; its buffer holds at most one value. \<open>Resolve\<close> on a full channel would block
  holding the lock (\<open>None\<close>); the registry never sends twice on a channel.
\<close>

record requestRegistry =
  rr_channels :: "(string, nat) gomap"
  rr_bufs :: "nat \<Rightarrow> bool list"
  rr_next :: nat

definition newRequestRegistry :: requestRegistry where
  "newRequestRegistry = \<lparr>rr_channels = [], rr_bufs = (\<lambda>_. []), rr_next = 0\<rparr>"

definition Register :: "requestRegistry \<Rightarrow> string \<Rightarrow> nat \<times> requestRegistry" where
  "Register r requestID =
     (let ch = rr_next r in
      (ch, r\<lparr>rr_channels := AList.update requestID ch (rr_channels r),
            rr_bufs := (rr_bufs r)(ch := []), rr_next := Suc ch\<rparr>))"

definition Resolve :: "requestRegistry \<Rightarrow> string \<Rightarrow> bool \<Rightarrow> requestRegistry option" where
  "Resolve r requestID result =
     (case map_of (rr_channels r) requestID of
        None \<Rightarrow> Some r
      | Some ch \<Rightarrow>
          if length (rr_bufs r ch) \<ge> 1 then None
          else Some (r\<lparr>rr_bufs := (rr_bufs r)(ch := rr_bufs r ch @ [result]),
                       rr_channels := AList.delete requestID (rr_channels r)\<rparr>))"

definition Deregister :: "requestRegistry \<Rightarrow> string \<Rightarrow> requestRegistry" where
  "Deregister r requestID = r\<lparr>rr_channels := AList.delete requestID (rr_channels r)\<rparr>"

subsection \<open>The node and its peers\<close>

record Node =
  n_state :: State
  n_peerNodes :: "(string, State) gomap option"
  n_FileHandler :: Handler
  n_appendChan :: "RawAppendRequest list option"
  n_reqRegistry :: requestRegistry
  n_commitIndex :: int

definition peer_map :: "Node \<Rightarrow> (string, State) gomap" where
  "peer_map n = (case n_peerNodes n of None \<Rightarrow> [] | Some m \<Rightarrow> m)"

definition NewNode :: "tick \<Rightarrow> nat \<Rightarrow> string \<Rightarrow> string \<Rightarrow> Handler \<Rightarrow> Node" where
  "NewNode tk r selfID selfAddress filehandler =
     \<lparr>n_state = New (tk_now tk) (tk_rand tk) r selfID selfAddress, n_peerNodes = Some [],
      n_FileHandler = filehandler, n_appendChan = Some [], n_reqRegistry = newRequestRegistry,
      n_commitIndex = h_discIndex filehandler\<rparr>"

definition Peers :: "Node \<Rightarrow> State list" where
  "Peers n = map snd (peer_map n)"

definition NumberConnected :: "Node \<Rightarrow> nat" where
  "NumberConnected n = length (filter st_connected (Peers n))"

text \<open>
  One round of ConnectToPeers; \<open>conn\<close> is the result of \<^verbatim>\<open>grpc.NewClient\<close> (\<open>None\<close> on an error).
\<close>

definition connect_peer :: "nat option \<Rightarrow> Node \<Rightarrow> State \<Rightarrow> Node" where
  "connect_peer conn n peer =
     (if st_id peer = st_id (n_state n) then n
      else if map_of (peer_map n) (st_id peer) \<noteq> None then n
      else case conn of
        None \<Rightarrow> n
      | Some c \<Rightarrow>
          let peer = UpdateConnection c (Disconnected peer) in
          case n_peerNodes n of
            None \<Rightarrow> n
          | Some m \<Rightarrow> n\<lparr>n_peerNodes := Some (AList.update (st_id peer) peer m)\<rparr>)"

fun ConnectToPeers :: "(State \<Rightarrow> nat option) \<Rightarrow> Node \<Rightarrow> State list \<Rightarrow> Node" where
  "ConnectToPeers dial n [] = n"
| "ConnectToPeers dial n (peer # peers) = ConnectToPeers dial (connect_peer (dial peer) n peer) peers"

datatype connectivity = Idle | Connecting | Ready | TransientFailure | Shutdown

text \<open>One state change seen by monitorPeerConnection: the peer's flag, and whether it dials again.\<close>

definition monitor_step :: "connectivity \<Rightarrow> State \<Rightarrow> State \<times> bool" where
  "monitor_step newState peer =
     (if newState = Ready then (if \<not> st_connected peer then Connected peer else peer, False)
      else if newState = Idle \<or> newState = TransientFailure
      then (if st_connected peer then Disconnected peer else peer, True)
      else (peer, False))"

definition monitorPeerConnection :: "connectivity \<Rightarrow> string \<Rightarrow> Node \<Rightarrow> Node" where
  "monitorPeerConnection newState peerID n =
     n\<lparr>n_peerNodes := map_option (map (\<lambda>(k, p). if k = peerID then (k, fst (monitor_step newState p)) else (k, p)))
        (n_peerNodes n)\<rparr>"

definition Node_RecordContact :: "tick \<Rightarrow> Node \<Rightarrow> Node" where
  "Node_RecordContact tk n = n\<lparr>n_state := RecordContact (tk_now tk) (n_state n)\<rparr>"

definition Node_IsElectionTimeout :: "tick \<Rightarrow> Node \<Rightarrow> bool" where
  "Node_IsElectionTimeout tk n = IsElectionTimeout (tk_now tk) (n_state n)"

text \<open>Close returns the connections it closes.\<close>

definition Node_Close :: "Node \<Rightarrow> nat list \<times> Node" where
  "Node_Close n =
     (List.map_filter st_conn (Peers n), n\<lparr>n_peerNodes := None, n_appendChan := None\<rparr>)"

definition leader_address :: "Node \<Rightarrow> string" where
  "leader_address n =
     (let leaderID = st_leaderID (n_state n) in
      if leaderID = '''' then ''''
      else if leaderID = st_id (n_state n) then st_address (n_state n)
      else case map_of (peer_map n) leaderID of None \<Rightarrow> '''' | Some peer \<Rightarrow> st_address peer)"

subsection \<open>Elections\<close>

definition log_up_to_date :: "VoteRequest \<Rightarrow> Handler \<Rightarrow> bool" where
  "log_up_to_date req h \<longleftrightarrow> vr_LogTerm req > h_prevTerm h \<or>
     (vr_LogTerm req = h_prevTerm h \<and> vr_LogIndex req \<ge> h_prevIndex h)"

definition RequestVote :: "tick \<Rightarrow> Node \<Rightarrow> VoteRequest \<Rightarrow> VoteResponse \<times> Node" where
  "RequestVote tk n req =
     (let s = n_state n;
          s = (if vr_Term req > st_currentTerm s \<and> \<not> vr_Gossip req
               then SetCurrentTerm (vr_Term req) (BecomeFollower (tk_now tk) (tk_rand tk) (SetVotedFor '''' s))
               else s);
          n = n\<lparr>n_state := s\<rparr>;
          answer = (\<lambda>v. \<lparr>vp_ResponseNodeId = st_id s, vp_Vote = v\<rparr>)
      in if vr_Term req < st_currentTerm s then (answer False, n)
         else if \<not> vr_Gossip req \<and> (st_role s = Leader \<or> st_role s = Candidate) \<and> vr_Term req = st_currentTerm s
         then (answer False, n)
         else if vr_Gossip req \<and> st_leaderID s \<noteq> '''' \<and> \<not> IsElectionTimeout (tk_now tk) s then (answer False, n)
         else if vr_Gossip req then (answer (log_up_to_date req (n_FileHandler n)), n)
         else if (st_votedFor s = '''' \<or> st_votedFor s = vr_OriginNodeId req) \<and> log_up_to_date req (n_FileHandler n)
         then (answer True, n\<lparr>n_state := RecordContact (tk_now tk) (UpdateLeader '''' (SetVotedFor (vr_OriginNodeId req) s))\<rparr>)
         else (answer False, n))"

definition vote_request :: "Node \<Rightarrow> int \<Rightarrow> bool \<Rightarrow> VoteRequest" where
  "vote_request n term gossip =
     \<lparr>vr_OriginNodeId = st_id (n_state n), vr_Gossip = gossip, vr_Term = term,
      vr_LogTerm = h_prevTerm (n_FileHandler n), vr_LogIndex = h_prevIndex (n_FileHandler n)\<rparr>"

text \<open>
  StartElection, phase one: a node that is not the leader forgets its leader and builds the
  pre-vote request. \<open>None\<close> when it returns.
\<close>

definition election_begin :: "tick \<Rightarrow> Node \<Rightarrow> VoteRequest option \<times> Node" where
  "election_begin tk n =
     (if st_role (n_state n) = Leader then (None, n)
      else
        let n = n\<lparr>n_state := RecordContact (tk_now tk) (UpdateLeader '''' (n_state n))\<rparr> in
        (Some (vote_request n (wrap64 (st_currentTerm (n_state n) + 1)) True), n))"

definition majorityNeeded :: "nat \<Rightarrow> nat" where
  "majorityNeeded peers = (peers + 1) div 2 + 1"

text \<open>The cluster of one node: it leads at once, if its term is still the one it started from.\<close>

definition election_single :: "tick \<Rightarrow> int \<Rightarrow> Node \<Rightarrow> Node" where
  "election_single tk oldTerm n =
     (if st_currentTerm (n_state n) = oldTerm
      then
        let s = BecomeCandidate (tk_now tk) (tk_rand tk) (n_state n);
            s = SetCurrentTerm (wrap64 (oldTerm + 1)) s;
            s = SetVotedFor (st_id s) s;
            s = BecomeLeader s;
            s = UpdateLeader (st_id s) s
        in n\<lparr>n_state := s, n_commitIndex := h_prevIndex (n_FileHandler n)\<rparr>
      else n)"

text \<open>
  sendVoteRequests asks every connected peer. For each of them the argument holds the response
  (\<open>None\<close> for a failed RPC) and the node's own role and term when the response came back; a response
  that arrives after the node moved on is not counted. The node counts itself.
\<close>

definition sendVoteRequests :: "nat \<Rightarrow> Role \<Rightarrow> int \<Rightarrow> (VoteResponse option \<times> Role \<times> int) list \<Rightarrow> bool" where
  "sendVoteRequests majority expectedRole expectedTerm responses \<longleftrightarrow>
     1 + length (filter (\<lambda>(resp, currentRole, currentTerm).
       case resp of None \<Rightarrow> False
       | Some resp \<Rightarrow> currentRole = expectedRole \<and> currentTerm = expectedTerm \<and> vp_Vote resp) responses) \<ge> majority"

text \<open>Phase two, after the pre-vote was won: the node becomes a candidate of the next term and votes for itself.\<close>

definition election_formal :: "tick \<Rightarrow> int \<Rightarrow> Node \<Rightarrow> VoteRequest option \<times> Node" where
  "election_formal tk oldTerm n =
     (if st_role (n_state n) = Leader \<or> st_currentTerm (n_state n) \<noteq> oldTerm then (None, n)
      else
        let s = BecomeCandidate (tk_now tk) (tk_rand tk) (n_state n);
            s = SetCurrentTerm (wrap64 (oldTerm + 1)) s;
            s = SetVotedFor (st_id s) s;
            n = n\<lparr>n_state := s\<rparr>
        in (Some (vote_request n (wrap64 (oldTerm + 1)) False), n))"

text \<open>Phase three, after the votes were counted.\<close>

definition election_win :: "int \<Rightarrow> Node \<Rightarrow> Node" where
  "election_win term n =
     (if st_role (n_state n) = Candidate \<and> st_currentTerm (n_state n) = term
      then n\<lparr>n_state := UpdateLeader (st_id (n_state n)) (BecomeLeader (n_state n)),
             n_commitIndex := h_prevIndex (n_FileHandler n)\<rparr>
      else n)"

definition checkStepDown :: "tick \<Rightarrow> Node \<Rightarrow> int \<Rightarrow> bool \<times> Node" where
  "checkStepDown tk n peerTerm =
     (if peerTerm > st_currentTerm (n_state n)
      then (True, n\<lparr>n_state := SetCurrentTerm peerTerm (BecomeFollower (tk_now tk) (tk_rand tk) (n_state n))\<rparr>)
      else (False, n))"

subsection \<open>Replication: the follower\<close>

text \<open>
  AppendEntries. The three calls into the log store, in the order the handler can make them, have
  the disk outcomes \<open>env 0\<close> (Append), \<open>env 1\<close> (TruncateLog) and \<open>env 2\<close> (the second Append). The store
  never reports \<^verbatim>\<open>ErrAppendTermBehind\<close>.
\<close>

definition entry_of_request :: "AppendRequest \<Rightarrow> LogEntry" where
  "entry_of_request req = \<lparr>le_Index = aq_Index req, le_Term = aq_Term req,
     le_SchedulerID = aq_SchedulerId req, le_Payload = aq_Payload req\<rparr>"

definition append_entry :: "(nat \<Rightarrow> disk_env) \<Rightarrow> Handler \<Rightarrow> LogEntry \<Rightarrow> AppendResponseStatus \<times> Handler" where
  "append_entry env h data =
     (case Append (env 0) h data of
        (None, h1) \<Rightarrow> (APPEND_RESPONSE_SUCCESS, h1)
      | (Some err, h1) \<Rightarrow>
          if err = ErrAppendTermBehind \<or> err = ErrAppendIndexBehind
          then
            if le_Term data < h_discTerm h1 \<or> le_Index data \<le> h_discIndex h1
            then (APPEND_RESPONSE_NEEDS_SNAPSHOT, h1)
            else case TruncateLog (env 1) h1 (le_Index data) of
              (Some _, h2) \<Rightarrow> (APPEND_RESPONSE_BAD_PAYLOAD, h2)
            | (None, h2) \<Rightarrow>
                (case Append (env 2) h2 data of
                   (Some _, h3) \<Rightarrow> (APPEND_RESPONSE_BAD_PAYLOAD, h3)
                 | (None, h3) \<Rightarrow> (APPEND_RESPONSE_SUCCESS, h3))
          else (APPEND_RESPONSE_BAD_PAYLOAD, h1))"

definition follow :: "tick \<Rightarrow> State \<Rightarrow> AppendRequest \<Rightarrow> State" where
  "follow tk s req =
     (let s = (if aq_Term req > st_currentTerm s then SetCurrentTerm (aq_Term req) s else s);
          s = RecordContact (tk_now tk) s;
          s = UpdateLeader (aq_OriginNodeId req) s;
          s = SetVotedFor '''' s
      in if st_role s = Candidate \<or> st_role s = Leader then BecomeFollower (tk_now tk) (tk_rand tk) s else s)"

definition AppendEntries :: "(nat \<Rightarrow> disk_env) \<Rightarrow> tick \<Rightarrow> Node \<Rightarrow> AppendRequest \<Rightarrow> AppendResponse \<times> Node" where
  "AppendEntries env tk n req =
     (let s = n_state n; h = n_FileHandler n;
          response = (\<lambda>st. \<lparr>ar_RequestId = aq_RequestId req, ar_Status = st, ar_PrevLogTerm = st_currentTerm s,
            ar_PrevLogIndex = h_prevIndex h, ar_LeaderAddress = leader_address n\<rparr>)
      in if aq_Term req < st_currentTerm s then (response APPEND_RESPONSE_BAD_PAYLOAD, n)
         else
           let n1 = n\<lparr>n_state := follow tk s req\<rparr>;
               reject = (response APPEND_RESPONSE_BAD_PAYLOAD)\<lparr>ar_PrevLogIndex := h_prevIndex h, ar_PrevLogTerm := h_prevTerm h\<rparr>
           in if aq_PrevLogIndex req > h_prevIndex h then (reject, n1)
              else if aq_PrevLogIndex req = h_prevIndex h \<and> aq_PrevLogTerm req \<noteq> h_prevTerm h then (reject, n1)
              else if aq_Payload req = [] then (response APPEND_RESPONSE_SUCCESS, n1)
              else case append_entry env h (entry_of_request req) of (st, h1) \<Rightarrow>
                (response st, n1\<lparr>n_FileHandler := h1\<rparr>))"

subsection \<open>The service handlers\<close>

datatype casConflict = casNoConflict | casConcurrentClaim | casDuplicateSchedulerEvent

text \<open>
  checkCASConflict: \<open>peek\<close> is \<^verbatim>\<open>json.Unmarshal\<close> into the local struct peekPayload, \<open>unmarshal\<close> the one
  QueryEntries uses. The \<^verbatim>\<open>entry\<close> field of any type is represented by its \<^verbatim>\<open>%v\<close> rendering.
\<close>

record peekPayload =
  pk_ID :: string
  pk_State :: "int option"
  pk_Entry :: "string option"
  pk_Timestamp :: int

definition checkCASConflict :: "(bytes \<Rightarrow> peekPayload option) \<Rightarrow> (bytes \<Rightarrow> genericPayload option) \<Rightarrow>
    Handler \<Rightarrow> bytes \<Rightarrow> casConflict" where
  "checkCASConflict peek unmarshal h payload =
     (case peek payload of
        None \<Rightarrow> casNoConflict
      | Some incoming \<Rightarrow>
          if pk_ID incoming = '''' then casNoConflict
          else
            let isJobClaim = (case pk_State incoming of None \<Rightarrow> False | Some st \<Rightarrow> st \<ge> 0);
                isSchedulerEvent = (pk_Entry incoming \<noteq> None)
            in if \<not> isJobClaim \<and> \<not> isSchedulerEvent then casNoConflict
               else case QueryEntries unmarshal h None (Some (pk_ID incoming)) of
                 [] \<Rightarrow> casNoConflict
               | entry # _ \<Rightarrow>
                   (case peek (le_Payload entry) of
                      None \<Rightarrow> casNoConflict
                    | Some current \<Rightarrow>
                        if isJobClaim \<and> (case pk_State current of None \<Rightarrow> False
                             | Some cur \<Rightarrow> cur \<ge> 0 \<and> pk_State incoming = Some cur)
                        then casConcurrentClaim
                        else case (pk_Entry incoming, pk_Entry current) of
                          (Some inStr, Some curStr) \<Rightarrow>
                            let isThunderingHerdEvent = (inStr = SchedulerEvent_String HeartbeatFailed \<or>
                                  inStr = SchedulerEvent_String RedistributedJobs \<or> inStr = ''2'' \<or> inStr = ''3'');
                                timeDiffMillis = wrap64 (pk_Timestamp incoming - pk_Timestamp current)
                            in if isThunderingHerdEvent \<and> inStr = curStr \<and>
                                  timeDiffMillis > - 5000 \<and> timeDiffMillis < 5000
                               then casDuplicateSchedulerEvent else casNoConflict
                        | _ \<Rightarrow> casNoConflict))"

text \<open>
  ClientAppend: the part before the request is queued (\<open>Inl\<close>: the reply), the send on the buffered
  channel (\<open>None\<close> while it cannot proceed), the registration, and the wait (\<open>None\<close> while nothing has
  arrived). \<open>ctxDone\<close> says that \<^verbatim>\<open>select\<close> takes the branch of the cancelled context; the request then stays
  registered.
\<close>

definition client_response :: "Node \<Rightarrow> RawAppendRequest \<Rightarrow> AppendResponse" where
  "client_response n req =
     \<lparr>ar_RequestId = rq_RequestId req, ar_Status = APPEND_RESPONSE_BAD_PAYLOAD, ar_PrevLogTerm = - 1,
      ar_PrevLogIndex = - 1,
      ar_LeaderAddress = (if st_role (n_state n) \<noteq> Leader then leader_address n else '''')\<rparr>"

definition client_check :: "(bytes \<Rightarrow> peekPayload option) \<Rightarrow> (bytes \<Rightarrow> genericPayload option) \<Rightarrow> Node \<Rightarrow>
    RawAppendRequest \<Rightarrow> AppendResponse + AppendResponse" where
  "client_check peek unmarshal n req =
     (let stdResp = client_response n req in
      if st_role (n_state n) \<noteq> Leader then Inl stdResp
      else case checkCASConflict peek unmarshal (n_FileHandler n) (rq_Payload req) of
        casNoConflict \<Rightarrow> Inr stdResp
      | casDuplicateSchedulerEvent \<Rightarrow> Inl (stdResp\<lparr>ar_Status := APPEND_RESPONSE_BAD_PAYLOAD\<rparr>)
      | casConcurrentClaim \<Rightarrow> Inl (stdResp\<lparr>ar_Status := APPEND_RESPONSE_CONCURRENT_CLAIM\<rparr>))"

definition client_enqueue :: "Node \<Rightarrow> RawAppendRequest \<Rightarrow> Node option" where
  "client_enqueue n req =
     (case n_appendChan n of
        None \<Rightarrow> None
      | Some q \<Rightarrow> if length q < 100 then Some (n\<lparr>n_appendChan := Some (q @ [req])\<rparr>) else None)"

definition client_register :: "Node \<Rightarrow> RawAppendRequest \<Rightarrow> nat \<times> Node" where
  "client_register n req =
     (case Register (n_reqRegistry n) (rq_RequestId req) of (ch, r) \<Rightarrow> (ch, n\<lparr>n_reqRegistry := r\<rparr>))"

definition client_wait :: "bool \<Rightarrow> Node \<Rightarrow> nat \<Rightarrow> AppendResponse \<Rightarrow> AppendResponse option \<times> Node" where
  "client_wait ctxDone n ch stdResp =
     (if ctxDone then (Some stdResp, n)
      else case rr_bufs (n_reqRegistry n) ch of
        resp # rest \<Rightarrow>
          (Some (stdResp\<lparr>ar_Status := (if resp then APPEND_RESPONSE_SUCCESS else APPEND_RESPONSE_FAILED_CONSENSUS)\<rparr>),
           n\<lparr>n_reqRegistry := (n_reqRegistry n)\<lparr>rr_bufs := (rr_bufs (n_reqRegistry n))(ch := rest)\<rparr>\<rparr>)
      | [] \<Rightarrow> (None, n))"

definition GetData :: "(bytes \<Rightarrow> genericPayload option) \<Rightarrow> Node \<Rightarrow> string option \<Rightarrow> string option \<Rightarrow>
    string \<times> bool \<times> bytes list" where
  "GetData unmarshal n schedulerIdQuery payloadIdQuery =
     (let entries = QueryEntries unmarshal (n_FileHandler n) schedulerIdQuery payloadIdQuery
      in (st_id (n_state n), length entries > 0, map le_Payload entries))"

definition InstallSnapshot :: "disk_env \<Rightarrow> tick \<Rightarrow> Node \<Rightarrow> InstallSnapshotRequest \<Rightarrow> (store_error + int) \<times> Node" where
  "InstallSnapshot env tk n req =
     (let s = n_state n; respTerm = st_currentTerm s in
      if iq_Term req < st_currentTerm s then (Inr respTerm, n)
      else
        let s = (if iq_Term req > st_currentTerm s then SetVotedFor '''' (SetCurrentTerm (iq_Term req) s) else s);
            s = UpdateLeader (iq_LeaderId req) (RecordContact (tk_now tk) s);
            s = (if st_role s = Candidate \<or> st_role s = Leader then BecomeFollower (tk_now tk) (tk_rand tk) s else s)
        in case Handler_InstallSnapshot env (n_FileHandler n) (iq_Offset req) (iq_Data req) (iq_Done req)
                  (iq_LastIncludedIndex req) (iq_LastIncludedTerm req) of
             (Some err, h) \<Rightarrow> (Inl err, n\<lparr>n_state := s, n_FileHandler := h\<rparr>)
           | (None, h) \<Rightarrow> (Inr respTerm, n\<lparr>n_state := s, n_FileHandler := h\<rparr>))"

subsection \<open>Properties\<close>

lemma append_entry_success:
  assumes wf: "log_wf h" and e: "in_int64 (le_Index e)" and ok: "append_entry env h e = (APPEND_RESPONSE_SUCCESS, h')"
  shows "log_wf h' \<and> h_entries h' = filter (\<lambda>x. le_Index x < le_Index e) (h_entries h) @ [e] \<and>
    h_prevIndex h' = le_Index e \<and> h_prevTerm h' = le_Term e"
proof (cases "Append (env 0) h e")
  case (Pair r h1)
  show ?thesis
  proof (cases r)
    case None
    then have a: "Append (env 0) h e = (None, h')" using ok Pair by (simp add: append_entry_def)
    show ?thesis using ls.append_ok [OF wf e a] ls.append_last [OF wf e a] by simp
  next
    case (Some err)
    note h1 = ls.append_err [OF wf Pair [unfolded Some]]
    from ok Pair Some obtain h2 where err: "err = ErrAppendTermBehind \<or> err = ErrAppendIndexBehind"
      and disc: "h_discIndex h1 < le_Index e" and t: "TruncateLog (env 1) h1 (le_Index e) = (None, h2)"
      and a: "Append (env 2) h2 e = (None, h')"
      by (auto simp: append_entry_def split: if_splits prod.splits option.splits)
    have "h_prevIndex h1 = h_prevIndex h" using h1 by simp
    then have le: "le_Index e \<le> h_prevIndex h1" using err Pair Some
      by (auto simp: Append_def Let_def split: if_splits option.splits)
    show ?thesis using ls.truncate_append [OF conjunct1 [OF h1] e disc le t a] h1 by simp
  qed
qed

lemma AppendEntries_accepts:
  assumes wf: "log_wf (n_FileHandler n)" and e: "in_int64 (aq_Index req)" and p: "aq_Payload req \<noteq> []"
    and ok: "AppendEntries env tk n req = (resp, n')" "ar_Status resp = APPEND_RESPONSE_SUCCESS"
  shows "log_wf (n_FileHandler n') \<and>
    h_entries (n_FileHandler n') = filter (\<lambda>x. le_Index x < aq_Index req) (h_entries (n_FileHandler n)) @ [entry_of_request req] \<and>
    st_currentTerm (n_state n) \<le> aq_Term req \<and> st_currentTerm (n_state n') = aq_Term req \<and>
    aq_PrevLogIndex req \<le> h_prevIndex (n_FileHandler n) \<and>
    (aq_PrevLogIndex req = h_prevIndex (n_FileHandler n) \<longrightarrow> aq_PrevLogTerm req = h_prevTerm (n_FileHandler n))"
proof -
  from ok p obtain st h1 where a: "append_entry env (n_FileHandler n) (entry_of_request req) = (st, h1)"
    and st: "st = APPEND_RESPONSE_SUCCESS" and n': "n_FileHandler n' = h1" "n_state n' = follow tk (n_state n) req"
    and guards: "\<not> aq_Term req < st_currentTerm (n_state n)" "\<not> aq_PrevLogIndex req > h_prevIndex (n_FileHandler n)"
      "\<not> (aq_PrevLogIndex req = h_prevIndex (n_FileHandler n) \<and> aq_PrevLogTerm req \<noteq> h_prevTerm (n_FileHandler n))"
    by (auto simp: AppendEntries_def Let_def split: if_splits prod.splits)
  have "in_int64 (le_Index (entry_of_request req))" using e by (simp add: entry_of_request_def)
  from append_entry_success [OF wf this a [unfolded st]] guards n' show ?thesis
    by (auto simp: entry_of_request_def follow_def Let_def)
qed

lemma Register_Resolve:
  assumes "Register r rid = (ch, r1)"
  shows "\<exists>r2. Resolve r1 rid b = Some r2 \<and> rr_bufs r2 ch = [b] \<and> map_of (rr_channels r2) rid = None"
  using assms by (auto simp: Register_def Resolve_def Let_def)


definition demo_follower :: Node where
  "demo_follower = NewNode \<lparr>tk_now = 0, tk_rand = 0\<rparr> 0 ''b'' ''addr'' demo_store"

definition demo_append :: AppendRequest where
  "demo_append = \<lparr>aq_OriginNodeId = ''a'', aq_RequestId = ''r'', aq_Term = 1, aq_Index = 2, aq_PrevLogTerm = 1,
     aq_PrevLogIndex = 1, aq_SchedulerId = ''sched'', aq_Payload = [7]\<rparr>"


text \<open>
  ClientAppend queues the request before it registers its channel: a resolution in between is dropped, and the client
  waits until its timeout.
\<close>

lemma early_resolve_lost:
  assumes "map_of (rr_channels (n_reqRegistry n)) (rq_RequestId req) = None"
    and "Resolve (n_reqRegistry n) (rq_RequestId req) b = Some r"
    and "client_register (n\<lparr>n_reqRegistry := r\<rparr>) req = (ch, n')"
  shows "client_wait False n' ch resp = (None, n') \<and> client_wait True n' ch resp = (Some resp, n')"
  using assms by (auto simp: Resolve_def client_register_def Register_def Let_def client_wait_def)

lemma QueryEntries_latest:
  assumes "h_entries h = pre @ e # post" and "map_option gp_ID (u (le_Payload e)) = Some key"
    and "\<forall>x\<in>set post. map_option gp_ID (u (le_Payload x)) \<noteq> Some key"
  shows "QueryEntries u h None (Some key) = [e]"
proof -
  have "query_loop u None (Some key) (rev xs @ e # ys) [] = [e]" if "\<forall>x\<in>set xs. map_option gp_ID (u (le_Payload x)) \<noteq> Some key" for xs ys
    using that
  proof (induction xs rule: rev_induct)
    case Nil
    then show ?case using assms(2) by (auto split: option.splits)
  next
    case (snoc x xs)
    then show ?case by (auto split: option.splits)
  qed
  from this [OF assms(3), of "rev pre"] show ?thesis by (simp add: QueryEntries_def assms(1))
qed

text \<open>
  Claims are compare-and-set: A payload that claims a state for a job is refused as a concurrent
  claim exactly if the most recent entry of the log for that job has the same state; a claim with
  another state and no scheduler event passes.
\<close>

lemma repeated_claim_rejected:
  assumes entries: "h_entries h = pre @ e # post" and latest: "\<forall>x\<in>set post. map_option gp_ID (u (le_Payload x)) \<noteq> Some key"
    and e: "map_option gp_ID (u (le_Payload e)) = Some key" "peek (le_Payload e) = Some cur" "pk_State cur = Some st"
    and p: "peek payload = Some new" "pk_ID new = key" "key \<noteq> ''''" "pk_State new = Some st'" "0 \<le> st'"
  shows "(checkCASConflict peek u h payload = casConcurrentClaim) = (st = st') \<and>
    (pk_Entry new = None \<and> st \<noteq> st' \<longrightarrow> checkCASConflict peek u h payload = casNoConflict)"
  using p e QueryEntries_latest [OF entries e(1) latest]
  by (auto simp: checkCASConflict_def Let_def split: option.split)

lemma repeated_claim_rejected_example:
  "checkCASConflict (\<lambda>_. Some \<lparr>pk_ID = ''j'', pk_State = Some 1, pk_Entry = None, pk_Timestamp = 0\<rparr>)
     (\<lambda>_. Some \<lparr>gp_ID = ''j'', gp_State = Some 1, gp_Entry = None\<rparr>) demo_store [9] = casConcurrentClaim"
  using repeated_claim_rejected [of demo_store "[]" "demo_log_entry 1" "[]" "\<lambda>_. Some \<lparr>gp_ID = ''j'', gp_State = Some 1, gp_Entry = None\<rparr>"
      "''j''" "\<lambda>_. Some \<lparr>pk_ID = ''j'', pk_State = Some 1, pk_Entry = None, pk_Timestamp = 0\<rparr>" _ 1 "[9]" _ 1]
  by simp

end
