(* ===== verification/RaftElection.thy ===== *)
theory RaftElection
  imports RaftNode
begin

section \<open>Elections of a Raft cluster\<close>

text \<open>
  The nodes of a cluster with a fixed membership \<open>M\<close>, run in any interleaving of the phases of
  StartElection and the handlers RequestVote, AppendEntries, InstallSnapshot and checkStepDown.
  \<open>cl_votes\<close> records the formal votes given, as triples (voter, term, candidate), and \<open>cl_forgot\<close> the nodes
  with the terms in which an AppendEntries made them forget their vote.

  A candidate becomes leader on the responses sendVoteRequests collected: one per peer, and a
  positive one only if that peer gave the vote. The pre-vote restricts when an election begins; the
  relation admits elections without it as well. Requests to vote, to append and to install are arbitrary.
\<close>

record cluster =
  cl_nodes :: "string \<Rightarrow> Node"
  cl_votes :: "(string \<times> int \<times> string) set"
  cl_forgot :: "(string \<times> int) set"

definition put_node :: "string \<Rightarrow> Node \<Rightarrow> 'a cluster_scheme \<Rightarrow> 'a cluster_scheme" where
  "put_node v n c = c\<lparr>cl_nodes := (cl_nodes c)(v := n)\<rparr>"

definition add_vote :: "string \<Rightarrow> int \<Rightarrow> string \<Rightarrow> 'a cluster_scheme \<Rightarrow> 'a cluster_scheme" where
  "add_vote v t k c = c\<lparr>cl_votes := insert (v, t, k) (cl_votes c)\<rparr>"

definition forget_vote :: "string \<Rightarrow> AppendRequest \<Rightarrow> 'a cluster_scheme \<Rightarrow> 'a cluster_scheme" where
  "forget_vote v req c =
     (if aq_Term req = st_currentTerm (n_state (cl_nodes c v)) \<and> st_votedFor (n_state (cl_nodes c v)) \<noteq> ''''
      then c\<lparr>cl_forgot := insert (v, aq_Term req) (cl_forgot c)\<rparr> else c)"

inductive elect_step :: "string set \<Rightarrow> 'a cluster_scheme \<Rightarrow> 'a cluster_scheme \<Rightarrow> bool" for M where
  es_begin: "v \<in> M \<Longrightarrow> election_begin tk (cl_nodes c v) = (req, n) \<Longrightarrow> elect_step M c (put_node v n c)"
| es_formal: "v \<in> M \<Longrightarrow> v \<noteq> '''' \<Longrightarrow> election_formal tk old (cl_nodes c v) = (Some req, n) \<Longrightarrow> in_int64 (old + 1) \<Longrightarrow>
    elect_step M c (add_vote v (old + 1) v (put_node v n c))"
| es_single: "M = {v} \<Longrightarrow> v \<noteq> '''' \<Longrightarrow> st_currentTerm (n_state (cl_nodes c v)) = old \<Longrightarrow> in_int64 (old + 1) \<Longrightarrow>
    elect_step M c (add_vote v (old + 1) v (put_node v (election_single tk old (cl_nodes c v)) c))"
| es_vote: "v \<in> M \<Longrightarrow> vr_OriginNodeId req \<in> M - {v} \<Longrightarrow> vr_OriginNodeId req \<noteq> '''' \<Longrightarrow>
    RequestVote tk (cl_nodes c v) req = (resp, n) \<Longrightarrow>
    elect_step M c (if vp_Vote resp \<and> \<not> vr_Gossip req
      then add_vote v (vr_Term req) (vr_OriginNodeId req) (put_node v n c) else put_node v n c)"
| es_win: "v \<in> M \<Longrightarrow> distinct (map fst rs) \<Longrightarrow> fst ` set rs \<subseteq> M - {v} \<Longrightarrow>
    \<forall>(w, resp, _) \<in> set rs. (case resp of None \<Rightarrow> True | Some p \<Rightarrow> vp_Vote p \<longrightarrow> (w, t, v) \<in> cl_votes c) \<Longrightarrow>
    sendVoteRequests (majorityNeeded (card M - 1)) Candidate t (map snd rs) \<Longrightarrow>
    elect_step M c (put_node v (election_win t (cl_nodes c v)) c)"
| es_step_down: "v \<in> M \<Longrightarrow> checkStepDown tk (cl_nodes c v) peerTerm = (b, n) \<Longrightarrow> elect_step M c (put_node v n c)"
| es_append: "v \<in> M \<Longrightarrow> AppendEntries env tk (cl_nodes c v) req = (resp, n) \<Longrightarrow>
    elect_step M c (put_node v n (forget_vote v req c))"
| es_install: "v \<in> M \<Longrightarrow> InstallSnapshot denv tk (cl_nodes c v) ireq = (res, n) \<Longrightarrow> elect_step M c (put_node v n c)"

subsection \<open>Quorums\<close>

text \<open>
  What the safety of elections needs of a quorum is that two of them meet. A candidate counts its votes
  (\<open>sendVoteRequests\<close>); the votes of a majority of the members are such a quorum.
\<close>

locale quorums =
  fixes is_quorum :: "'n set \<Rightarrow> bool"
  assumes meet: "is_quorum P \<Longrightarrow> is_quorum Q \<Longrightarrow> P \<inter> Q \<noteq> {}"
begin

definition elected :: "('n \<times> int \<times> 'n) set \<Rightarrow> int \<Rightarrow> 'n \<Rightarrow> bool" where
  "elected votes t v \<longleftrightarrow> (\<exists>Q. is_quorum Q \<and> (\<forall>q\<in>Q. (q, t, v) \<in> votes))"

lemma elected_mono: "elected V t v \<Longrightarrow> V \<subseteq> W \<Longrightarrow> elected W t v"
  unfolding elected_def by blast

lemma both_elected: "elected V t v \<Longrightarrow> elected V t w \<Longrightarrow> \<exists>q. (q, t, v) \<in> V \<and> (q, t, w) \<in> V"
  unfolding elected_def using meet by blast

lemma elected_unique:
  "elected V t v \<Longrightarrow> elected V t w \<Longrightarrow> (\<And>q k k'. (q, t, k) \<in> V \<Longrightarrow> (q, t, k') \<in> V \<Longrightarrow> k = k') \<Longrightarrow> v = w"
  using both_elected by blast

end

definition quorum :: "string set \<Rightarrow> string set \<Rightarrow> bool" where
  "quorum M Q \<longleftrightarrow> Q \<subseteq> M \<and> card M < 2 * card Q"

lemma quorum_meet:
  assumes "finite M" "quorum M P" "quorum M Q" shows "P \<inter> Q \<noteq> {}"
proof
  assume "P \<inter> Q = {}"
  moreover have "finite P" "finite Q" using assms by (auto simp: quorum_def intro: finite_subset)
  ultimately have "card P + card Q = card (P \<union> Q)" by (simp add: card_Un_disjoint)
  also have "\<dots> \<le> card M" using assms by (auto simp: quorum_def intro: card_mono)
  finally show False using assms by (auto simp: quorum_def)
qed

interpretation mq: quorums "\<lambda>Q. finite M \<and> quorum M Q" for M
  by unfold_locales (use quorum_meet in blast)

lemma majority_quorum:
  assumes fin: "finite M" and v: "v \<in> M" and d: "distinct (map fst rs)" and sub: "fst ` set rs \<subseteq> M - {v}"
    and win: "sendVoteRequests (majorityNeeded (card M - 1)) r t (map snd rs)"
  defines "yes \<equiv> \<lambda>(w :: string, resp, role, term). (case resp of None \<Rightarrow> False | Some p \<Rightarrow> role = r \<and> term = t \<and> vp_Vote p)"
  shows "quorum M (insert v (fst ` set (filter yes rs)))"
proof -
  have "length (filter (\<lambda>(resp, role, term). case resp of None \<Rightarrow> False | Some p \<Rightarrow> role = r \<and> term = t \<and> vp_Vote p) (map snd rs))
      = length (filter yes rs)"
    unfolding yes_def filter_map length_map by (rule arg_cong [where f = length], rule filter_cong) (auto split: option.splits)
  then have ge: "majorityNeeded (card M - 1) \<le> 1 + length (filter yes rs)"
    using win unfolding sendVoteRequests_def by simp
  have "distinct (map fst (filter yes rs))" using d by (simp add: distinct_map_filter)
  then have "card (fst ` set (filter yes rs)) = length (filter yes rs)"
    by (metis distinct_card length_map set_map)
  moreover have "v \<notin> fst ` set (filter yes rs)" using sub by auto
  ultimately have "card (insert v (fst ` set (filter yes rs))) = 1 + length (filter yes rs)" by simp
  moreover have "0 < card M" using fin v card_gt_0_iff by blast
  ultimately have "card M < 2 * card (insert v (fst ` set (filter yes rs)))"
    using ge by (simp add: majorityNeeded_def)
  moreover have "insert v (fst ` set (filter yes rs)) \<subseteq> M" using v sub by auto
  ultimately show ?thesis by (simp add: quorum_def)
qed

subsection \<open>The invariant\<close>

text \<open>A vote given in the current term is still there, or was forgotten; so a node that voted for two candidates forgot its vote.\<close>

definition vote_inv :: "string set \<Rightarrow> 'a cluster_scheme \<Rightarrow> bool" where
  "vote_inv M c \<longleftrightarrow>
     (\<forall>v\<in>M. st_id (n_state (cl_nodes c v)) = v) \<and>
     (\<forall>(v, t, k)\<in>cl_votes c. v \<in> M \<and> k \<noteq> '''' \<and>
        (t < st_currentTerm (n_state (cl_nodes c v)) \<or>
         t = st_currentTerm (n_state (cl_nodes c v)) \<and> (st_votedFor (n_state (cl_nodes c v)) = k \<or> (v, t) \<in> cl_forgot c))) \<and>
     (\<forall>v t k k'. (v, t, k) \<in> cl_votes c \<longrightarrow> (v, t, k') \<in> cl_votes c \<longrightarrow> k = k' \<or> (v, t) \<in> cl_forgot c)"

definition role_ok :: "string set \<Rightarrow> (string \<times> int \<times> string) set \<Rightarrow> string \<Rightarrow> State \<Rightarrow> bool" where
  "role_ok M votes v s \<longleftrightarrow>
     (st_role s = Candidate \<longrightarrow> (v, st_currentTerm s, v) \<in> votes) \<and>
     (st_role s = Leader \<longrightarrow> mq.elected M votes (st_currentTerm s) v)"

definition role_inv :: "string set \<Rightarrow> 'a cluster_scheme \<Rightarrow> bool" where
  "role_inv M c \<longleftrightarrow> (\<forall>v\<in>M. role_ok M (cl_votes c) v (n_state (cl_nodes c v)))"

text \<open>
  Most steps are calm: they keep the node's name, do not lower its term, and give it no new role, or the
  role it had in the same term. A quiet step also keeps its vote within a term.
\<close>

definition calm :: "State \<Rightarrow> State \<Rightarrow> bool" where
  "calm s s' \<longleftrightarrow> st_id s' = st_id s \<and> st_currentTerm s \<le> st_currentTerm s' \<and>
     (st_role s' = Follower \<or> st_role s' = st_role s \<and> st_currentTerm s' = st_currentTerm s)"

definition keeps_vote :: "State \<Rightarrow> State \<Rightarrow> bool" where
  "keeps_vote s s' \<longleftrightarrow> st_id s' = st_id s \<and> st_currentTerm s \<le> st_currentTerm s' \<and>
     (st_currentTerm s' = st_currentTerm s \<longrightarrow> st_votedFor s' = st_votedFor s)"

definition quiet :: "State \<Rightarrow> State \<Rightarrow> bool" where
  "quiet s s' \<longleftrightarrow> keeps_vote s s' \<and> calm s s'"

lemmas quiet_defs = quiet_def keeps_vote_def calm_def

lemma election_begin_quiet: "election_begin tk n = (req, n') \<Longrightarrow> quiet (n_state n) (n_state n')"
  by (auto simp: election_begin_def quiet_defs Let_def split: if_splits)

lemma checkStepDown_quiet: "checkStepDown tk n t = (b, n') \<Longrightarrow> quiet (n_state n) (n_state n')"
  by (auto simp: checkStepDown_def quiet_defs split: if_splits)

lemma not_Follower: "r \<noteq> Follower \<longleftrightarrow> r = Candidate \<or> r = Leader"
  by (cases r) auto

lemma follow_calm: "st_currentTerm s \<le> aq_Term req \<Longrightarrow> calm s (follow tk s req)"
  by (cases "st_role s") (auto simp: follow_def calm_def Let_def)

lemma AppendEntries_state:
  "n_state (snd (AppendEntries env tk n req)) =
     (if aq_Term req < st_currentTerm (n_state n) then n_state n else follow tk (n_state n) req)"
  by (auto simp: AppendEntries_def Let_def split: prod.splits)

lemma AppendEntries_calm:
  "AppendEntries env tk n req = (resp, n') \<Longrightarrow> calm (n_state n) (n_state n')"
  using AppendEntries_state [of env tk n req] follow_calm [of "n_state n" req tk]
  by (auto simp: calm_def split: if_splits)

lemma InstallSnapshot_quiet:
  "InstallSnapshot env tk n req = (res, n') \<Longrightarrow> quiet (n_state n) (n_state n')"
  by (cases "st_role (n_state n)")
    (auto simp: InstallSnapshot_def quiet_defs Let_def split: if_splits prod.splits option.splits)

lemma RequestVote_quiet:
  assumes "RequestVote tk n req = (resp, n')" "\<not> vp_Vote resp \<or> vr_Gossip req"
  shows "quiet (n_state n) (n_state n')"
  using assms by (auto simp: RequestVote_def quiet_defs Let_def split: if_splits)

lemma RequestVote_grant:
  assumes "RequestVote tk n req = (resp, n')" "vp_Vote resp" "\<not> vr_Gossip req"
  shows "st_id (n_state n') = st_id (n_state n)" "st_currentTerm (n_state n') = vr_Term req"
    "st_votedFor (n_state n') = vr_OriginNodeId req" "st_role (n_state n') = Follower"
    "st_currentTerm (n_state n) < vr_Term req \<or> st_currentTerm (n_state n) = vr_Term req \<and>
       (st_votedFor (n_state n) = '''' \<or> st_votedFor (n_state n) = vr_OriginNodeId req)"
proof -
  have "st_id (n_state n') = st_id (n_state n) \<and> st_currentTerm (n_state n') = vr_Term req \<and>
      st_votedFor (n_state n') = vr_OriginNodeId req \<and> st_role (n_state n') = Follower \<and>
      (st_currentTerm (n_state n) < vr_Term req \<or> st_currentTerm (n_state n) = vr_Term req \<and>
        (st_votedFor (n_state n) = '''' \<or> st_votedFor (n_state n) = vr_OriginNodeId req))"
    using assms by (cases "st_role (n_state n)") (auto simp: RequestVote_def Let_def split: if_splits)
  then show "st_id (n_state n') = st_id (n_state n)" "st_currentTerm (n_state n') = vr_Term req"
    "st_votedFor (n_state n') = vr_OriginNodeId req" "st_role (n_state n') = Follower"
    "st_currentTerm (n_state n) < vr_Term req \<or> st_currentTerm (n_state n) = vr_Term req \<and>
       (st_votedFor (n_state n) = '''' \<or> st_votedFor (n_state n) = vr_OriginNodeId req)" by blast+
qed

lemma cluster_update_simps [simp]:
  "cl_nodes (put_node v n c) = (cl_nodes c)(v := n)" "cl_votes (put_node v n c) = cl_votes c" "cl_forgot (put_node v n c) = cl_forgot c"
  "cl_nodes (add_vote v t k c) = cl_nodes c" "cl_votes (add_vote v t k c) = insert (v, t, k) (cl_votes c)"
  "cl_forgot (add_vote v t k c) = cl_forgot c"
  "cl_nodes (forget_vote v req c) = cl_nodes c" "cl_votes (forget_vote v req c) = cl_votes c"
  "cl_forgot c \<subseteq> cl_forgot (forget_vote v req c)"
  by (auto simp: put_node_def add_vote_def forget_vote_def)

lemma vote_invD:
  assumes "vote_inv M c"
  shows "v \<in> M \<Longrightarrow> st_id (n_state (cl_nodes c v)) = v"
    and "(v, t, k) \<in> cl_votes c \<Longrightarrow> v \<in> M \<and> k \<noteq> '''' \<and> (t < st_currentTerm (n_state (cl_nodes c v)) \<or>
         t = st_currentTerm (n_state (cl_nodes c v)) \<and> (st_votedFor (n_state (cl_nodes c v)) = k \<or> (v, t) \<in> cl_forgot c))"
    and "(v, t, k) \<in> cl_votes c \<Longrightarrow> (v, t, k') \<in> cl_votes c \<Longrightarrow> k = k' \<or> (v, t) \<in> cl_forgot c"
  using assms by (auto simp: vote_inv_def dest: bspec)

lemma vote_invI:
  assumes "\<And>v. v \<in> M \<Longrightarrow> st_id (n_state (cl_nodes c v)) = v"
    and "\<And>v t k. (v, t, k) \<in> cl_votes c \<Longrightarrow> v \<in> M \<and> k \<noteq> '''' \<and> (t < st_currentTerm (n_state (cl_nodes c v)) \<or>
         t = st_currentTerm (n_state (cl_nodes c v)) \<and> (st_votedFor (n_state (cl_nodes c v)) = k \<or> (v, t) \<in> cl_forgot c))"
    and "\<And>v t k k'. (v, t, k) \<in> cl_votes c \<Longrightarrow> (v, t, k') \<in> cl_votes c \<Longrightarrow> k = k' \<or> (v, t) \<in> cl_forgot c"
  shows "vote_inv M c"
  unfolding vote_inv_def using assms by (intro conjI ballI allI impI) auto

text \<open>A step of one node that keeps its vote, or forgets it and is recorded.\<close>

lemma put_vote_inv:
  assumes inv: "vote_inv M c" and nodes: "cl_nodes c' = (cl_nodes c)(v := n)" and votes: "cl_votes c' = cl_votes c"
    and F: "cl_forgot c \<subseteq> cl_forgot c'" and i: "st_id (n_state n) = st_id (n_state (cl_nodes c v))"
    and le: "st_currentTerm (n_state (cl_nodes c v)) \<le> st_currentTerm (n_state n)"
    and keep: "st_currentTerm (n_state n) = st_currentTerm (n_state (cl_nodes c v)) \<Longrightarrow>
      st_votedFor (n_state n) = st_votedFor (n_state (cl_nodes c v)) \<or> st_votedFor (n_state (cl_nodes c v)) = '''' \<or>
      (v, st_currentTerm (n_state n)) \<in> cl_forgot c'"
  shows "vote_inv M c'"
proof (rule vote_invI)
  fix w assume "w \<in> M"
  then show "st_id (n_state (cl_nodes c' w)) = w" using vote_invD(1) [OF inv, of w] i nodes by (cases "w = v") auto
next
  fix w t k assume x: "(w, t, k) \<in> cl_votes c'"
  show "w \<in> M \<and> k \<noteq> '''' \<and> (t < st_currentTerm (n_state (cl_nodes c' w)) \<or>
      t = st_currentTerm (n_state (cl_nodes c' w)) \<and> (st_votedFor (n_state (cl_nodes c' w)) = k \<or> (w, t) \<in> cl_forgot c'))"
    using vote_invD(2) [OF inv, of w t k] x votes nodes F le keep by (cases "w = v") auto
qed (use vote_invD(3) [OF inv] votes F in blast)

lemma quiet_vote_inv:
  "vote_inv M c \<Longrightarrow> quiet (n_state (cl_nodes c v)) (n_state n) \<Longrightarrow> vote_inv M (put_node v n c)"
  by (rule put_vote_inv [where v = v and n = n]) (auto simp: quiet_defs)

lemma append_vote_inv:
  assumes inv: "vote_inv M c" and a: "AppendEntries env tk (cl_nodes c v) req = (resp, n)"
  shows "vote_inv M (put_node v n (forget_vote v req c))"
proof (rule put_vote_inv [OF inv])
  let ?s = "n_state (cl_nodes c v)"
  show "st_id (n_state n) = st_id ?s" "st_currentTerm ?s \<le> st_currentTerm (n_state n)"
    using AppendEntries_calm [OF a] by (auto simp: calm_def)
  assume t: "st_currentTerm (n_state n) = st_currentTerm ?s"
  show "st_votedFor (n_state n) = st_votedFor ?s \<or> st_votedFor ?s = '''' \<or>
      (v, st_currentTerm (n_state n)) \<in> cl_forgot (put_node v n (forget_vote v req c))"
  proof (cases "aq_Term req = st_currentTerm ?s")
    case True
    then show ?thesis using t by (simp add: forget_vote_def)
  next
    case False
    then show ?thesis using t a AppendEntries_state [of env tk "cl_nodes c v" req] by (auto simp: follow_def Let_def split: if_splits)
  qed
qed auto

lemma role_ok_mono: "role_ok M V v s \<Longrightarrow> V \<subseteq> W \<Longrightarrow> role_ok M W v s"
  unfolding role_ok_def using mq.elected_mono by blast

lemma role_ok_calm: "calm s s' \<Longrightarrow> role_ok M V v s \<Longrightarrow> role_ok M V v s'"
  unfolding calm_def role_ok_def by auto

lemma put_role_inv:
  assumes inv: "role_inv M c" and nodes: "cl_nodes c' = (cl_nodes c)(v := n)" and votes: "cl_votes c \<subseteq> cl_votes c'"
    and n: "v \<in> M \<Longrightarrow> role_ok M (cl_votes c') v (n_state n)"
  shows "role_inv M c'"
  unfolding role_inv_def
proof
  fix w assume "w \<in> M"
  with inv votes have "role_ok M (cl_votes c') w (n_state (cl_nodes c w))" by (auto simp: role_inv_def intro: role_ok_mono)
  with n \<open>w \<in> M\<close> show "role_ok M (cl_votes c') w (n_state (cl_nodes c' w))" by (cases "w = v") (auto simp: nodes)
qed

lemma calm_role_inv:
  assumes "role_inv M c" "calm (n_state (cl_nodes c v)) (n_state n)" "cl_nodes c' = (cl_nodes c)(v := n)" "cl_votes c' = cl_votes c"
  shows "role_inv M c'"
  by (rule put_role_inv [where v = v and n = n]) (use assms role_ok_calm in \<open>auto simp: role_inv_def\<close>)

definition elect_inv :: "string set \<Rightarrow> 'a cluster_scheme \<Rightarrow> bool" where
  "elect_inv M c \<longleftrightarrow> vote_inv M c \<and> role_inv M c"

lemma quiet_inv:
  "elect_inv M c \<Longrightarrow> quiet (n_state (cl_nodes c v)) (n_state n) \<Longrightarrow> elect_inv M (put_node v n c)"
  using quiet_vote_inv [of M c v n] calm_role_inv [of M c v n "put_node v n c"] by (simp add: elect_inv_def quiet_def)

lemma grant_inv:
  assumes inv: "elect_inv M c" and v: "v \<in> M" and k: "k \<noteq> ''''"
    and s': "st_id (n_state n) = v" "st_currentTerm (n_state n) = t" "st_votedFor (n_state n) = k"
    and s: "st_currentTerm (n_state (cl_nodes c v)) < t \<or> st_currentTerm (n_state (cl_nodes c v)) = t \<and>
      (st_votedFor (n_state (cl_nodes c v)) = '''' \<or> st_votedFor (n_state (cl_nodes c v)) = k)"
    and r: "role_ok M (insert (v, t, k) (cl_votes c)) v (n_state n)"
  shows "elect_inv M (add_vote v t k (put_node v n c))"
proof -
  let ?c = "add_vote v t k (put_node v n c)"
  have vi: "vote_inv M c" and ri: "role_inv M c" using inv by (simp_all add: elect_inv_def)
  have old: "t' < t \<or> t' = t \<and> (k' = k \<or> (v, t) \<in> cl_forgot c)" if "(v, t', k') \<in> cl_votes c" for t' k'
    using vote_invD(2) [OF vi that] s by auto
  have "vote_inv M ?c"
  proof (rule vote_invI)
    fix w assume "w \<in> M"
    then show "st_id (n_state (cl_nodes ?c w)) = w" using vote_invD(1) [OF vi, of w] s' by simp
  next
    fix w t' k' assume "(w, t', k') \<in> cl_votes ?c"
    then show "w \<in> M \<and> k' \<noteq> '''' \<and> (t' < st_currentTerm (n_state (cl_nodes ?c w)) \<or>
        t' = st_currentTerm (n_state (cl_nodes ?c w)) \<and> (st_votedFor (n_state (cl_nodes ?c w)) = k' \<or> (w, t') \<in> cl_forgot ?c))"
      using vote_invD(2) [OF vi, of w t' k'] old [of t' k'] v k s' by (cases "w = v") auto
  next
    fix w t' k1 k2 assume "(w, t', k1) \<in> cl_votes ?c" "(w, t', k2) \<in> cl_votes ?c"
    then show "k1 = k2 \<or> (w, t') \<in> cl_forgot ?c" using vote_invD(3) [OF vi, of w t' k1 k2] old by auto
  qed
  moreover have "role_inv M ?c" by (rule put_role_inv [OF ri, where v = v and n = n]) (use r in auto)
  ultimately show ?thesis by (simp add: elect_inv_def)
qed

lemma formal_inv:
  assumes inv: "elect_inv M c" and v: "v \<in> M" "v \<noteq> ''''"
    and f: "election_formal tk old (cl_nodes c v) = (Some req, n)" and i: "in_int64 (old + 1)"
  shows "elect_inv M (add_vote v (old + 1) v (put_node v n c))"
proof (rule grant_inv [OF inv v])
  have "st_id (n_state (cl_nodes c v)) = v" using inv v vote_invD(1) by (auto simp: elect_inv_def)
  then show "st_id (n_state n) = v" "st_currentTerm (n_state n) = old + 1" "st_votedFor (n_state n) = v"
    "st_currentTerm (n_state (cl_nodes c v)) < old + 1 \<or> st_currentTerm (n_state (cl_nodes c v)) = old + 1 \<and>
      (st_votedFor (n_state (cl_nodes c v)) = '''' \<or> st_votedFor (n_state (cl_nodes c v)) = v)"
    "role_ok M (insert (v, old + 1, v) (cl_votes c)) v (n_state n)"
    using f i by (auto simp: election_formal_def role_ok_def Let_def split: if_splits)
qed

lemma single_inv:
  assumes inv: "elect_inv M c" and v: "M = {v}" "v \<noteq> ''''"
    and t: "st_currentTerm (n_state (cl_nodes c v)) = old" and i: "in_int64 (old + 1)"
  shows "elect_inv M (add_vote v (old + 1) v (put_node v (election_single tk old (cl_nodes c v)) c))"
proof (rule grant_inv [OF inv _ v(2)])
  have "st_id (n_state (cl_nodes c v)) = v" using inv v vote_invD(1) by (auto simp: elect_inv_def)
  moreover have "mq.elected M (insert (v, old + 1, v) (cl_votes c)) (old + 1) v"
    unfolding mq.elected_def using v by (intro exI [of _ "{v}"]) (simp add: quorum_def)
  ultimately show "role_ok M (insert (v, old + 1, v) (cl_votes c)) v (n_state (election_single tk old (cl_nodes c v)))"
    "st_id (n_state (election_single tk old (cl_nodes c v))) = v"
    "st_currentTerm (n_state (election_single tk old (cl_nodes c v))) = old + 1"
    "st_votedFor (n_state (election_single tk old (cl_nodes c v))) = v"
    using t i by (auto simp: election_single_def role_ok_def Let_def)
qed (use v t in simp_all)

lemma vote_step_inv:
  assumes inv: "elect_inv M c" and v: "v \<in> M" "vr_OriginNodeId req \<noteq> ''''" and rv: "RequestVote tk (cl_nodes c v) req = (resp, n)"
  shows "elect_inv M (if vp_Vote resp \<and> \<not> vr_Gossip req
      then add_vote v (vr_Term req) (vr_OriginNodeId req) (put_node v n c) else put_node v n c)"
proof (cases "vp_Vote resp \<and> \<not> vr_Gossip req")
  case True
  note g = RequestVote_grant [OF rv]
  have "st_id (n_state (cl_nodes c v)) = v" using inv v vote_invD(1) by (auto simp: elect_inv_def)
  moreover have "role_ok M (insert (v, vr_Term req, vr_OriginNodeId req) (cl_votes c)) v (n_state n)"
    using g True by (simp add: role_ok_def)
  ultimately show ?thesis using True g grant_inv [OF inv v] by simp
next
  case False
  then show ?thesis using RequestVote_quiet [OF rv] quiet_inv [OF inv] by auto
qed

lemma win_inv:
  assumes inv: "elect_inv M c" and fin: "finite M" and v: "v \<in> M" and rs: "distinct (map fst rs)" "fst ` set rs \<subseteq> M - {v}"
    and votes: "\<forall>(w, resp, _) \<in> set rs. (case resp of None \<Rightarrow> True | Some p \<Rightarrow> vp_Vote p \<longrightarrow> (w, t, v) \<in> cl_votes c)"
    and win: "sendVoteRequests (majorityNeeded (card M - 1)) Candidate t (map snd rs)"
  shows "elect_inv M (put_node v (election_win t (cl_nodes c v)) c)"
proof (cases "st_role (n_state (cl_nodes c v)) = Candidate \<and> st_currentTerm (n_state (cl_nodes c v)) = t")
  case True
  let ?n = "election_win t (cl_nodes c v)"
  let ?yes = "\<lambda>(w :: string, resp, role, term). (case resp of None \<Rightarrow> False | Some p \<Rightarrow> role = Candidate \<and> term = t \<and> vp_Vote p)"
  have self: "(v, t, v) \<in> cl_votes c" using True inv v by (auto simp: elect_inv_def role_inv_def role_ok_def)
  have "(q, t, v) \<in> cl_votes c" if "(q, x) \<in> set (filter ?yes rs)" for q x
    using that bspec [OF votes, of "(q, x)"] by (cases x) (auto split: option.splits)
  with self have "\<forall>q\<in>insert v (fst ` set (filter ?yes rs)). (q, t, v) \<in> cl_votes c" by auto
  moreover note majority_quorum [OF fin v rs win]
  ultimately have el: "mq.elected M (cl_votes c) t v" unfolding mq.elected_def using fin by metis
  have "role_inv M (put_node v ?n c)"
    by (rule put_role_inv [where v = v and n = ?n]) (use inv True el in \<open>auto simp: elect_inv_def election_win_def role_ok_def\<close>)
  moreover have "vote_inv M (put_node v ?n c)"
    by (rule put_vote_inv [where v = v and n = ?n]) (use inv in \<open>auto simp: elect_inv_def election_win_def\<close>)
  ultimately show ?thesis by (simp add: elect_inv_def)
next
  case False
  then have "put_node v (election_win t (cl_nodes c v)) c = c" by (auto simp: election_win_def put_node_def)
  with inv show ?thesis by simp
qed

lemma append_inv:
  assumes inv: "elect_inv M c" and a: "AppendEntries env tk (cl_nodes c v) req = (resp, n)"
  shows "elect_inv M (put_node v n (forget_vote v req c))"
  using inv append_vote_inv [OF _ a] calm_role_inv [OF _ AppendEntries_calm [OF a], of M "put_node v n (forget_vote v req c)"]
  by (simp add: elect_inv_def)

lemma elect_step_inv:
  assumes "elect_step M c c'" "finite M" "elect_inv M c"
  shows "elect_inv M c'"
  using assms
proof (induction rule: elect_step.induct)
  case (es_win v rs t c)
  then show ?case by (intro win_inv) auto
next
  case (es_vote v req tk c resp n)
  then show ?case by (intro vote_step_inv)
qed (auto intro: formal_inv single_inv vote_step_inv append_inv
       quiet_inv election_begin_quiet checkStepDown_quiet InstallSnapshot_quiet)

definition initial_cluster :: "string set \<Rightarrow> 'a cluster_scheme \<Rightarrow> bool" where
  "initial_cluster M c \<longleftrightarrow> cl_votes c = {} \<and>
     (\<forall>v\<in>M. st_id (n_state (cl_nodes c v)) = v \<and> st_role (n_state (cl_nodes c v)) = Follower)"

lemma initial_inv: "initial_cluster M c \<Longrightarrow> elect_inv M c"
  by (auto simp: initial_cluster_def elect_inv_def vote_inv_def role_inv_def role_ok_def)

lemma reachable_inv:
  assumes "(elect_step M)\<^sup>*\<^sup>* c0 c" "finite M" "initial_cluster M c0"
  shows "elect_inv M c"
  using assms by (induction rule: rtranclp_induct) (auto intro: initial_inv elect_step_inv)

subsection \<open>One election of one node\<close>

text \<open>
  StartElection when no other handler runs between its phases: \<open>prs\<close> and \<open>frs\<close> are the responses of
  the connected peers to the two rounds.
\<close>

definition StartElection :: "tick \<Rightarrow> VoteResponse option list \<Rightarrow> VoteResponse option list \<Rightarrow> Node \<Rightarrow> Node" where
  "StartElection tk prs frs n =
     (case election_begin tk n of
        (None, n1) \<Rightarrow> n1
      | (Some _, n1) \<Rightarrow>
          let oldTerm = st_currentTerm (n_state n1);
              preVoteTerm = wrap64 (oldTerm + 1);
              majority = majorityNeeded (length (Peers n1));
              seen = (\<lambda>m. map (\<lambda>r. (r, st_role (n_state m), st_currentTerm (n_state m))))
          in if majority = 1 then election_single tk oldTerm n1
             else if \<not> sendVoteRequests majority Follower oldTerm (seen n1 prs) then n1
             else case election_formal tk oldTerm n1 of
               (None, n2) \<Rightarrow> n2
             | (Some _, n2) \<Rightarrow>
                 if sendVoteRequests majority Candidate preVoteTerm (seen n2 frs) then election_win preVoteTerm n2 else n2)"

definition granted :: "VoteResponse option list \<Rightarrow> nat" where
  "granted rs = length (filter (\<lambda>r. case r of None \<Rightarrow> False | Some p \<Rightarrow> vp_Vote p) rs)"

lemma sendVoteRequests_seen:
  "sendVoteRequests m r t (map (\<lambda>x. (x, r', t')) rs) \<longleftrightarrow> m \<le> 1 + (if r = r' \<and> t = t' then granted rs else 0)"
proof (cases "r = r' \<and> t = t'")
  case True
  then have "length (filter (\<lambda>(resp, role, term). case resp of None \<Rightarrow> False | Some p \<Rightarrow> role = r \<and> term = t \<and> vp_Vote p)
      (map (\<lambda>x. (x, r', t')) rs)) = granted rs"
    unfolding granted_def filter_map length_map
    by (intro arg_cong [where f = length] filter_cong) (auto split: option.splits)
  with True show ?thesis unfolding sendVoteRequests_def by presburger
next
  case False
  then have "filter (\<lambda>(resp, role, term). case resp of None \<Rightarrow> False | Some p \<Rightarrow> role = r \<and> term = t \<and> vp_Vote p)
      (map (\<lambda>x. (x, r', t')) rs) = []"
    by (auto simp: filter_empty_conv split: option.splits)
  with False show ?thesis by (auto simp: sendVoteRequests_def)
qed

lemma election_begin_peers [simp]: "Peers (snd (election_begin tk n)) = Peers n"
  by (simp add: election_begin_def Peers_def peer_map_def Let_def)

lemma majority_two: "0 < k \<Longrightarrow> 2 \<le> majorityNeeded k"
  by (simp add: majorityNeeded_def)

subsection \<open>Properties\<close>

definition demo_tick :: tick where
  "demo_tick = \<lparr>tk_now = 0, tk_rand = 0\<rparr>"

definition demo_node :: "string \<Rightarrow> Node" where
  "demo_node v = (NewNode demo_tick 0 v ''addr'' (fresh_store 64))\<lparr>n_peerNodes :=
     Some (map (\<lambda>w. (w, New 0 0 0 w ''addr'')) (remove1 v [''a'', ''b'', ''c'']))\<rparr>"

definition demo_yes :: "VoteResponse option" where
  "demo_yes = Some \<lparr>vp_ResponseNodeId = ''b'', vp_Vote = True\<rparr>"

lemmas demo_defs = demo_node_def demo_tick_def demo_yes_def NewNode_def New_def fresh_store_def Let_def

text \<open>
  C31 (elections succeed). A follower with peers that gets a majority of pre-votes and then a majority
  of formal votes, counting itself, ends as the leader of the next term, having voted for itself.
\<close>

theorem follower_wins_election:
  assumes role: "st_role (n_state n) = Follower" and k: "Peers n \<noteq> []" and t64: "in_int64 (st_currentTerm (n_state n) + 1)"
    and pre: "majorityNeeded (length (Peers n)) \<le> 1 + granted prs"
    and formal: "majorityNeeded (length (Peers n)) \<le> 1 + granted frs"
  shows "st_role (n_state (StartElection tk prs frs n)) = Leader \<and>
    st_currentTerm (n_state (StartElection tk prs frs n)) = st_currentTerm (n_state n) + 1 \<and>
    st_votedFor (n_state (StartElection tk prs frs n)) = st_id (n_state n) \<and>
    st_leaderID (n_state (StartElection tk prs frs n)) = st_id (n_state n)"
proof -
  have m: "majorityNeeded (length (Peers n)) \<noteq> 1" using majority_two [of "length (Peers n)"] k by auto
  obtain req where b: "election_begin tk n = (Some req, n\<lparr>n_state := RecordContact (tk_now tk) (UpdateLeader '''' (n_state n))\<rparr>)"
    using role by (simp add: election_begin_def Let_def)
  have p: "Peers (n\<lparr>n_state := s\<rparr>) = Peers n" for s by (simp add: Peers_def peer_map_def)
  show ?thesis
    using role t64 pre formal m
    by (simp add: StartElection_def b p Let_def sendVoteRequests_seen election_formal_def election_win_def)
qed

theorem follower_wins_election_witness:
  "st_role (n_state (StartElection demo_tick [demo_yes, None] [None, demo_yes] (demo_node ''a''))) = Leader"
  using follower_wins_election [of "demo_node ''a''" "[demo_yes, None]" "[None, demo_yes]" demo_tick]
  by (simp add: demo_defs state_ops Peers_def peer_map_def in_int64_def majorityNeeded_def granted_def)

text \<open>
  C36 (finding: a candidate cannot be elected again). The pre-vote counts only responses that arrive
  while the node is a follower, and StartElection does not turn a candidate back into one: a
  candidate whose election failed and that has peers stays a candidate of the same term, whatever
  its peers answer. After a split vote that leaves every node a candidate no node can start a new term.
\<close>

theorem candidate_never_elected:
  assumes role: "st_role (n_state n) = Candidate" and k: "Peers n \<noteq> []"
  shows "st_role (n_state (StartElection tk prs frs n)) = Candidate \<and>
    st_currentTerm (n_state (StartElection tk prs frs n)) = st_currentTerm (n_state n)"
proof -
  have m: "\<not> majorityNeeded (length (Peers n)) \<le> 1" using majority_two [of "length (Peers n)"] k by auto
  obtain req where b: "election_begin tk n = (Some req, n\<lparr>n_state := RecordContact (tk_now tk) (UpdateLeader '''' (n_state n))\<rparr>)"
    using role by (simp add: election_begin_def Let_def)
  have p: "Peers (n\<lparr>n_state := s\<rparr>) = Peers n" for s by (simp add: Peers_def peer_map_def)
  show ?thesis using role m by (auto simp: StartElection_def b p Let_def sendVoteRequests_seen)
qed

theorem candidate_never_elected_witness:
  "st_role (n_state (StartElection demo_tick [demo_yes, demo_yes] [demo_yes, demo_yes]
     (snd (election_formal demo_tick 0 (demo_node ''a''))))) = Candidate"
  using candidate_never_elected [of "snd (election_formal demo_tick 0 (demo_node ''a''))" demo_tick "[demo_yes, demo_yes]" "[demo_yes, demo_yes]"]
  by (simp add: election_formal_def demo_defs state_ops Peers_def peer_map_def)

definition demo_cluster :: cluster where
  "demo_cluster = \<lparr>cl_nodes = demo_node, cl_votes = {}, cl_forgot = {}\<rparr>"

definition demo_candidate :: Node where
  "demo_candidate = snd (election_formal demo_tick 0 (demo_node ''a''))"

definition demo_cluster1 :: cluster where
  "demo_cluster1 = add_vote ''a'' 1 ''a'' (put_node ''a'' demo_candidate demo_cluster)"

definition demo_cluster2 :: cluster where
  "demo_cluster2 = add_vote ''b'' 1 ''a'' (put_node ''b''
     (snd (RequestVote demo_tick (demo_node ''b'') (vote_request demo_candidate 1 False))) demo_cluster1)"

definition demo_cluster3 :: cluster where
  "demo_cluster3 = put_node ''a'' (election_win 1 demo_candidate) demo_cluster2"

lemma demo_candidate_eq:
  "demo_candidate = (demo_node ''a'')\<lparr>n_state := SetVotedFor ''a'' (SetCurrentTerm 1 (BecomeCandidate 0 0 (n_state (demo_node ''a''))))\<rparr>"
  by (simp add: demo_candidate_def election_formal_def demo_defs state_ops wrap64_small)

lemma demo_steps:
  "elect_step {''a'', ''b'', ''c''} demo_cluster demo_cluster1"
  "elect_step {''a'', ''b'', ''c''} demo_cluster1 demo_cluster2"
  "elect_step {''a'', ''b'', ''c''} demo_cluster2 demo_cluster3"
proof -
  let ?req = "vote_request demo_candidate 1 False"
  have "election_formal demo_tick 0 (cl_nodes demo_cluster ''a'') = (Some ?req, demo_candidate)"
    by (simp add: demo_cluster_def demo_candidate_def election_formal_def vote_request_def demo_defs state_ops wrap64_small)
  from es_formal [OF _ _ this]
  show "elect_step {''a'', ''b'', ''c''} demo_cluster demo_cluster1"
    by (simp add: demo_cluster1_def in_int64_def)
  have node_b: "cl_nodes demo_cluster1 ''b'' = demo_node ''b''"
    by (simp add: demo_cluster1_def demo_cluster_def)
  define resp where "resp = fst (RequestVote demo_tick (demo_node ''b'') ?req)"
  have resp: "RequestVote demo_tick (cl_nodes demo_cluster1 ''b'') ?req =
      (resp, snd (RequestVote demo_tick (demo_node ''b'') ?req))"
    by (simp add: resp_def node_b)
  have yes: "vp_Vote resp"
    by (simp add: resp_def demo_candidate_eq RequestVote_def vote_request_def log_up_to_date_def demo_defs state_ops)
  have req: "vr_OriginNodeId ?req = ''a''" "vr_Term ?req = 1" "\<not> vr_Gossip ?req"
    by (simp_all add: vote_request_def demo_candidate_eq demo_defs state_ops)
  show "elect_step {''a'', ''b'', ''c''} demo_cluster1 demo_cluster2"
    using es_vote [OF _ _ _ resp] yes req by (simp add: demo_cluster2_def)
  have "cl_nodes demo_cluster2 ''a'' = demo_candidate"
    by (simp add: demo_cluster2_def demo_cluster1_def)
  moreover have "(''b'', 1, ''a'') \<in> cl_votes demo_cluster2" by (simp add: demo_cluster2_def)
  ultimately show "elect_step {''a'', ''b'', ''c''} demo_cluster2 demo_cluster3"
    using es_win [of "''a''" _ "[(''b'', Some resp, Candidate, 1)]" 1 demo_cluster2] yes
    by (simp add: demo_cluster3_def sendVoteRequests_def majorityNeeded_def)
qed

text \<open>
  C1 (election safety). In every run of a finite cluster, from followers and through any interleaving
  of elections, votes, term changes, AppendEntries and snapshots, two leaders of the same term are the same
  node; or a node voted for both of them in that term, which happens only after an AppendEntries of that
  term made it forget its vote.
\<close>

theorem election_safety:
  assumes run: "(elect_step M)\<^sup>*\<^sup>* c0 c" and fin: "finite M" and init: "initial_cluster M c0" and v: "v \<in> M" and w: "w \<in> M"
    and lead: "st_role (n_state (cl_nodes c v)) = Leader" "st_role (n_state (cl_nodes c w)) = Leader"
    and t: "st_currentTerm (n_state (cl_nodes c v)) = t" "st_currentTerm (n_state (cl_nodes c w)) = t"
  shows "v = w \<or> (\<exists>q\<in>M. (q, t, v) \<in> cl_votes c \<and> (q, t, w) \<in> cl_votes c \<and> (q, t) \<in> cl_forgot c)"
proof -
  have inv: "vote_inv M c" "role_inv M c" using reachable_inv [OF run fin init] by (simp_all add: elect_inv_def)
  then have "mq.elected M (cl_votes c) t v" "mq.elected M (cl_votes c) t w"
    using v w lead t by (auto simp: role_inv_def role_ok_def)
  then obtain q where q: "(q, t, v) \<in> cl_votes c" "(q, t, w) \<in> cl_votes c" using mq.both_elected by blast
  then show ?thesis using vote_invD(2) [OF inv(1) q(1)] vote_invD(3) [OF inv(1) q] by auto
qed

theorem election_safety_witness:
  "st_role (n_state (cl_nodes demo_cluster3 ''a'')) = Leader \<and> st_role (n_state (cl_nodes demo_cluster3 ''b'')) \<noteq> Leader"
proof -
  have run: "(elect_step {''a'', ''b'', ''c''})\<^sup>*\<^sup>* demo_cluster demo_cluster3"
    using demo_steps by (meson r_into_rtranclp rtranclp_trans)
  have init: "initial_cluster {''a'', ''b'', ''c''} demo_cluster"
    by (simp add: initial_cluster_def demo_cluster_def demo_defs state_ops)
  have a: "st_role (n_state (cl_nodes demo_cluster3 ''a'')) = Leader"
    and terms: "st_currentTerm (n_state (cl_nodes demo_cluster3 ''a'')) = 1"
      "st_currentTerm (n_state (cl_nodes demo_cluster3 ''b'')) = 1"
    by (simp_all add: demo_cluster3_def demo_cluster2_def demo_candidate_eq election_win_def RequestVote_def
        vote_request_def log_up_to_date_def demo_defs state_ops)
  moreover have "cl_forgot demo_cluster3 = {}"
    by (simp add: demo_cluster3_def demo_cluster2_def demo_cluster1_def demo_cluster_def)
  ultimately show ?thesis
    using election_safety [OF run _ init, of "''b''" "''a''" 1] by auto
qed

text \<open>
  Finding: a vote is forgotten within its term. A follower that voted for \<open>a\<close> and then receives a
  heartbeat of the same term votes again, for \<open>b\<close>, in that term: AppendEntries clears the vote also
  when the term did not grow. This is the one way in which two nodes can lead the same term.
\<close>

lemma vote_forgotten_in_term:
  assumes "st_role (n_state n) = Follower" and "st_votedFor (n_state n) = a" and "a \<noteq> b"
    and "aq_Term hb = st_currentTerm (n_state n)" and "aq_Payload hb = []"
    and "\<not> vr_Gossip req" and "vr_Term req = st_currentTerm (n_state n)" and "vr_OriginNodeId req = b"
    and "log_up_to_date req (n_FileHandler n)"
  shows "vp_Vote (fst (RequestVote tk (snd (AppendEntries env tk' n hb)) req)) \<and>
    st_votedFor (n_state (snd (RequestVote tk (snd (AppendEntries env tk' n hb)) req))) = b \<and>
    st_currentTerm (n_state (snd (RequestVote tk (snd (AppendEntries env tk' n hb)) req))) = st_currentTerm (n_state n)"
proof -
  have h: "n_FileHandler (snd (AppendEntries env tk' n hb)) = n_FileHandler n"
    using assms(5) by (simp add: AppendEntries_def Let_def)
  have s: "n_state (snd (AppendEntries env tk' n hb)) = follow tk' (n_state n) hb"
    using assms(4) by (simp add: AppendEntries_state)
  have f: "st_role (follow tk' (n_state n) hb) = Follower" "st_votedFor (follow tk' (n_state n) hb) = ''''"
    "st_currentTerm (follow tk' (n_state n) hb) = st_currentTerm (n_state n)"
    using assms by (simp_all add: follow_def Let_def)
  show ?thesis using assms by (simp add: RequestVote_def Let_def s h f)
qed

lemma vote_forgotten_in_term_example:
  "vp_Vote (fst (RequestVote demo_tick (snd (AppendEntries (\<lambda>_. disk_ok) demo_tick
      (cl_nodes demo_cluster2 ''b'')
      \<lparr>aq_OriginNodeId = ''a'', aq_RequestId = '''', aq_Term = 1, aq_Index = 0, aq_PrevLogTerm = 0, aq_PrevLogIndex = 0,
       aq_SchedulerId = '''', aq_Payload = []\<rparr>))
      \<lparr>vr_OriginNodeId = ''c'', vr_Gossip = False, vr_Term = 1, vr_LogTerm = 0, vr_LogIndex = 0\<rparr>))"
proof -
  have b: "st_role (n_state (cl_nodes demo_cluster2 ''b'')) = Follower" "st_votedFor (n_state (cl_nodes demo_cluster2 ''b'')) = ''a''"
    "st_currentTerm (n_state (cl_nodes demo_cluster2 ''b'')) = 1" "n_FileHandler (cl_nodes demo_cluster2 ''b'') = fresh_store 64"
    by (simp_all add: demo_cluster2_def demo_candidate_eq RequestVote_def
        vote_request_def log_up_to_date_def demo_defs state_ops)
  show ?thesis
    by (rule vote_forgotten_in_term [OF b(1,2), of "''c''", THEN conjunct1])
      (simp_all add: b log_up_to_date_def fresh_store_def)
qed

end
