(* ===== verification/RaftReplication.thy ===== *)
theory RaftReplication
  imports RaftNode
begin

section \<open>Replication: the leader (internal/consensus/service/add.go and retention.go)\<close>

text \<open>
  What the leader does for its peers: the heartbeat loop with its table of next indices
  (retention.go), the replication of a client request to a majority (AddLog), the catch-up of a peer
  that lags (resolvePeerLag) and the streaming of a snapshot (sendSnapshotToPeer) of add.go. The
  goroutines wait for RPCs between the parts that hold the mutex: each part is one definition, and
  the response is its argument.
\<close>

subsection \<open>Heartbeats\<close>

fun store_next :: "State list \<Rightarrow> int \<Rightarrow> (string, int) gomap \<Rightarrow> (string, int) gomap" where
  "store_next [] next m = m"
| "store_next (peer # peers) next m = store_next peers next (AList.update (st_id peer) next m)"

definition initNextIndex :: "Node \<Rightarrow> (string, int) gomap \<Rightarrow> (string, int) gomap" where
  "initNextIndex n nextIndex = store_next (Peers n) (wrap64 (h_prevIndex (n_FileHandler n) + 1)) nextIndex"

text \<open>dispatchHeartbeats: the term, and the peers a worker is started for; \<open>None\<close> when the node does not lead.\<close>

definition dispatchHeartbeats :: "Node \<Rightarrow> (string \<times> int \<times> State list) option" where
  "dispatchHeartbeats n =
     (if st_role (n_state n) \<noteq> Leader then None
      else Some (st_id (n_state n), st_currentTerm (n_state n), filter st_connected (Peers n)))"

definition scan_entries :: "LogEntry list \<Rightarrow> int \<Rightarrow> int \<Rightarrow> int \<Rightarrow> int \<times> bytes \<times> int \<times> string" where
  "scan_entries entries prevLogIndex targetIndex prevLogTerm =
     fold (\<lambda>entry (prevTerm, payload, reqIndex, sid).
       let prevTerm = (if le_Index entry = prevLogIndex then le_Term entry else prevTerm) in
       if le_Index entry = targetIndex then (prevTerm, le_Payload entry, le_Index entry, le_SchedulerID entry)
       else (prevTerm, payload, reqIndex, sid)) entries (prevLogTerm, [], 0, '''')"

definition buildHeartbeatRequest :: "Handler \<Rightarrow> string \<Rightarrow> int \<Rightarrow> int \<Rightarrow> AppendRequest \<times> bool" where
  "buildHeartbeatRequest h leaderID currentTerm ni =
     (let prevLogIndex = wrap64 (ni - 1);
          prevLogTerm = (if prevLogIndex = h_discIndex h then h_discTerm h else 0);
          entries = Entries h prevLogIndex (wrap64 (ni + 1))
      in case scan_entries entries prevLogIndex ni prevLogTerm of (prevLogTerm, payload, reqIndex, reqSchedulerID) \<Rightarrow>
        (\<lparr>aq_OriginNodeId = leaderID, aq_RequestId = '''', aq_Term = currentTerm, aq_Index = reqIndex,
          aq_PrevLogTerm = prevLogTerm, aq_PrevLogIndex = prevLogIndex, aq_SchedulerId = reqSchedulerID,
          aq_Payload = payload\<rparr>, length payload > 0))"

text \<open>
  sendHeartbeatToPeer up to the RPC: \<open>None\<close> when leadership was lost; a peer without an entry in the
  table makes the type assertion \<^verbatim>\<open>val.(int64)\<close> panic (\<open>Inl\<close>).
\<close>

definition sendHeartbeatToPeer :: "Node \<Rightarrow> string \<Rightarrow> string \<Rightarrow> int \<Rightarrow> (string, int) gomap \<Rightarrow>
    (store_error + AppendRequest \<times> bool \<times> int) option" where
  "sendHeartbeatToPeer n peerID leaderID currentTerm nextIndex =
     (if st_role (n_state n) \<noteq> Leader \<or> st_currentTerm (n_state n) \<noteq> currentTerm then None
      else case map_of nextIndex peerID of
        None \<Rightarrow> Some (Inl Panic)
      | Some ni \<Rightarrow>
          (case buildHeartbeatRequest (n_FileHandler n) leaderID currentTerm ni of
             (req, hasPayload) \<Rightarrow> Some (Inr (req, hasPayload, ni))))"

definition processHeartbeatResponse :: "tick \<Rightarrow> Node \<Rightarrow> string \<Rightarrow> AppendResponse \<Rightarrow> int \<Rightarrow> bool \<Rightarrow>
    (string, int) gomap \<Rightarrow> Node \<times> (string, int) gomap" where
  "processHeartbeatResponse tk n peerID resp ni hasPayload nextIndex =
     (if ar_Status resp = APPEND_RESPONSE_SUCCESS
      then (n, if hasPayload then AList.update peerID (wrap64 (ni + 1)) nextIndex else nextIndex)
      else if ar_Status resp = APPEND_RESPONSE_BAD_PAYLOAD \<or> ar_Status resp = APPEND_RESPONSE_NEEDS_SNAPSHOT
      then
        (case checkStepDown tk n (ar_PrevLogTerm resp) of
           (True, n1) \<Rightarrow> (n1, nextIndex)
         | (False, n1) \<Rightarrow> (n1, if ni > 1 then AList.update peerID (ni - 1) nextIndex else nextIndex))
      else (n, nextIndex))"

subsection \<open>Replicating a request\<close>

definition getPrevLogTerm :: "Handler \<Rightarrow> int \<Rightarrow> int" where
  "getPrevLogTerm h prevLogIndex =
     (if prevLogIndex = h_discIndex h then h_discTerm h
      else if prevLogIndex > 0
      then (case Entries h prevLogIndex (wrap64 (prevLogIndex + 1)) of [] \<Rightarrow> 0 | entry # _ \<Rightarrow> le_Term entry)
      else 0)"

text \<open>
  AddLog takes the next request of the channel. Under the lock it appends the entry to the leader's own
  log and collects the connected peers: \<open>Inl\<close> means the request is resolved as failed at once;
  \<open>Inr\<close> is the request to send, the peers, and the number of nodes.
\<close>

definition addlog_begin :: "disk_env \<Rightarrow> Node \<Rightarrow> RawAppendRequest \<Rightarrow> (unit + AppendRequest \<times> State list \<times> nat) \<times> Node" where
  "addlog_begin env n req =
     (if st_role (n_state n) \<noteq> Leader then (Inl (), n)
      else
        let currentTerm = st_currentTerm (n_state n);
            nextIdx = wrap64 (h_prevIndex (n_FileHandler n) + 1);
            prevLogIndex = wrap64 (nextIdx - 1);
            prevLogTerm = getPrevLogTerm (n_FileHandler n) prevLogIndex;
            logEntry = \<lparr>le_Index = nextIdx, le_Term = currentTerm, le_SchedulerID = rq_SchedulerId req, le_Payload = rq_Payload req\<rparr>
        in case Append env (n_FileHandler n) logEntry of
             (Some _, h) \<Rightarrow> (Inl (), n\<lparr>n_FileHandler := h\<rparr>)
           | (None, h) \<Rightarrow>
               (Inr (\<lparr>aq_OriginNodeId = st_id (n_state n), aq_RequestId = rq_RequestId req, aq_Term = currentTerm,
                  aq_Index = nextIdx, aq_PrevLogTerm = prevLogTerm, aq_PrevLogIndex = prevLogIndex,
                  aq_SchedulerId = rq_SchedulerId req, aq_Payload = rq_Payload req\<rparr>,
                filter st_connected (Peers n), length (peer_map n) + 1), n\<lparr>n_FileHandler := h\<rparr>))"

text \<open>
  What happens to one peer. A peer in a catch-up is only waited for: it counts when its catch-up
  goroutine ended within the time-out, however it ended. Otherwise the request is sent.
\<close>

datatype peer_outcome = CatchupEnded | CatchupTimeout | RpcFailed | Responded AppendResponse

definition handleAppendSuccess :: "int \<Rightarrow> nat \<Rightarrow> int \<times> bool" where
  "handleAppendSuccess acks majority = (let currentAcks = wrap64 (acks + 1) in (currentAcks, currentAcks \<ge> int majority))"

text \<open>A rejection steps down on a newer term and otherwise starts a catch-up (\<open>True\<close>).\<close>

definition handleAppendRejection :: "tick \<Rightarrow> Node \<Rightarrow> AppendResponse \<Rightarrow> bool \<times> Node" where
  "handleAppendRejection tk n resp =
     (case checkStepDown tk n (ar_PrevLogTerm resp) of (True, n1) \<Rightarrow> (False, n1) | (False, n1) \<Rightarrow> (True, n1))"

text \<open>One peer's goroutine: the acknowledgements, the node, and whether it starts a catch-up.\<close>

definition addlog_peer :: "tick \<Rightarrow> nat \<Rightarrow> peer_outcome \<Rightarrow> int \<times> Node \<Rightarrow> (int \<times> Node) \<times> bool" where
  "addlog_peer tk majority res an =
     (case an of (acks, n) \<Rightarrow>
        case res of
          CatchupEnded \<Rightarrow> ((fst (handleAppendSuccess acks majority), n), False)
        | CatchupTimeout \<Rightarrow> ((acks, n), False)
        | RpcFailed \<Rightarrow> ((acks, n), True)
        | Responded resp \<Rightarrow>
            if ar_Status resp = APPEND_RESPONSE_SUCCESS then ((fst (handleAppendSuccess acks majority), n), False)
            else if ar_Status resp = APPEND_RESPONSE_BAD_PAYLOAD \<or> ar_Status resp = APPEND_RESPONSE_NEEDS_SNAPSHOT
            then (case handleAppendRejection tk n resp of (lag, n1) \<Rightarrow> ((acks, n1), lag))
            else ((acks, n), False))"

fun addlog_peers :: "tick \<Rightarrow> nat \<Rightarrow> peer_outcome list \<Rightarrow> int \<times> Node \<Rightarrow> int \<times> Node" where
  "addlog_peers tk majority [] an = an"
| "addlog_peers tk majority (res # rs) an = addlog_peers tk majority rs (fst (addlog_peer tk majority res an))"

text \<open>
  The end of the round: the outcomes that arrived before the quorum channel was closed decide; then the
  commit index and the answer to the client. \<open>None\<close>: the registry blocks.
\<close>

definition addlog_finish :: "nat \<Rightarrow> int \<Rightarrow> int \<Rightarrow> string \<Rightarrow> Node \<Rightarrow> bool \<times> Node option" where
  "addlog_finish majority acks nextIdx requestId n =
     (let result = (acks \<ge> int majority);
          n = (if result \<and> nextIdx > n_commitIndex n then n\<lparr>n_commitIndex := nextIdx\<rparr> else n)
      in (result, map_option (\<lambda>r. n\<lparr>n_reqRegistry := r\<rparr>) (Resolve (n_reqRegistry n) requestId result)))"

definition addlog_majority :: "nat \<Rightarrow> nat" where
  "addlog_majority totalNodes = totalNodes div 2 + 1"

text \<open>A round of AddLog, with the outcomes of the connected peers in the order in which they arrive.\<close>

definition AddLog :: "disk_env \<Rightarrow> tick \<Rightarrow> (AppendRequest \<Rightarrow> State list \<Rightarrow> peer_outcome list) \<Rightarrow> Node \<Rightarrow> RawAppendRequest \<Rightarrow>
    bool \<times> Node option" where
  "AddLog env tk outcomes n req =
     (case addlog_begin env n req of
        (Inl _, n1) \<Rightarrow> (False, map_option (\<lambda>r. n1\<lparr>n_reqRegistry := r\<rparr>) (Resolve (n_reqRegistry n1) (rq_RequestId req) False))
      | (Inr (areq, peers, tot), n1) \<Rightarrow>
          (case addlog_peers tk (addlog_majority tot) (outcomes areq peers) (1, n1) of (acks, n2) \<Rightarrow>
             addlog_finish (addlog_majority tot) acks (aq_Index areq) (rq_RequestId req) n2))"

subsection \<open>Catching up a peer\<close>

text \<open>
  resolvePeerLag keeps \<^verbatim>\<open>targetIndex\<close> and \<^verbatim>\<open>status\<close>. One iteration reads the leader's state and either
  stops, streams the snapshot, or sends one request; the response gives the next iteration.
\<close>

datatype lag_action = LagStop | LagSnapshot int int | LagSend AppendRequest

definition lag_start :: "int \<Rightarrow> int" where
  "lag_start failedIndex = (let targetIndex = wrap64 (failedIndex - 1) in if targetIndex < 1 then 1 else targetIndex)"

definition lag_next :: "Node \<Rightarrow> int \<Rightarrow> AppendResponseStatus \<Rightarrow> lag_action" where
  "lag_next n targetIndex st =
     (if st_role (n_state n) \<noteq> Leader then LagStop
      else
        let h = n_FileHandler n; leaderLastIndex = h_prevIndex h in
        if targetIndex > leaderLastIndex then LagStop
        else if st = APPEND_RESPONSE_NEEDS_SNAPSHOT \<or> targetIndex \<le> h_discIndex h
        then LagSnapshot (h_discIndex h) (h_discTerm h)
        else
          let prevLogIndex = wrap64 (targetIndex - 1);
              endIndex = wrap64 (targetIndex + 1);
              endIndex = (if endIndex > wrap64 (leaderLastIndex + 1) then wrap64 (leaderLastIndex + 1) else endIndex)
          in case scan_entries (Entries h prevLogIndex endIndex) prevLogIndex targetIndex (getPrevLogTerm h prevLogIndex) of
               (prevLogTerm, payload, reqIndex, reqSchedulerID) \<Rightarrow>
                 LagSend \<lparr>aq_OriginNodeId = st_id (n_state n), aq_RequestId = '''', aq_Term = st_currentTerm (n_state n),
                   aq_Index = reqIndex, aq_PrevLogTerm = prevLogTerm, aq_PrevLogIndex = prevLogIndex,
                   aq_SchedulerId = reqSchedulerID, aq_Payload = payload\<rparr>)"

text \<open>The response to a request: \<open>None\<close> when the loop returns.\<close>

definition lag_response :: "tick \<Rightarrow> Node \<Rightarrow> int \<Rightarrow> AppendResponseStatus \<Rightarrow> AppendResponse \<Rightarrow>
    (int \<times> AppendResponseStatus) option \<times> Node" where
  "lag_response tk n targetIndex st resp =
     (if ar_Status resp = APPEND_RESPONSE_SUCCESS then (Some (wrap64 (targetIndex + 1), APPEND_RESPONSE_SUCCESS), n)
      else if ar_Status resp = APPEND_RESPONSE_BAD_PAYLOAD \<or> ar_Status resp = APPEND_RESPONSE_NEEDS_SNAPSHOT
      then
        (case checkStepDown tk n (ar_PrevLogTerm resp) of
           (True, n1) \<Rightarrow> (None, n1)
         | (False, n1) \<Rightarrow>
             if ar_Status resp = APPEND_RESPONSE_BAD_PAYLOAD
             then
               let t = (if ar_PrevLogIndex resp \<ge> 0 \<and> ar_PrevLogIndex resp < wrap64 (targetIndex - 1)
                        then wrap64 (ar_PrevLogIndex resp + 1) else wrap64 (targetIndex - 1))
               in (if t < 1 then None else Some (t, ar_Status resp), n1)
             else (Some (targetIndex, ar_Status resp), n1))
      else (Some (targetIndex, st), n))"

subsection \<open>Streaming a snapshot\<close>

text \<open>
  The frames sendSnapshotToPeer sends for a file of \<open>tot\<close> bytes, read in blocks of
  \<^verbatim>\<open>chunkSize\<close>; the loop ends after the frame marked done or at the end of the file.
\<close>

function snapshot_frames :: "nat \<Rightarrow> nat \<Rightarrow> bytes \<Rightarrow> nat \<Rightarrow> (nat \<times> bytes \<times> bool) list" where
  "snapshot_frames chunkSize tot rest offset =
     (let buf = take chunkSize rest in
      if buf = [] then []
      else
        let isDone = (offset + length buf \<ge> tot)
        in (offset, buf, isDone) # (if isDone then [] else snapshot_frames chunkSize tot (drop chunkSize rest) (offset + length buf)))"
  by pat_completeness auto
termination
  by (relation "measure (\<lambda>(_, _, rest, _). length rest)") (auto simp: Let_def split: if_splits)

declare snapshot_frames.simps [simp del]

definition frame_request :: "Node \<Rightarrow> int \<Rightarrow> int \<Rightarrow> nat \<times> bytes \<times> bool \<Rightarrow> InstallSnapshotRequest" where
  "frame_request n lastIncludedIndex lastIncludedTerm fr =
     (case fr of (offset, buf, isDone) \<Rightarrow>
        \<lparr>iq_LeaderId = st_id (n_state n), iq_Term = st_currentTerm (n_state n), iq_LastIncludedIndex = lastIncludedIndex,
         iq_LastIncludedTerm = lastIncludedTerm, iq_Offset = int offset, iq_Data = buf, iq_Done = isDone\<rparr>)"

definition chunkSize :: nat where "chunkSize = 64 * 1024"

text \<open>
  The stream to one peer: the peer's handler answers each frame; a failed RPC, an error of the peer or a
  newer term ends it (\<open>False\<close>).
\<close>

fun send_frames :: "tick \<Rightarrow> int \<Rightarrow> int \<Rightarrow> (nat \<times> bytes \<times> bool) list \<Rightarrow> (Node \<Rightarrow> InstallSnapshotRequest \<Rightarrow> (store_error + int) \<times> Node) \<Rightarrow>
    Node \<Rightarrow> Node \<Rightarrow> bool \<times> Node \<times> Node" where
  "send_frames tk li lt [] rpc n peer = (True, n, peer)"
| "send_frames tk li lt (fr # frs) rpc n peer =
     (case rpc peer (frame_request n li lt fr) of
        (Inl _, peer1) \<Rightarrow> (False, n, peer1)
      | (Inr respTerm, peer1) \<Rightarrow>
          (case checkStepDown tk n respTerm of
             (True, n1) \<Rightarrow> (False, n1, peer1)
           | (False, n1) \<Rightarrow> send_frames tk li lt frs rpc n1 peer1))"

definition sendSnapshotToPeer :: "disk_env \<Rightarrow> tick \<Rightarrow> (Node \<Rightarrow> InstallSnapshotRequest \<Rightarrow> (store_error + int) \<times> Node) \<Rightarrow>
    Node \<Rightarrow> Node \<Rightarrow> int \<Rightarrow> int \<Rightarrow> bool \<times> Node \<times> Node" where
  "sendSnapshotToPeer env tk rpc n peer lastIncludedIndex lastIncludedTerm =
     (case SnapshotReader env (n_FileHandler n) of
        Inl _ \<Rightarrow> (False, n, peer)
      | Inr (reader, tot) \<Rightarrow>
          send_frames tk lastIncludedIndex lastIncludedTerm (snapshot_frames chunkSize (nat tot) reader 0) rpc n peer)"

text \<open>
  The catch-up of a peer by a leader, the peer's handlers answering on a disk that does not fail. It may
  run for ever: \<open>None\<close> when the fuel is used up.
\<close>

fun resolvePeerLag :: "nat \<Rightarrow> tick \<Rightarrow> int \<Rightarrow> AppendResponseStatus \<Rightarrow> Node \<Rightarrow> Node \<Rightarrow> (Node \<times> Node) option" where
  "resolvePeerLag 0 tk t st n peer = None"
| "resolvePeerLag (Suc fuel) tk t st n peer =
     (case lag_next n t st of
        LagStop \<Rightarrow> Some (n, peer)
      | LagSnapshot discIndex discTerm \<Rightarrow>
          (case sendSnapshotToPeer disk_ok tk (\<lambda>p req. InstallSnapshot disk_ok tk p req) n peer discIndex discTerm of
             (False, n1, peer1) \<Rightarrow> Some (n1, peer1)
           | (True, n1, peer1) \<Rightarrow> resolvePeerLag fuel tk (wrap64 (discIndex + 1)) APPEND_RESPONSE_SUCCESS n1 peer1)
      | LagSend req \<Rightarrow>
          (case AppendEntries (\<lambda>_. disk_ok) tk peer req of (resp, peer1) \<Rightarrow>
             case lag_response tk n t st resp of
               (None, n1) \<Rightarrow> Some (n1, peer1)
             | (Some (t1, st1), n1) \<Rightarrow> resolvePeerLag fuel tk t1 st1 n1 peer1))"

subsection \<open>Example nodes\<close>

definition demo_leader :: "int \<Rightarrow> Handler \<Rightarrow> Node" where
  "demo_leader t h = (NewNode \<lparr>tk_now = 0, tk_rand = 0\<rparr> 0 ''a'' ''addr'' h)\<lparr>n_state :=
     SetCurrentTerm t (BecomeLeader (New 0 0 0 ''a'' ''addr''))\<rparr>"

definition demo_lagging :: Node where
  "demo_lagging = NewNode \<lparr>tk_now = 0, tk_rand = 0\<rparr> 0 ''b'' ''addr'' (fresh_store 64)"

subsection \<open>A snapshot arrives as it was sent\<close>

lemma write_at_end: "length old = off \<Longrightarrow> write_at old off new = old @ new"
  by (simp add: write_at_def)

definition tmp_is :: "Node \<Rightarrow> bytes \<Rightarrow> bool" where
  "tmp_is p pre \<longleftrightarrow> pre = [] \<or> map_of (h_disk (n_FileHandler p)) ''snapshot.tmp'' = Some pre"

lemma install_frame_more:
  assumes "st_currentTerm (n_state p) \<le> st_currentTerm (n_state n)" "tmp_is p pre"
    and "h_activeFile (n_FileHandler p) \<noteq> Some ''active.log''"
  shows "\<exists>p'. InstallSnapshot disk_ok tk p (frame_request n li lt (length pre, buf, False)) = (Inr (st_currentTerm (n_state p)), p') \<and>
    st_currentTerm (n_state p') = st_currentTerm (n_state n) \<and> tmp_is p' (pre @ buf) \<and>
    h_activeFile (n_FileHandler p') = h_activeFile (n_FileHandler p)"
  using assms
  by (cases "pre = []") (auto simp: InstallSnapshot_def Handler_InstallSnapshot_def frame_request_def tmp_is_def Let_def
      write_at_end content_def)

lemma install_frame_last:
  assumes "st_currentTerm (n_state p) \<le> st_currentTerm (n_state n)" "tmp_is p pre"
    and "h_activeFile (n_FileHandler p) \<noteq> Some ''active.log''"
  shows "\<exists>p'. InstallSnapshot disk_ok tk p (frame_request n li lt (length pre, buf, True)) = (Inr (st_currentTerm (n_state p)), p') \<and>
    st_currentTerm (n_state p') = st_currentTerm (n_state n) \<and>
    content (h_disk (n_FileHandler p')) ''active.log'' = pre @ buf \<and> h_entries (n_FileHandler p') = [] \<and>
    h_prevIndex (n_FileHandler p') = li \<and> h_prevTerm (n_FileHandler p') = lt \<and>
    h_discIndex (n_FileHandler p') = li \<and> h_discTerm (n_FileHandler p') = lt"
  using assms
  by (cases "pre = []"; cases "h_activeFile (n_FileHandler p)")
    (auto simp: InstallSnapshot_def Handler_InstallSnapshot_def frame_request_def tmp_is_def Let_def
      write_at_end content_def)

definition installed :: "Node \<Rightarrow> Node \<Rightarrow> bytes \<Rightarrow> int \<Rightarrow> int \<Rightarrow> bool" where
  "installed n p data li lt \<longleftrightarrow> st_currentTerm (n_state p) = st_currentTerm (n_state n) \<and>
     content (h_disk (n_FileHandler p)) ''active.log'' = data \<and> h_entries (n_FileHandler p) = [] \<and>
     h_prevIndex (n_FileHandler p) = li \<and> h_prevTerm (n_FileHandler p) = lt \<and>
     h_discIndex (n_FileHandler p) = li \<and> h_discTerm (n_FileHandler p) = lt"

lemma send_frames_installs:
  assumes "0 < k" "rest \<noteq> []" "total_len = length pre + length rest"
    and "st_currentTerm (n_state p) \<le> st_currentTerm (n_state n)" "tmp_is p pre"
    and "h_activeFile (n_FileHandler p) \<noteq> Some ''active.log''"
  shows "\<exists>p'. send_frames tk li lt (snapshot_frames k total_len rest (length pre)) (InstallSnapshot disk_ok tk) n p = (True, n, p') \<and>
    installed n p' (pre @ rest) li lt"
  using assms
proof (induction "length rest" arbitrary: rest pre p rule: less_induct)
  case less
  let ?buf = "take k rest"
  have buf: "?buf \<noteq> []" using less.prems by simp
  have stay: "checkStepDown tk n (st_currentTerm (n_state p)) = (False, n)"
    using less.prems(4) by (simp add: checkStepDown_def)
  show ?case
  proof (cases "length rest \<le> k")
    case True
    then have frames: "snapshot_frames k total_len rest (length pre) = [(length pre, rest, True)]"
      using less.prems by (subst snapshot_frames.simps) (simp add: Let_def)
    from install_frame_last [OF less.prems(4-6), of tk li lt rest] stay show ?thesis
      by (auto simp: frames installed_def)
  next
    case False
    then have frames: "snapshot_frames k total_len rest (length pre) =
        (length pre, ?buf, False) # snapshot_frames k total_len (drop k rest) (length (pre @ ?buf))"
      using less.prems by (subst snapshot_frames.simps) (simp add: Let_def)
    from install_frame_more [OF less.prems(4-6), of tk li lt ?buf] obtain p1 where
      p1: "InstallSnapshot disk_ok tk p (frame_request n li lt (length pre, ?buf, False)) = (Inr (st_currentTerm (n_state p)), p1)"
      "st_currentTerm (n_state p1) = st_currentTerm (n_state n)" "tmp_is p1 (pre @ ?buf)"
      "h_activeFile (n_FileHandler p1) \<noteq> Some ''active.log''"
      using less.prems(6) by auto
    have "\<exists>p'. send_frames tk li lt (snapshot_frames k total_len (drop k rest) (length (pre @ ?buf))) (InstallSnapshot disk_ok tk) n p1 = (True, n, p') \<and>
      installed n p' ((pre @ ?buf) @ drop k rest) li lt"
      by (rule less.hyps) (use False less.prems p1 in auto)
    then show ?thesis by (simp add: frames p1 stay)
  qed
qed

text \<open>
  C18 (snapshot transfer). Streaming a snapshot file that is not empty to a peer whose term is not newer
  succeeds in finitely many frames, and the peer's \<^verbatim>\<open>active.log\<close> is byte for byte the leader's; its log
  is empty and continues at the snapshot's index and term.
\<close>

theorem snapshot_transfer:
  assumes "h_snapshotFile (n_FileHandler n) = Some (f, True)" and "content (h_disk (n_FileHandler n)) f = data" and "data \<noteq> []"
    and "st_currentTerm (n_state p) \<le> st_currentTerm (n_state n)" and "h_activeFile (n_FileHandler p) \<noteq> Some ''active.log''"
  shows "\<exists>p'. sendSnapshotToPeer disk_ok tk (InstallSnapshot disk_ok tk) n p li lt = (True, n, p') \<and>
    content (h_disk (n_FileHandler p')) ''active.log'' = data \<and> h_entries (n_FileHandler p') = [] \<and>
    h_prevIndex (n_FileHandler p') = li \<and> h_prevTerm (n_FileHandler p') = lt \<and>
    h_discIndex (n_FileHandler p') = li \<and> h_discTerm (n_FileHandler p') = lt \<and>
    st_currentTerm (n_state p') = st_currentTerm (n_state n)"
  using send_frames_installs [of chunkSize data "length data" "[]" p n tk li lt] assms
  by (auto simp: sendSnapshotToPeer_def SnapshotReader_def chunkSize_def tmp_is_def installed_def)

theorem snapshot_transfer_witness:
  "\<exists>p'. sendSnapshotToPeer disk_ok \<lparr>tk_now = 0, tk_rand = 0\<rparr> (InstallSnapshot disk_ok \<lparr>tk_now = 0, tk_rand = 0\<rparr>)
      (demo_leader 1 ((fresh_store 64)\<lparr>h_disk := [(''active.log'', [1, 2, 3])]\<rparr>)) demo_lagging 5 1 =
      (True, demo_leader 1 ((fresh_store 64)\<lparr>h_disk := [(''active.log'', [1, 2, 3])]\<rparr>), p') \<and>
    content (h_disk (n_FileHandler p')) ''active.log'' = [1, 2, 3]"
  using snapshot_transfer [of "demo_leader 1 ((fresh_store 64)\<lparr>h_disk := [(''active.log'', [1, 2, 3])]\<rparr>)" "''active.log''" "[1, 2, 3]"
      demo_lagging "\<lparr>tk_now = 0, tk_rand = 0\<rparr>" 5 1]
  by (auto simp: demo_leader_def demo_lagging_def NewNode_def New_def fresh_store_def content_def Let_def state_ops)

text \<open>A snapshot with no bytes is not sent at all, and the transfer counts as done.\<close>

lemma empty_snapshot_not_sent:
  assumes "h_snapshotFile (n_FileHandler n) = Some (f, True)" and "content (h_disk (n_FileHandler n)) f = []"
  shows "sendSnapshotToPeer disk_ok tk rpc n p li lt = (True, n, p)"
  using assms by (simp add: sendSnapshotToPeer_def SnapshotReader_def snapshot_frames.simps)

subsection \<open>A commit has a majority\<close>

definition acked :: "peer_outcome \<Rightarrow> bool" where
  "acked res = (case res of CatchupEnded \<Rightarrow> True | Responded resp \<Rightarrow> ar_Status resp = APPEND_RESPONSE_SUCCESS | _ \<Rightarrow> False)"

lemma addlog_peers_acks:
  assumes "0 \<le> a" "a + int (length rs) \<le> 9223372036854775807"
  shows "fst (addlog_peers tk m rs (a, n)) = a + int (length (filter acked rs))"
  using assms
proof (induction rs arbitrary: a n)
  case (Cons res rs)
  obtain a' n' where step: "fst (addlog_peer tk m res (a, n)) = (a', n')" by (cases "fst (addlog_peer tk m res (a, n))")
  have w: "wrap64 (a + 1) = a + 1" using Cons.prems by (intro wrap64_small) simp_all
  have "a' = (if acked res then a + 1 else a)"
    using step w by (auto simp: addlog_peer_def acked_def handleAppendSuccess_def Let_def split: peer_outcome.splits if_splits prod.splits)
  then show ?case using Cons.IH [of a' n'] Cons.prems by (simp add: step)
qed simp


definition demo_request :: RawAppendRequest where
  "demo_request = \<lparr>rq_OriginNodeId = ''s'', rq_RequestId = ''r'', rq_SchedulerId = ''sched'', rq_Payload = [9]\<rparr>"

definition demo_quorum_leader :: Node where
  "demo_quorum_leader = (demo_leader 1 demo_store)\<lparr>n_peerNodes :=
     Some [(''b'', Connected (New 0 0 0 ''b'' ''addr'')), (''c'', New 0 0 0 ''c'' ''addr'')]\<rparr>"


subsection \<open>Catching up\<close>

definition in_sync :: "Node \<Rightarrow> Node \<Rightarrow> int \<Rightarrow> bool" where
  "in_sync n p k \<longleftrightarrow> log_wf (n_FileHandler p) \<and> h_activeFile (n_FileHandler p) \<noteq> None \<and>
     st_currentTerm (n_state p) \<le> st_currentTerm (n_state n) \<and>
     h_discIndex (n_FileHandler p) = h_discIndex (n_FileHandler n) \<and> h_discTerm (n_FileHandler p) = h_discTerm (n_FileHandler n) \<and>
     h_prevIndex (n_FileHandler p) = k \<and>
     h_entries (n_FileHandler p) = filter (\<lambda>e. le_Index e \<le> k) (h_entries (n_FileHandler n))"

definition leads :: "Node \<Rightarrow> bool" where
  "leads n \<longleftrightarrow> st_role (n_state n) = Leader \<and> log_wf (n_FileHandler n) \<and> h_prevIndex (n_FileHandler n) < 9223372036854775807 \<and>
     (\<forall>e\<in>set (h_entries (n_FileHandler n)). le_Payload e \<noteq> [])"

lemma log_wf_index:
  assumes "log_wf h"
  shows "length (h_entries h) = nat (h_prevIndex h - h_discIndex h)"
    "j < length (h_entries h) \<Longrightarrow> le_Index (h_entries h ! j) = h_discIndex h + 1 + int j"
proof -
  have m: "map le_Index (h_entries h) = [h_discIndex h + 1..h_prevIndex h]" using assms by (simp add: log_wf_def)
  show len: "length (h_entries h) = nat (h_prevIndex h - h_discIndex h)" using arg_cong [OF m, of length] by simp
  show "le_Index (h_entries h ! j) = h_discIndex h + 1 + int j" if "j < length (h_entries h)"
  proof -
    have "map le_Index (h_entries h) ! j = h_discIndex h + 1 + int j" unfolding m using that len by (simp add: nth_upto)
    then show ?thesis using that by simp
  qed
qed

lemma log_wf_nth:
  assumes wf: "log_wf h" and k: "h_discIndex h \<le> k" "k < h_prevIndex h"
  obtains pre e post where "h_entries h = pre @ e # post" "le_Index e = k + 1"
    "filter (\<lambda>x. le_Index x \<le> k) (h_entries h) = pre" "filter (\<lambda>x. le_Index x \<le> k + 1) (h_entries h) = pre @ [e]"
    "filter (\<lambda>x. k \<le> le_Index x \<and> le_Index x < k + 1) (h_entries h) = (if pre = [] then [] else [last pre])"
    "filter (\<lambda>x. k \<le> le_Index x \<and> le_Index x < k + 2) (h_entries h) = (if pre = [] then [] else [last pre]) @ [e]"
    "pre = [] \<longleftrightarrow> k = h_discIndex h" "pre \<noteq> [] \<Longrightarrow> le_Index (last pre) = k"
proof -
  let ?es = "h_entries h" and ?i = "nat (k - h_discIndex h)"
  note idx = log_wf_index [OF wf]
  have i: "?i < length ?es" using idx(1) k by simp
  define pre e post where "pre = take ?i ?es" and "e = ?es ! ?i" and "post = drop (Suc ?i) ?es"
  have es: "?es = pre @ e # post" using id_take_nth_drop [OF i] by (simp add: pre_def e_def post_def)
  have e: "le_Index e = k + 1" using idx(2) [OF i] k by (simp add: e_def)
  have nil: "pre = [] \<longleftrightarrow> k = h_discIndex h" using i k by (auto simp: pre_def)
  have post: "k + 1 < le_Index x" if "x \<in> set post" for x
    using that idx(2) k by (auto simp: post_def in_set_conv_nth)
  have last: "le_Index (last pre) = k" if "pre \<noteq> []"
    using that i idx(2) [of "?i - 1"] by (simp add: pre_def last_conv_nth nil) (use k nil that in auto)
  have but: "le_Index x < k" if "x \<in> set (butlast pre)" for x
    using that idx(2) k i by (auto simp: pre_def in_set_conv_nth nth_butlast)
  have drops: "filter (\<lambda>x. le_Index x \<le> k) post = []" "filter (\<lambda>x. le_Index x \<le> k + 1) post = []"
    "filter (\<lambda>x. k \<le> le_Index x \<and> le_Index x < k + 1) post = []" "filter (\<lambda>x. k \<le> le_Index x \<and> le_Index x < k + 2) post = []"
    using post by (force simp: filter_empty_conv)+
  have le: "le_Index x \<le> k" if "x \<in> set pre" for x
    using that but last by (cases pre rule: rev_cases) force+
  have keeps: "filter (\<lambda>x. le_Index x \<le> k) pre = pre" "filter (\<lambda>x. le_Index x \<le> k + 1) pre = pre"
    using le by (force simp: filter_id_conv)+
  have ends: "filter (\<lambda>x. k \<le> le_Index x \<and> le_Index x < k + 1) pre = (if pre = [] then [] else [last pre])"
    "filter (\<lambda>x. k \<le> le_Index x \<and> le_Index x < k + 2) pre = (if pre = [] then [] else [last pre])"
    using but last by (cases pre rule: rev_cases; force simp: filter_empty_conv)+
  show thesis
    by (rule that [OF es e _ _ _ _ nil last]) (simp_all add: es e drops keeps ends del: zle_add1_eq_le)
qed

lemma leads_Entries:
  assumes "leads n" and "h_discIndex (n_FileHandler n) \<le> k" and "k < h_prevIndex (n_FileHandler n)" and "0 \<le> j" "j \<le> 2"
  shows "Entries (n_FileHandler n) k (k + j) = filter (\<lambda>x. k \<le> le_Index x \<and> le_Index x < k + j) (h_entries (n_FileHandler n))"
  using assms by (intro Entries_filter) (auto simp: leads_def log_wf_def in_int64_def)

lemma lag_next_sends:
  assumes L: "leads n" and k: "h_discIndex (n_FileHandler n) \<le> k" "k < h_prevIndex (n_FileHandler n)"
    and st: "st \<noteq> APPEND_RESPONSE_NEEDS_SNAPSHOT"
  obtains pre e post where "h_entries (n_FileHandler n) = pre @ e # post" "le_Index e = k + 1"
    "filter (\<lambda>x. le_Index x \<le> k) (h_entries (n_FileHandler n)) = pre"
    "filter (\<lambda>x. le_Index x \<le> k + 1) (h_entries (n_FileHandler n)) = pre @ [e]"
    "lag_next n (k + 1) st = LagSend \<lparr>aq_OriginNodeId = st_id (n_state n), aq_RequestId = '''', aq_Term = st_currentTerm (n_state n),
       aq_Index = k + 1, aq_PrevLogTerm = last (h_discTerm (n_FileHandler n) # map le_Term pre), aq_PrevLogIndex = k,
       aq_SchedulerId = le_SchedulerID e, aq_Payload = le_Payload e\<rparr>"
proof -
  let ?h = "n_FileHandler n"
  have wf: "log_wf ?h" and role: "st_role (n_state n) = Leader" and top: "h_prevIndex ?h < 9223372036854775807"
    and lo: "0 \<le> h_discIndex ?h" "in_int64 (h_prevIndex ?h)"
    using L by (auto simp: leads_def log_wf_def)
  from log_wf_nth [OF wf k] obtain pre e post where es: "h_entries ?h = pre @ e # post" and e: "le_Index e = k + 1"
    and f: "filter (\<lambda>x. le_Index x \<le> k) (h_entries ?h) = pre" "filter (\<lambda>x. le_Index x \<le> k + 1) (h_entries ?h) = pre @ [e]"
    and g: "filter (\<lambda>x. k \<le> le_Index x \<and> le_Index x < k + 1) (h_entries ?h) = (if pre = [] then [] else [last pre])"
      "filter (\<lambda>x. k \<le> le_Index x \<and> le_Index x < k + 2) (h_entries ?h) = (if pre = [] then [] else [last pre]) @ [e]"
    and nil: "pre = [] \<longleftrightarrow> k = h_discIndex ?h" and lst: "pre \<noteq> [] \<Longrightarrow> le_Index (last pre) = k" by blast
  have w: "wrap64 k = k" "wrap64 (2 + k) = 2 + k" "wrap64 (k + 1) = k + 1" "wrap64 (h_prevIndex ?h + 1) = h_prevIndex ?h + 1"
    using k lo top by (simp_all add: wrap64_small in_int64_def)
  have E: "Entries ?h k (k + 1) = (if pre = [] then [] else [last pre])" "Entries ?h k (2 + k) = (if pre = [] then [] else [last pre]) @ [e]"
    using leads_Entries [OF L k, of 1] leads_Entries [OF L k, of 2] g by (simp_all add: add.commute [of 2])
  have pt: "getPrevLogTerm ?h k = last (h_discTerm ?h # map le_Term pre)"
    using nil k lo by (auto simp: getPrevLogTerm_def w E last_map)
  have "lag_next n (k + 1) st = LagSend \<lparr>aq_OriginNodeId = st_id (n_state n), aq_RequestId = '''', aq_Term = st_currentTerm (n_state n),
       aq_Index = k + 1, aq_PrevLogTerm = last (h_discTerm ?h # map le_Term pre), aq_PrevLogIndex = k,
       aq_SchedulerId = le_SchedulerID e, aq_Payload = le_Payload e\<rparr>"
    using role st k e lst
    by (auto simp: lag_next_def Let_def w E pt scan_entries_def last_map)
  from that [OF es e f this] show thesis .
qed

lemma AppendEntries_next:
  assumes wf: "log_wf (n_FileHandler p)" and f: "h_activeFile (n_FileHandler p) \<noteq> None"
    and t: "st_currentTerm (n_state p) \<le> aq_Term req"
    and prev: "aq_PrevLogIndex req = h_prevIndex (n_FileHandler p)" "aq_PrevLogTerm req = h_prevTerm (n_FileHandler p)"
    and idx: "aq_Index req = h_prevIndex (n_FileHandler p) + 1" "in_int64 (aq_Index req)" and payload: "aq_Payload req \<noteq> []"
  obtains resp p' where "AppendEntries (\<lambda>_. disk_ok) tk p req = (resp, p')" "ar_Status resp = APPEND_RESPONSE_SUCCESS"
    "log_wf (n_FileHandler p')" "h_activeFile (n_FileHandler p') \<noteq> None" "st_currentTerm (n_state p') = aq_Term req"
    "h_entries (n_FileHandler p') = h_entries (n_FileHandler p) @ [entry_of_request req]"
    "h_prevIndex (n_FileHandler p') = aq_Index req"
    "h_discIndex (n_FileHandler p') = h_discIndex (n_FileHandler p)" "h_discTerm (n_FileHandler p') = h_discTerm (n_FileHandler p)"
proof -
  let ?h = "n_FileHandler p" and ?e = "entry_of_request req"
  have "wrap64 (h_prevIndex ?h + 1) = h_prevIndex ?h + 1" using idx by simp
  then obtain h' where a: "Append disk_ok ?h ?e = (None, h')" "h_activeFile h' = h_activeFile ?h"
    using f idx by (auto simp: Append_def entry_of_request_def Let_def)
  have app: "AppendEntries (\<lambda>_. disk_ok) tk p req = (\<lparr>ar_RequestId = aq_RequestId req, ar_Status = APPEND_RESPONSE_SUCCESS,
      ar_PrevLogTerm = st_currentTerm (n_state p), ar_PrevLogIndex = h_prevIndex ?h, ar_LeaderAddress = leader_address p\<rparr>,
      p\<lparr>n_state := follow tk (n_state p) req, n_FileHandler := h'\<rparr>)"
    using t prev payload a by (simp add: AppendEntries_def append_entry_def Let_def)
  have i64: "in_int64 (le_Index ?e)" using idx by (simp add: entry_of_request_def)
  note post = Append_None [OF wf i64 a(1)]
  have disc: "h_discIndex h' = h_discIndex ?h" "h_discTerm h' = h_discTerm ?h" using Append_fields(1,2) [of disk_ok ?h ?e] a by simp_all
  show thesis
    by (rule that [OF app]) (use post disc a f t in \<open>auto simp: entry_of_request_def follow_def Let_def\<close>)
qed



text \<open>
  Finding: entries of earlier terms are not replicated. The leader sends every entry with its own
  current term and the follower stores that term. Here a leader of term 2 holds two entries of term 1 and a
  fresh follower catches up: the second entry fails the previous-term check, the rollback truncates
  the follower's first entry, and the loop gives up with an empty log on the follower that still
  claims index 1.
\<close>

lemma old_term_entries_lost:
  "case resolvePeerLag 10 \<lparr>tk_now = 0, tk_rand = 0\<rparr> 1 APPEND_RESPONSE_BAD_PAYLOAD (demo_leader 2 demo_store2) demo_lagging of
     None \<Rightarrow> False
   | Some (n, p) \<Rightarrow> st_role (n_state n) = Leader \<and> h_entries (n_FileHandler n) = [demo_log_entry 1, demo_log_entry 2] \<and>
       h_entries (n_FileHandler p) = [] \<and> h_prevIndex (n_FileHandler p) = 1"
  by code_simp

end
