(* ===== verification/RaftNetwork.thy ===== *)
theory RaftNetwork
  imports RaftElection RaftReplication
begin

section \<open>A network of Raft nodes\<close>

text \<open>
  The nodes of RaftElection together with the messages they exchange. A request that was sent stays in
  the network: it may reach any other node, late, several times, or never. An action is one step of a
  goroutine (a phase of StartElection, the leader's part of AddLog, a heartbeat, a round of the catch-up, a frame of
  a snapshot, a half of StoreSnapshot) or one request handled by its receiver; \<open>net_do\<close> performs it, and
  \<open>None\<close> means that it is not possible. Every node knows all the others of the fixed membership \<open>M\<close>.

  The network remembers the answers that matter: pre-votes and votes granted, and entries acknowledged. A
  request of a heartbeat or of a catch-up is built in one step; the code reads the log right after it released the mutex.
\<close>

record network = cluster +
  nt_votereqs :: "VoteRequest set"
  nt_prevotes :: "(string \<times> int \<times> string) set"
  nt_sent :: "AppendRequest set"
  nt_acked :: "(string \<times> AppendRequest) set"
  nt_frames :: "InstallSnapshotRequest set"
  nt_plans :: "string \<Rightarrow> snapshot_plan option"

type_synonym answers = "(string \<times> VoteResponse option \<times> Role \<times> int) list"

datatype net_action =
    StartBegin string tick
  | StartFormal string tick int answers
  | StartSingle string tick
  | StartWin string int answers
  | AskVote string tick VoteRequest
  | StepDown string tick int
  | AddEntry string disk_env RawAppendRequest
  | Commit string "string list" AppendRequest
  | SendHeartbeat string string int
  | SendCatchup string int AppendResponseStatus
  | HandleAppend string "nat \<Rightarrow> disk_env" tick AppendRequest
  | SnapshotBegin string "bytes \<Rightarrow> genericPayload option"
  | SnapshotFinish string disk_env
  | SendFrame string "nat \<times> bytes \<times> bool"
  | HandleFrame string disk_env tick InstallSnapshotRequest

definition send :: "AppendRequest \<Rightarrow> network \<Rightarrow> network" where
  "send req c = c\<lparr>nt_sent := insert req (nt_sent c)\<rparr>"

text \<open>The answers a candidate of term \<open>t\<close> may count: one per other node, a positive one only if it was given.\<close>

definition answers_ok :: "string set \<Rightarrow> string \<Rightarrow> int \<Rightarrow> (string \<times> int \<times> string) set \<Rightarrow> answers \<Rightarrow> bool" where
  "answers_ok M v t given rs \<longleftrightarrow> distinct (map fst rs) \<and> fst ` set rs \<subseteq> M - {v} \<and>
     (\<forall>(w, resp, _) \<in> set rs. (case resp of None \<Rightarrow> True | Some p \<Rightarrow> vp_Vote p \<longrightarrow> (w, t, v) \<in> given))"

definition do_begin :: "string \<Rightarrow> tick \<Rightarrow> network \<Rightarrow> network" where
  "do_begin v tk c =
     (case election_begin tk (cl_nodes c v) of
        (None, n) \<Rightarrow> put_node v n c
      | (Some req, n) \<Rightarrow> (put_node v n c)\<lparr>nt_votereqs := insert req (nt_votereqs c)\<rparr>)"

definition do_formal :: "string set \<Rightarrow> string \<Rightarrow> tick \<Rightarrow> int \<Rightarrow> answers \<Rightarrow> network \<Rightarrow> network option" where
  "do_formal M v tk old rs c =
     (if in_int64 (old + 1) \<and> answers_ok M v (old + 1) (nt_prevotes c) rs \<and>
         sendVoteRequests (majorityNeeded (card M - 1)) Follower old (map snd rs)
      then (case election_formal tk old (cl_nodes c v) of
              (None, n) \<Rightarrow> None
            | (Some req, n) \<Rightarrow>
                Some ((add_vote v (old + 1) v (put_node v n c))\<lparr>nt_votereqs := insert req (nt_votereqs c)\<rparr>))
      else None)"

definition do_single :: "string set \<Rightarrow> string \<Rightarrow> tick \<Rightarrow> network \<Rightarrow> network option" where
  "do_single M v tk c =
     (let old = st_currentTerm (n_state (cl_nodes c v)) in
      if M = {v} \<and> in_int64 (old + 1)
      then Some (add_vote v (old + 1) v (put_node v (election_single tk old (cl_nodes c v)) c)) else None)"

definition do_win :: "string set \<Rightarrow> string \<Rightarrow> int \<Rightarrow> answers \<Rightarrow> network \<Rightarrow> network option" where
  "do_win M v t rs c =
     (if answers_ok M v t (cl_votes c) rs \<and> sendVoteRequests (majorityNeeded (card M - 1)) Candidate t (map snd rs)
      then Some (put_node v (election_win t (cl_nodes c v)) c) else None)"

definition do_vote :: "string \<Rightarrow> tick \<Rightarrow> VoteRequest \<Rightarrow> network \<Rightarrow> network option" where
  "do_vote v tk req c =
     (if req \<in> nt_votereqs c \<and> vr_OriginNodeId req \<noteq> v
      then (case RequestVote tk (cl_nodes c v) req of (resp, n) \<Rightarrow>
              let c1 = put_node v n c in
              Some (if \<not> vp_Vote resp then c1
                    else if vr_Gossip req then c1\<lparr>nt_prevotes := insert (v, vr_Term req, vr_OriginNodeId req) (nt_prevotes c)\<rparr>
                    else add_vote v (vr_Term req) (vr_OriginNodeId req) c1))
      else None)"

definition do_add :: "string \<Rightarrow> disk_env \<Rightarrow> RawAppendRequest \<Rightarrow> network \<Rightarrow> network" where
  "do_add v env req c =
     (case addlog_begin env (cl_nodes c v) req of
        (Inl _, n) \<Rightarrow> put_node v n c
      | (Inr (areq, _, _), n) \<Rightarrow> send areq (put_node v n c))"

definition do_commit :: "string set \<Rightarrow> string \<Rightarrow> string list \<Rightarrow> AppendRequest \<Rightarrow> network \<Rightarrow> network option" where
  "do_commit M v ps req c =
     (if req \<in> nt_sent c \<and> aq_OriginNodeId req = v \<and> distinct ps \<and> set ps \<subseteq> M - {v} \<and> (\<forall>p\<in>set ps. (p, req) \<in> nt_acked c)
      then map_option (\<lambda>n. put_node v n c)
        (snd (addlog_finish (addlog_majority (card M)) (1 + int (length ps)) (aq_Index req) (aq_RequestId req) (cl_nodes c v)))
      else None)"

definition do_heartbeat :: "string \<Rightarrow> string \<Rightarrow> int \<Rightarrow> network \<Rightarrow> network option" where
  "do_heartbeat v peer ni c =
     (case dispatchHeartbeats (cl_nodes c v) of
        None \<Rightarrow> None
      | Some (leaderID, currentTerm, _) \<Rightarrow>
          (case sendHeartbeatToPeer (cl_nodes c v) peer leaderID currentTerm [(peer, ni)] of
             Some (Inr (req, _)) \<Rightarrow> Some (send req c)
           | _ \<Rightarrow> None))"

definition do_catchup :: "string \<Rightarrow> int \<Rightarrow> AppendResponseStatus \<Rightarrow> network \<Rightarrow> network option" where
  "do_catchup v targetIndex st c =
     (case lag_next (cl_nodes c v) targetIndex st of LagSend req \<Rightarrow> Some (send req c) | _ \<Rightarrow> None)"

definition do_append :: "string \<Rightarrow> (nat \<Rightarrow> disk_env) \<Rightarrow> tick \<Rightarrow> AppendRequest \<Rightarrow> network \<Rightarrow> network option" where
  "do_append v env tk req c =
     (if req \<in> nt_sent c \<and> aq_OriginNodeId req \<noteq> v
      then (case AppendEntries env tk (cl_nodes c v) req of (resp, n) \<Rightarrow>
              let c1 = put_node v n (forget_vote v req c) in
              Some (if ar_Status resp = APPEND_RESPONSE_SUCCESS then c1\<lparr>nt_acked := insert (v, req) (nt_acked c)\<rparr> else c1))
      else None)"

definition do_snapshot_begin :: "string \<Rightarrow> (bytes \<Rightarrow> genericPayload option) \<Rightarrow> network \<Rightarrow> network" where
  "do_snapshot_begin v unmarshal c =
     (case snapshot_begin unmarshal (n_FileHandler (cl_nodes c v)) of (res, h) \<Rightarrow>
        (put_node v ((cl_nodes c v)\<lparr>n_FileHandler := h\<rparr>) c)\<lparr>nt_plans := (nt_plans c)(v :=
           (case res of Inr plan \<Rightarrow> plan | Inl _ \<Rightarrow> None))\<rparr>)"

definition do_snapshot_finish :: "string \<Rightarrow> disk_env \<Rightarrow> network \<Rightarrow> network option" where
  "do_snapshot_finish v env c =
     map_option (\<lambda>plan. (put_node v ((cl_nodes c v)\<lparr>n_FileHandler := snd (snapshot_finish env (n_FileHandler (cl_nodes c v)) plan)\<rparr>) c)
       \<lparr>nt_plans := (nt_plans c)(v := None)\<rparr>) (nt_plans c v)"

definition do_frame :: "string \<Rightarrow> nat \<times> bytes \<times> bool \<Rightarrow> network \<Rightarrow> network" where
  "do_frame v fr c =
     (let n = cl_nodes c v; h = n_FileHandler n in
      c\<lparr>nt_frames := insert (frame_request n (h_discIndex h) (h_discTerm h) fr) (nt_frames c)\<rparr>)"

definition do_install :: "string \<Rightarrow> disk_env \<Rightarrow> tick \<Rightarrow> InstallSnapshotRequest \<Rightarrow> network \<Rightarrow> network option" where
  "do_install v env tk req c =
     (if req \<in> nt_frames c then Some (put_node v (snd (InstallSnapshot env tk (cl_nodes c v) req)) c) else None)"

fun actor :: "net_action \<Rightarrow> string" where
  "actor (StartBegin v _) = v" | "actor (StartFormal v _ _ _) = v" | "actor (StartSingle v _) = v" | "actor (StartWin v _ _) = v"
| "actor (AskVote v _ _) = v" | "actor (StepDown v _ _) = v" | "actor (AddEntry v _ _) = v" | "actor (Commit v _ _) = v"
| "actor (SendHeartbeat v _ _) = v" | "actor (SendCatchup v _ _) = v" | "actor (HandleAppend v _ _ _) = v"
| "actor (SnapshotBegin v _) = v" | "actor (SnapshotFinish v _) = v" | "actor (SendFrame v _) = v" | "actor (HandleFrame v _ _ _) = v"

fun net_act :: "string set \<Rightarrow> net_action \<Rightarrow> network \<Rightarrow> network option" where
  "net_act M (StartBegin v tk) c = Some (do_begin v tk c)"
| "net_act M (StartFormal v tk old rs) c = do_formal M v tk old rs c"
| "net_act M (StartSingle v tk) c = do_single M v tk c"
| "net_act M (StartWin v t rs) c = do_win M v t rs c"
| "net_act M (AskVote v tk req) c = do_vote v tk req c"
| "net_act M (StepDown v tk t) c = Some (put_node v (snd (checkStepDown tk (cl_nodes c v) t)) c)"
| "net_act M (AddEntry v env req) c = Some (do_add v env req c)"
| "net_act M (Commit v ps req) c = do_commit M v ps req c"
| "net_act M (SendHeartbeat v peer ni) c = do_heartbeat v peer ni c"
| "net_act M (SendCatchup v i st) c = do_catchup v i st c"
| "net_act M (HandleAppend v env tk req) c = do_append v env tk req c"
| "net_act M (SnapshotBegin v u) c = Some (do_snapshot_begin v u c)"
| "net_act M (SnapshotFinish v env) c = do_snapshot_finish v env c"
| "net_act M (SendFrame v fr) c = Some (do_frame v fr c)"
| "net_act M (HandleFrame v env tk req) c = do_install v env tk req c"

definition net_do :: "string set \<Rightarrow> net_action \<Rightarrow> network \<Rightarrow> network option" where
  "net_do M a c = (if actor a \<in> M \<and> actor a \<noteq> '''' then net_act M a c else None)"

fun net_run :: "string set \<Rightarrow> net_action list \<Rightarrow> network \<Rightarrow> network option" where
  "net_run M [] c = Some c"
| "net_run M (a # as) c = Option.bind (net_do M a c) (net_run M as)"

definition initial_network :: "string set \<Rightarrow> network \<Rightarrow> bool" where
  "initial_network M c \<longleftrightarrow> initial_cluster M c \<and> nt_sent c = {} \<and> nt_votereqs c = {} \<and> nt_frames c = {} \<and> (\<forall>v. nt_plans c v = None) \<and>
     (\<forall>v\<in>M. h_entries (n_FileHandler (cl_nodes c v)) = [] \<and> 0 \<le> h_prevIndex (n_FileHandler (cl_nodes c v)) \<and>
        0 \<le> h_discIndex (n_FileHandler (cl_nodes c v)))"

subsection \<open>What the operations do to a log\<close>

text \<open>The entries are in the order of their indices, and none is above the index the store reports; a failed truncation may leave a gap.\<close>

definition store_ok :: "Handler \<Rightarrow> bool" where
  "store_ok h \<longleftrightarrow> sorted_wrt (<) (map le_Index (h_entries h)) \<and>
     (\<forall>e\<in>set (h_entries h). 1 \<le> le_Index e \<and> le_Index e \<le> h_prevIndex h) \<and> 0 \<le> h_prevIndex h \<and> 0 \<le> h_discIndex h"

lemma store_ok_same_index:
  assumes "store_ok h" "e \<in> set (h_entries h)" "f \<in> set (h_entries h)" "le_Index e = le_Index f" shows "e = f"
proof -
  have "distinct (map le_Index (h_entries h))" using assms(1) by (auto simp: store_ok_def strict_sorted_iff)
  then show ?thesis using assms by (auto simp: distinct_map inj_on_def)
qed

lemma Append_store:
  assumes "store_ok h" "Append env h e = (res, h')"
  shows "store_ok h'" "set (h_entries h') \<subseteq> insert e (set (h_entries h))"
    "res \<noteq> None \<Longrightarrow> h_entries h' = h_entries h \<and> h_prevIndex h' = h_prevIndex h"
    "res = None \<Longrightarrow> h_entries h' = h_entries h @ [e] \<and> h_prevIndex h' = le_Index e \<and> h_prevIndex h < le_Index e"
  using assms by (auto simp: Append_def store_ok_def Let_def sorted_wrt_append signal_snapshot_def
      split: if_splits option.splits) force+

lemma extract_prefix: "List.extract P xs = Some (ys, x, zs) \<Longrightarrow> xs = ys @ x # zs"
  by (simp add: extract_Some_iff)

lemma TruncateLog_store:
  assumes "store_ok h" "TruncateLog env h i = (res, h')"
  shows "store_ok h'" "set (h_entries h') \<subseteq> set (h_entries h)"
proof -
  have "store_ok h' \<and> set (h_entries h') \<subseteq> set (h_entries h)"
  proof (cases "List.extract (\<lambda>entry. le_Index entry = i) (h_entries h)")
    case None
    then show ?thesis using assms by (simp add: TruncateLog_def)
  next
    case (Some x)
    obtain before y zs where x: "x = (before, y, zs)" by (cases x)
    have es: "h_entries h = before @ y # zs" using extract_prefix Some x by simp
    have b: "store_ok (h\<lparr>h_entries := before\<rparr>)" using assms(1) es by (auto simp: store_ok_def sorted_wrt_append)
    have le: "le_Index e \<le> le_Index (last before)" if "e \<in> set before" for e
      using b that by (cases before rule: rev_cases) (auto simp: store_ok_def sorted_wrt_append)
    have h': "h_entries h' = before" "h_discIndex h' = h_discIndex h"
      "h_prevIndex h' = h_prevIndex h \<or> before \<noteq> [] \<and> h_prevIndex h' = le_Index (last before)"
      using assms(2) Some x by (auto simp: TruncateLog_def Let_def split: if_splits option.splits prod.splits)
    have "0 \<le> le_Index (last before)" if "before \<noteq> []" using b last_in_set [OF that] by (force simp: store_ok_def)
    with b le h' es show ?thesis by (auto simp: store_ok_def)
  qed
  then show "store_ok h'" "set (h_entries h') \<subseteq> set (h_entries h)" by blast+
qed

lemma append_entry_store:
  assumes "store_ok h" "append_entry env h e = (st, h')"
  shows "store_ok h' \<and> set (h_entries h') \<subseteq> insert e (set (h_entries h))"
proof -
  obtain r h1 where a: "Append (env 0) h e = (r, h1)" by (cases "Append (env 0) h e")
  obtain r2 h2 where t: "TruncateLog (env 1) h1 (le_Index e) = (r2, h2)" by (cases "TruncateLog (env 1) h1 (le_Index e)")
  obtain r3 h3 where a3: "Append (env 2) h2 e = (r3, h3)" by (cases "Append (env 2) h2 e")
  note s1 = Append_store(1,2) [OF assms(1) a]
  note s2 = TruncateLog_store [OF s1(1) t]
  note s3 = Append_store(1,2) [OF s2(1) a3]
  have "h' \<in> {h1, h2, h3}" using assms(2) a t a3 by (auto simp: append_entry_def split: if_splits option.splits)
  with s1 s2 s3 show ?thesis by blast
qed

lemma snapshot_begin_store:
  assumes "snapshot_begin u h = (res, h')"
  shows "h_entries h' = h_entries h" "h_prevIndex h' = h_prevIndex h" "h_discIndex h' = h_discIndex h"
    "store_ok h \<Longrightarrow> res = Inr (Some plan) \<Longrightarrow> 1 \<le> sn_lastIndex plan"
  using assms by (auto simp: snapshot_begin_def Let_def store_ok_def split: if_splits)

lemma snapshot_finish_store:
  assumes "store_ok h" "1 \<le> sn_lastIndex plan"
  shows "store_ok (snd (snapshot_finish env h plan))" "set (h_entries (snd (snapshot_finish env h plan))) \<subseteq> set (h_entries h)"
    "h_prevIndex (snd (snapshot_finish env h plan)) = h_prevIndex h"
proof -
  let ?h = "snd (snapshot_finish env h plan)"
  have "(h_entries ?h = h_entries h \<or> h_entries ?h = filter (\<lambda>e. le_Index e > sn_cutoffIndex plan) (h_entries h)) \<and>
      h_prevIndex ?h = h_prevIndex h \<and> (h_discIndex ?h = h_discIndex h \<or> h_discIndex ?h = sn_lastIndex plan)"
    by (auto simp: snapshot_finish_def rotateFile_def Let_def split: if_splits prod.splits)
  moreover have "sorted_wrt (<) (map le_Index (filter P (h_entries h)))" for P
    using assms(1) by (auto simp: store_ok_def sorted_wrt_map intro: sorted_wrt_filter)
  ultimately show "store_ok ?h" "set (h_entries ?h) \<subseteq> set (h_entries h)" "h_prevIndex ?h = h_prevIndex h"
    using assms by (auto simp: store_ok_def)
qed

lemma Handler_InstallSnapshot_store:
  assumes "store_ok h" "0 \<le> li" "Handler_InstallSnapshot env h off data dn li lt = (res, h')"
  shows "store_ok h' \<and> set (h_entries h') \<subseteq> set (h_entries h)"
  using assms by (auto simp: Handler_InstallSnapshot_def store_ok_def Let_def split: if_splits option.splits)

lemma InstallSnapshot_store:
  assumes "store_ok (n_FileHandler n)" "0 \<le> iq_LastIncludedIndex req" "InstallSnapshot env tk n req = (res, n')"
  shows "store_ok (n_FileHandler n') \<and> set (h_entries (n_FileHandler n')) \<subseteq> set (h_entries (n_FileHandler n)) \<and>
    (st_role (n_state n') = Leader \<longrightarrow> n_FileHandler n' = n_FileHandler n)"
proof -
  obtain r h where h: "Handler_InstallSnapshot env (n_FileHandler n) (iq_Offset req) (iq_Data req) (iq_Done req)
      (iq_LastIncludedIndex req) (iq_LastIncludedTerm req) = (r, h)" by fastforce
  note s = Handler_InstallSnapshot_store [OF assms(1,2) h]
  show ?thesis using assms s h
    by (cases "st_role (n_state n)") (auto simp: InstallSnapshot_def Let_def split: if_splits option.splits)
qed

lemma AppendEntries_store:
  assumes "store_ok (n_FileHandler n)" "AppendEntries env tk n req = (resp, n')"
  shows "store_ok (n_FileHandler n') \<and> set (h_entries (n_FileHandler n')) \<subseteq> insert (entry_of_request req) (set (h_entries (n_FileHandler n))) \<and>
    (st_role (n_state n') = Leader \<longrightarrow> n_FileHandler n' = n_FileHandler n)"
proof -
  have "st_role (follow tk (n_state n) req) \<noteq> Leader" by (cases "st_role (n_state n)") (auto simp: follow_def Let_def)
  moreover obtain st h where h: "append_entry env (n_FileHandler n) (entry_of_request req) = (st, h)" by fastforce
  moreover note append_entry_store [OF assms(1) h]
  ultimately show ?thesis using assms by (auto simp: AppendEntries_def Let_def split: if_splits)
qed

lemma set_Entries: "set (Entries h a b) \<subseteq> set (h_entries h)"
  by (auto simp: Entries_def Let_def dest: in_set_takeD in_set_dropD)

lemma scan_entries_data:
  assumes "scan_entries es p t pt = (pt', payload, i, sid)"
  shows "payload = [] \<and> i = 0 \<and> sid = '''' \<or> (\<exists>e\<in>set es. payload = le_Payload e \<and> i = le_Index e \<and> sid = le_SchedulerID e)"
proof -
  let ?ok = "\<lambda>(pt' :: int, payload, i, sid). payload = [] \<and> i = 0 \<and> sid = '''' \<or>
      (\<exists>e\<in>set es. payload = le_Payload e \<and> i = le_Index e \<and> sid = le_SchedulerID e)"
  have "?ok (scan_entries es p t pt)"
    unfolding scan_entries_def
    by (rule fold_invariant [where Q = "\<lambda>e. e \<in> set es"]) (auto simp: Let_def split: prod.splits)
  with assms show ?thesis by simp
qed

end
