(* ===== verification/RaftSafety.thy ===== *)
theory RaftSafety
  imports RaftNetwork
begin

section \<open>Safety of the network of Raft nodes\<close>

text \<open>
  An invariant of every run of RaftNetwork, one lemma per action, and what follows from it for the logs; then three runs,
  of which two show what the code does not guarantee.
\<close>

subsection \<open>The invariant of the network\<close>

abbreviation node_log :: "network \<Rightarrow> string \<Rightarrow> Handler" where
  "node_log c v \<equiv> n_FileHandler (cl_nodes c v)"

text \<open>No node has voted for two candidates in one term.\<close>

definition single_votes :: "(string \<times> int \<times> string) set \<Rightarrow> bool" where
  "single_votes V \<longleftrightarrow> (\<forall>(q, t, k)\<in>V. \<forall>(q', t', k')\<in>V. q = q' \<longrightarrow> t = t' \<longrightarrow> k = k')"

text \<open>
  The parts: every entry of a log was sent by a leader; a request comes from the node elected in its
  term, which is not a candidate of that term any more; a leader has every index it sent, with the data
  it sent; two requests of the same term and index carry the same data.
\<close>

definition logs_ok :: "string set \<Rightarrow> network \<Rightarrow> bool" where
  "logs_ok M c \<longleftrightarrow> (\<forall>v\<in>M. store_ok (node_log c v) \<and> set (h_entries (node_log c v)) \<subseteq> entry_of_request ` nt_sent c)"

definition origins_ok :: "string set \<Rightarrow> network \<Rightarrow> bool" where
  "origins_ok M c \<longleftrightarrow> (\<forall>r\<in>nt_sent c. aq_OriginNodeId r \<in> M \<and> mq.elected M (cl_votes c) (aq_Term r) (aq_OriginNodeId r) \<and>
     (aq_Index r = 0 \<longrightarrow> aq_SchedulerId r = '''' \<and> aq_Payload r = []) \<and>
     (let s = n_state (cl_nodes c (aq_OriginNodeId r)) in
      aq_Term r < st_currentTerm s \<or> aq_Term r = st_currentTerm s \<and> st_role s \<noteq> Candidate))"

definition leaders_ok :: "string set \<Rightarrow> network \<Rightarrow> bool" where
  "leaders_ok M c \<longleftrightarrow> (\<forall>v\<in>M. st_role (n_state (cl_nodes c v)) = Leader \<longrightarrow>
     (\<forall>r\<in>nt_sent c. aq_Term r = st_currentTerm (n_state (cl_nodes c v)) \<longrightarrow> aq_Index r \<le> h_prevIndex (node_log c v) \<and>
       (\<forall>e\<in>set (h_entries (node_log c v)). le_Index e = aq_Index r \<longrightarrow>
          le_SchedulerID e = aq_SchedulerId r \<and> le_Payload e = aq_Payload r)))"

definition requests_agree :: "AppendRequest set \<Rightarrow> bool" where
  "requests_agree S \<longleftrightarrow> (\<forall>r\<in>S. \<forall>r'\<in>S. aq_Term r = aq_Term r' \<longrightarrow> aq_Index r = aq_Index r' \<longrightarrow>
     aq_SchedulerId r = aq_SchedulerId r' \<and> aq_Payload r = aq_Payload r')"

definition msgs_ok :: "network \<Rightarrow> bool" where
  "msgs_ok c \<longleftrightarrow> (\<forall>r\<in>nt_votereqs c. vr_OriginNodeId r \<noteq> '''') \<and> (\<forall>r\<in>nt_frames c. 0 \<le> iq_LastIncludedIndex r) \<and>
     (\<forall>v plan. nt_plans c v = Some plan \<longrightarrow> 1 \<le> sn_lastIndex plan)"

definition net_inv :: "string set \<Rightarrow> network \<Rightarrow> bool" where
  "net_inv M c \<longleftrightarrow> elect_inv M c \<and> logs_ok M c \<and> origins_ok M c \<and> leaders_ok M c \<and> requests_agree (nt_sent c) \<and> msgs_ok c"

lemma net_inv_elect:
  "net_inv M c \<Longrightarrow> v \<in> M \<Longrightarrow> st_id (n_state (cl_nodes c v)) = v"
  "net_inv M c \<Longrightarrow> v \<in> M \<Longrightarrow> st_role (n_state (cl_nodes c v)) = Leader \<Longrightarrow>
     mq.elected M (cl_votes c) (st_currentTerm (n_state (cl_nodes c v))) v"
  by (auto simp: net_inv_def elect_inv_def role_inv_def role_ok_def vote_invD(1))

lemma net_inv_store: "net_inv M c \<Longrightarrow> v \<in> M \<Longrightarrow> store_ok (node_log c v)"
  by (simp add: net_inv_def logs_ok_def)

lemma single_votes_iff: "single_votes V \<longleftrightarrow> (\<forall>q t k k'. (q, t, k) \<in> V \<longrightarrow> (q, t, k') \<in> V \<longrightarrow> k = k')"
  by (auto simp: single_votes_def)

lemma elected_same:
  "single_votes V \<Longrightarrow> mq.elected M V t v \<Longrightarrow> mq.elected M V t w \<Longrightarrow> v = w"
  by (rule mq.elected_unique) (auto simp: single_votes_iff)

text \<open>
  A step of one node that sends nothing. It does not become a candidate in a term it already had; when it
  leads, it led before with the same log or a compacted one, or its term is new.
\<close>

lemma node_step_inv:
  assumes inv: "net_inv M c" and el: "elect_inv M c'" and v: "v \<in> M"
    and nodes: "cl_nodes c' = (cl_nodes c)(v := n)" and votes: "cl_votes c \<subseteq> cl_votes c'" and sent: "nt_sent c' = nt_sent c"
    and msgs: "msgs_ok c'"
    and st: "st_currentTerm (n_state (cl_nodes c v)) < st_currentTerm (n_state n) \<or>
      st_currentTerm (n_state n) = st_currentTerm (n_state (cl_nodes c v)) \<and>
      (st_role (n_state n) = Candidate \<longrightarrow> st_role (n_state (cl_nodes c v)) = Candidate)"
    and store: "store_ok (n_FileHandler n)" "set (h_entries (n_FileHandler n)) \<subseteq> entry_of_request ` nt_sent c"
    and lead: "st_role (n_state n) = Leader \<Longrightarrow>
      st_role (n_state (cl_nodes c v)) = Leader \<and> st_currentTerm (n_state n) = st_currentTerm (n_state (cl_nodes c v)) \<and>
        set (h_entries (n_FileHandler n)) \<subseteq> set (h_entries (node_log c v)) \<and> h_prevIndex (n_FileHandler n) = h_prevIndex (node_log c v) \<or>
      (\<forall>r\<in>nt_sent c. aq_Term r \<noteq> st_currentTerm (n_state n))"
  shows "net_inv M c'"
proof -
  have "logs_ok M c'" using inv store by (auto simp: net_inv_def logs_ok_def nodes sent)
  moreover have "origins_ok M c'"
    unfolding origins_ok_def
  proof
    fix r assume "r \<in> nt_sent c'"
    then have "r \<in> nt_sent c" by (simp add: sent)
    then have o: "aq_OriginNodeId r \<in> M" "mq.elected M (cl_votes c) (aq_Term r) (aq_OriginNodeId r)"
      "aq_Index r = 0 \<longrightarrow> aq_SchedulerId r = '''' \<and> aq_Payload r = []"
      "let s = n_state (cl_nodes c (aq_OriginNodeId r)) in
        aq_Term r < st_currentTerm s \<or> aq_Term r = st_currentTerm s \<and> st_role s \<noteq> Candidate"
      using inv by (auto simp: net_inv_def origins_ok_def)
    moreover have "let s = n_state (cl_nodes c' (aq_OriginNodeId r)) in
        aq_Term r < st_currentTerm s \<or> aq_Term r = st_currentTerm s \<and> st_role s \<noteq> Candidate"
      using o(4) st by (auto simp: nodes Let_def)
    ultimately show "aq_OriginNodeId r \<in> M \<and> mq.elected M (cl_votes c') (aq_Term r) (aq_OriginNodeId r) \<and>
       (aq_Index r = 0 \<longrightarrow> aq_SchedulerId r = '''' \<and> aq_Payload r = []) \<and>
       (let s = n_state (cl_nodes c' (aq_OriginNodeId r)) in
        aq_Term r < st_currentTerm s \<or> aq_Term r = st_currentTerm s \<and> st_role s \<noteq> Candidate)"
      using mq.elected_mono votes by blast
  qed
  moreover have "leaders_ok M c'"
    unfolding leaders_ok_def
  proof (intro ballI impI)
    fix w r assume w: "w \<in> M" "st_role (n_state (cl_nodes c' w)) = Leader" "r \<in> nt_sent c'" "aq_Term r = st_currentTerm (n_state (cl_nodes c' w))"
    show "aq_Index r \<le> h_prevIndex (node_log c' w) \<and> (\<forall>e\<in>set (h_entries (node_log c' w)). le_Index e = aq_Index r \<longrightarrow>
          le_SchedulerID e = aq_SchedulerId r \<and> le_Payload e = aq_Payload r)"
      using inv w v lead by (cases "w = v") (auto simp: net_inv_def leaders_ok_def nodes sent)
  qed
  ultimately show ?thesis using inv el msgs by (simp add: net_inv_def sent)
qed

lemma elect_inv_cong:
  "cl_nodes c = cl_nodes d \<Longrightarrow> cl_votes c = cl_votes d \<Longrightarrow> cl_forgot c = cl_forgot d \<Longrightarrow> elect_inv M c = elect_inv M d"
  by (simp add: elect_inv_def vote_inv_def role_inv_def)

lemma requests_agree_insert:
  assumes S: "requests_agree S"
    and old: "\<And>r. r \<in> S \<Longrightarrow> aq_Term r = aq_Term req \<Longrightarrow> aq_Index r = aq_Index req \<Longrightarrow>
      aq_SchedulerId r = aq_SchedulerId req \<and> aq_Payload r = aq_Payload req"
  shows "requests_agree (insert req S)"
  unfolding requests_agree_def
proof (intro ballI impI)
  fix r r' assume r: "r \<in> insert req S" "r' \<in> insert req S" "aq_Term r = aq_Term r'" "aq_Index r = aq_Index r'"
  show "aq_SchedulerId r = aq_SchedulerId r' \<and> aq_Payload r = aq_Payload r'"
  proof (cases "r \<in> S \<and> r' \<in> S")
    case True
    then show ?thesis using S r by (simp add: requests_agree_def)
  next
    case False
    then show ?thesis using r old [of r] old [of r'] by auto
  qed
qed

text \<open>A leader sends a request, and may have appended its entry: the data of the request is that of its log, and no earlier request differs.\<close>

lemma request_inv:
  assumes inv: "net_inv M c" and sv: "single_votes (cl_votes c)" and v: "v \<in> M" and lead: "st_role (n_state (cl_nodes c v)) = Leader"
    and req: "aq_OriginNodeId req = v" "aq_Term req = st_currentTerm (n_state (cl_nodes c v))" "aq_Index req \<le> h_prevIndex (n_FileHandler n)"
      "aq_Index req = 0 \<longrightarrow> aq_SchedulerId req = '''' \<and> aq_Payload req = []"
    and n: "n_state n = n_state (cl_nodes c v)" "store_ok (n_FileHandler n)" "h_prevIndex (node_log c v) \<le> h_prevIndex (n_FileHandler n)"
      "set (h_entries (n_FileHandler n)) \<subseteq> insert (entry_of_request req) (set (h_entries (node_log c v)))"
    and own: "\<And>e. e \<in> set (h_entries (n_FileHandler n)) \<Longrightarrow> le_Index e = aq_Index req \<Longrightarrow>
      le_SchedulerID e = aq_SchedulerId req \<and> le_Payload e = aq_Payload req"
    and old: "\<And>r. r \<in> nt_sent c \<Longrightarrow> aq_Term r = aq_Term req \<Longrightarrow> aq_Index r = aq_Index req \<Longrightarrow>
      aq_SchedulerId r = aq_SchedulerId req \<and> aq_Payload r = aq_Payload req"
  shows "net_inv M (send req (put_node v n c))"
proof -
  let ?c = "send req (put_node v n c)"
  have el: "mq.elected M (cl_votes c) (aq_Term req) v" using net_inv_elect(2) [OF inv v lead] req by simp
  have states: "n_state (cl_nodes ?c w) = n_state (cl_nodes c w)" for w using n by (simp add: send_def)
  have "elect_inv M ?c"
    using inv quiet_inv [of M c v n] elect_inv_cong [of ?c "put_node v n c" M] n(1) by (simp add: net_inv_def send_def quiet_defs)
  moreover have "logs_ok M ?c" "msgs_ok ?c"
    using inv n by (auto simp: net_inv_def logs_ok_def msgs_ok_def send_def put_node_def)
  moreover have "origins_ok M ?c"
    using inv v lead req el n(1) by (auto simp: net_inv_def origins_ok_def send_def put_node_def Let_def)
  moreover have "leaders_ok M ?c"
    unfolding leaders_ok_def states
  proof (intro ballI impI)
    fix w r assume w: "w \<in> M" "st_role (n_state (cl_nodes c w)) = Leader" "r \<in> nt_sent ?c" "aq_Term r = st_currentTerm (n_state (cl_nodes c w))"
    show "aq_Index r \<le> h_prevIndex (node_log ?c w) \<and> (\<forall>e\<in>set (h_entries (node_log ?c w)). le_Index e = aq_Index r \<longrightarrow>
          le_SchedulerID e = aq_SchedulerId r \<and> le_Payload e = aq_Payload r)"
    proof (cases "w = v")
      case True
      have "aq_Index r \<le> h_prevIndex (node_log c v) \<and> (\<forall>e\<in>set (h_entries (node_log c v)). le_Index e = aq_Index r \<longrightarrow>
          le_SchedulerID e = aq_SchedulerId r \<and> le_Payload e = aq_Payload r)" if "r \<in> nt_sent c"
        using inv w True that by (simp add: net_inv_def leaders_ok_def)
      then show ?thesis
        using True w(3,4) n(3,4) req own old [of r] by (cases "r = req") (auto simp: send_def put_node_def entry_of_request_def)
    next
      case False
      then have "r \<noteq> req" using elected_same [OF sv el] net_inv_elect(2) [OF inv w(1,2)] w(4) by auto
      then show ?thesis using inv w False by (simp add: net_inv_def leaders_ok_def send_def put_node_def)
    qed
  qed
  moreover have "requests_agree (nt_sent ?c)"
    using inv old requests_agree_insert [of "nt_sent c" req] by (simp add: net_inv_def send_def put_node_def)
  ultimately show ?thesis by (simp add: net_inv_def)
qed

lemma send_inv:
  assumes inv: "net_inv M c" and sv: "single_votes (cl_votes c)" and v: "v \<in> M" and lead: "st_role (n_state (cl_nodes c v)) = Leader"
    and req: "aq_OriginNodeId req = v" "aq_Term req = st_currentTerm (n_state (cl_nodes c v))"
    and data: "aq_Payload req = [] \<and> aq_Index req = 0 \<and> aq_SchedulerId req = '''' \<or>
      (\<exists>e\<in>set (h_entries (node_log c v)). aq_Payload req = le_Payload e \<and> aq_Index req = le_Index e \<and> aq_SchedulerId req = le_SchedulerID e)"
  shows "net_inv M (send req c)"
proof -
  note st = net_inv_store [OF inv v]
  have "net_inv M (send req (put_node v (cl_nodes c v) c))"
  proof (rule request_inv [OF inv sv v lead req _ _ _ st])
    fix e assume "e \<in> set (h_entries (node_log c v))" "le_Index e = aq_Index req"
    then show "le_SchedulerID e = aq_SchedulerId req \<and> le_Payload e = aq_Payload req"
      using data st store_ok_same_index [OF st] by (force simp: store_ok_def)
  next
    fix r assume r: "r \<in> nt_sent c" "aq_Term r = aq_Term req" "aq_Index r = aq_Index req"
    from data show "aq_SchedulerId r = aq_SchedulerId req \<and> aq_Payload r = aq_Payload req"
    proof
      assume "aq_Payload req = [] \<and> aq_Index req = 0 \<and> aq_SchedulerId req = ''''"
      then show ?thesis using inv r by (auto simp: net_inv_def origins_ok_def)
    next
      assume "\<exists>e\<in>set (h_entries (node_log c v)). aq_Payload req = le_Payload e \<and> aq_Index req = le_Index e \<and> aq_SchedulerId req = le_SchedulerID e"
      then show ?thesis using inv v lead r req by (force simp: net_inv_def leaders_ok_def)
    qed
  qed (use data st in \<open>auto simp: store_ok_def\<close>)
  then show ?thesis by (simp add: put_node_def)
qed

lemma add_inv:
  assumes inv: "net_inv M c" and sv: "single_votes (cl_votes c)" and v: "v \<in> M"
    and a: "addlog_begin env (cl_nodes c v) raw = (Inr (req, x), n)"
  shows "net_inv M (send req (put_node v n c))"
proof -
  note st = net_inv_store [OF inv v]
  let ?h = "node_log c v"
  have lead: "st_role (n_state (cl_nodes c v)) = Leader"
    and req: "aq_OriginNodeId req = v" "aq_Term req = st_currentTerm (n_state (cl_nodes c v))"
    and app: "Append env ?h (entry_of_request req) = (None, n_FileHandler n)" and n: "n_state n = n_state (cl_nodes c v)"
    using a net_inv_elect(1) [OF inv v]
    by (auto simp: addlog_begin_def Let_def entry_of_request_def split: if_splits prod.splits option.splits)
  note post = Append_store(1,2,4) [OF st app]
  have idx: "h_prevIndex ?h < aq_Index req" "h_prevIndex (n_FileHandler n) = aq_Index req" "h_entries (n_FileHandler n) = h_entries ?h @ [entry_of_request req]"
    using post(3) by (simp_all add: entry_of_request_def)
  have fresh: "le_Index e \<noteq> aq_Index req" if "e \<in> set (h_entries ?h)" for e using st that idx(1) by (auto simp: store_ok_def)
  have none: "aq_Index r \<noteq> aq_Index req" if "r \<in> nt_sent c" "aq_Term r = aq_Term req" for r
    using inv v lead that req idx(1) by (force simp: net_inv_def leaders_ok_def)
  show ?thesis
    by (rule request_inv [OF inv sv v lead req _ _ n post(1)])
      (use idx st none fresh in \<open>auto simp: store_ok_def entry_of_request_def\<close>)
qed

subsection \<open>Every action keeps the invariant\<close>

lemma elect_inv_messages [simp]:
  "elect_inv M (c\<lparr>nt_votereqs := a\<rparr>) = elect_inv M c" "elect_inv M (c\<lparr>nt_prevotes := p\<rparr>) = elect_inv M c"
  "elect_inv M (c\<lparr>nt_acked := k\<rparr>) = elect_inv M c" "elect_inv M (c\<lparr>nt_frames := f\<rparr>) = elect_inv M c"
  "elect_inv M (c\<lparr>nt_plans := q\<rparr>) = elect_inv M c"
  by (rule elect_inv_cong; simp)+

lemma network_update_simps [simp]:
  "nt_sent (put_node v n c) = nt_sent c" "nt_votereqs (put_node v n c) = nt_votereqs c" "nt_frames (put_node v n c) = nt_frames c"
  "nt_plans (put_node v n c) = nt_plans c" "nt_sent (add_vote v t k c) = nt_sent c" "nt_votereqs (add_vote v t k c) = nt_votereqs c"
  "nt_frames (add_vote v t k c) = nt_frames c" "nt_plans (add_vote v t k c) = nt_plans c" "nt_sent (forget_vote v r c) = nt_sent c"
  "nt_votereqs (forget_vote v r c) = nt_votereqs c" "nt_frames (forget_vote v r c) = nt_frames c" "nt_plans (forget_vote v r c) = nt_plans c"
  by (simp_all add: put_node_def add_vote_def forget_vote_def)

lemma calm_step_inv:
  assumes inv: "net_inv M c" and el: "elect_inv M c'" and v: "v \<in> M"
    and c': "cl_nodes c' = (cl_nodes c)(v := n)" "cl_votes c \<subseteq> cl_votes c'" "nt_sent c' = nt_sent c" "msgs_ok c'"
    and calm: "calm (n_state (cl_nodes c v)) (n_state n)"
    and store: "store_ok (n_FileHandler n)" "set (h_entries (n_FileHandler n)) \<subseteq> entry_of_request ` nt_sent c"
    and lead: "st_role (n_state n) = Leader \<Longrightarrow>
      set (h_entries (n_FileHandler n)) \<subseteq> set (h_entries (node_log c v)) \<and> h_prevIndex (n_FileHandler n) = h_prevIndex (node_log c v)"
  shows "net_inv M c'"
proof (rule node_step_inv [OF inv el v c' _ store])
  show "st_currentTerm (n_state (cl_nodes c v)) < st_currentTerm (n_state n) \<or>
      st_currentTerm (n_state n) = st_currentTerm (n_state (cl_nodes c v)) \<and>
      (st_role (n_state n) = Candidate \<longrightarrow> st_role (n_state (cl_nodes c v)) = Candidate)"
    using calm by (auto simp: calm_def)
  assume l: "st_role (n_state n) = Leader"
  then have "st_role (n_state (cl_nodes c v)) = Leader \<and> st_currentTerm (n_state n) = st_currentTerm (n_state (cl_nodes c v))"
    using calm by (auto simp: calm_def)
  then show "st_role (n_state (cl_nodes c v)) = Leader \<and> st_currentTerm (n_state n) = st_currentTerm (n_state (cl_nodes c v)) \<and>
        set (h_entries (n_FileHandler n)) \<subseteq> set (h_entries (node_log c v)) \<and> h_prevIndex (n_FileHandler n) = h_prevIndex (node_log c v) \<or>
      (\<forall>r\<in>nt_sent c. aq_Term r \<noteq> st_currentTerm (n_state n))" using lead [OF l] by simp
qed

lemma net_inv_log: "net_inv M c \<Longrightarrow> v \<in> M \<Longrightarrow> set (h_entries (node_log c v)) \<subseteq> entry_of_request ` nt_sent c"
  by (simp add: net_inv_def logs_ok_def)

lemma net_inv_msgs: "net_inv M c \<Longrightarrow> msgs_ok c" "net_inv M c \<Longrightarrow> elect_inv M c"
  by (simp_all add: net_inv_def)

text \<open>A calm step that leaves the log alone.\<close>

lemma state_step_inv:
  assumes inv: "net_inv M c" and el: "elect_inv M c'" and v: "v \<in> M"
    and c': "cl_nodes c' = (cl_nodes c)(v := n)" "cl_votes c \<subseteq> cl_votes c'" "nt_sent c' = nt_sent c" "msgs_ok c'"
    and calm: "calm (n_state (cl_nodes c v)) (n_state n)" and h: "n_FileHandler n = node_log c v"
  shows "net_inv M c'"
  by (rule calm_step_inv [OF inv el v c' calm]) (use h net_inv_store [OF inv v] net_inv_log [OF inv v] in auto)

lemma begin_inv:
  assumes inv: "net_inv M c" and v: "v \<in> M" "v \<noteq> ''''" shows "net_inv M (do_begin v tk c)"
proof -
  obtain req n where b: "election_begin tk (cl_nodes c v) = (req, n)" by fastforce
  have q: "quiet (n_state (cl_nodes c v)) (n_state n)" by (rule election_begin_quiet [OF b])
  have h: "n_FileHandler n = node_log c v" and o: "\<And>r. req = Some r \<Longrightarrow> vr_OriginNodeId r = v"
    using b net_inv_elect(1) [OF inv v(1)] by (auto simp: election_begin_def vote_request_def Let_def split: if_splits)
  have el: "elect_inv M (put_node v n c)" by (rule quiet_inv [OF net_inv_msgs(2) [OF inv] q])
  show ?thesis
    by (rule state_step_inv [OF inv _ v(1), of _ n])
      (use el q h o v net_inv_msgs(1) [OF inv] in \<open>auto simp: do_begin_def b quiet_def msgs_ok_def split: option.splits\<close>)
qed

lemma formal_step_inv:
  assumes inv: "net_inv M c" and v: "v \<in> M" "v \<noteq> ''''" and f: "do_formal M v tk old rs c = Some c'"
  shows "net_inv M c'"
proof -
  from f obtain req n where i: "in_int64 (old + 1)" and ef: "election_formal tk old (cl_nodes c v) = (Some req, n)"
    and c': "c' = (add_vote v (old + 1) v (put_node v n c))\<lparr>nt_votereqs := insert req (nt_votereqs c)\<rparr>"
    by (auto simp: do_formal_def split: if_splits prod.splits option.splits)
  have n: "st_role (n_state n) = Candidate" "st_currentTerm (n_state (cl_nodes c v)) = old" "st_currentTerm (n_state n) = old + 1"
    "n_FileHandler n = node_log c v" "vr_OriginNodeId req = v"
    using ef i net_inv_elect(1) [OF inv v(1)] by (auto simp: election_formal_def vote_request_def Let_def split: if_splits)
  have el: "elect_inv M c'" using formal_inv [OF net_inv_msgs(2) [OF inv] v ef i] by (simp add: c')
  show ?thesis
    by (rule node_step_inv [OF inv el v(1), of n])
      (use n v net_inv_msgs(1) [OF inv] net_inv_store [OF inv v(1)] net_inv_log [OF inv v(1)] in \<open>auto simp: c' msgs_ok_def\<close>)
qed

text \<open>A node that becomes the leader of a term: no leader of that term has sent anything yet.\<close>

lemma win_step_inv:
  assumes inv: "net_inv M c" and v: "v \<in> M" and fin: "finite M" and sv: "single_votes (cl_votes c)" and w: "do_win M v t rs c = Some c'"
  shows "net_inv M c'"
proof -
  let ?n = "election_win t (cl_nodes c v)" and ?s = "n_state (cl_nodes c v)"
  have c': "c' = put_node v ?n c" and ok: "answers_ok M v t (cl_votes c) rs" "sendVoteRequests (majorityNeeded (card M - 1)) Candidate t (map snd rs)"
    using w by (auto simp: do_win_def split: if_splits)
  have el: "elect_inv M c'"
    unfolding c' using ok by (intro win_inv [OF net_inv_msgs(2) [OF inv] fin v]) (auto simp: answers_ok_def)
  show ?thesis
  proof (cases "st_role ?s = Candidate \<and> st_currentTerm ?s = t")
    case True
    then have n: "st_role (n_state ?n) = Leader" "st_currentTerm (n_state ?n) = t" "n_FileHandler ?n = node_log c v"
      by (auto simp: election_win_def)
    have mine: "mq.elected M (cl_votes c) t v" using el v n by (auto simp: c' elect_inv_def role_inv_def role_ok_def)
    have none: "aq_Term r \<noteq> t" if r: "r \<in> nt_sent c" for r
    proof
      assume t: "aq_Term r = t"
      then have "mq.elected M (cl_votes c) t (aq_OriginNodeId r)" using inv r by (auto simp: net_inv_def origins_ok_def)
      then have "aq_OriginNodeId r = v" using elected_same [OF sv] mine by blast
      then show False using inv r t True by (auto simp: net_inv_def origins_ok_def Let_def)
    qed
    show ?thesis
      by (rule node_step_inv [OF inv el v, of ?n])
        (use n True none net_inv_msgs(1) [OF inv] net_inv_store [OF inv v] net_inv_log [OF inv v] in \<open>auto simp: c' msgs_ok_def\<close>)
  next
    case False
    then have "c' = c" by (auto simp: c' election_win_def put_node_def)
    with inv show ?thesis by simp
  qed
qed

lemma single_step_inv:
  assumes inv: "net_inv M c" and v: "v \<in> M" "v \<noteq> ''''" and w: "do_single M v tk c = Some c'"
  shows "net_inv M c'"
proof -
  let ?s = "n_state (cl_nodes c v)" and ?n = "election_single tk (st_currentTerm (n_state (cl_nodes c v))) (cl_nodes c v)"
  have M: "M = {v}" and i: "in_int64 (st_currentTerm ?s + 1)" and c': "c' = add_vote v (st_currentTerm ?s + 1) v (put_node v ?n c)"
    using w by (auto simp: do_single_def Let_def split: if_splits)
  have n: "st_currentTerm (n_state ?n) = st_currentTerm ?s + 1" "n_FileHandler ?n = node_log c v"
    using i by (simp_all add: election_single_def Let_def)
  have el: "elect_inv M c'" unfolding c' by (rule single_inv [OF net_inv_msgs(2) [OF inv] M v(2) refl i])
  have none: "aq_Term r \<noteq> st_currentTerm ?s + 1" if "r \<in> nt_sent c" for r
    using inv that M by (auto simp: net_inv_def origins_ok_def Let_def)
  show ?thesis
    by (rule node_step_inv [OF inv el v(1), of ?n])
      (use n none net_inv_msgs(1) [OF inv] net_inv_store [OF inv v(1)] net_inv_log [OF inv v(1)] in \<open>auto simp: c' msgs_ok_def\<close>)
qed

lemma vote_step_net_inv:
  assumes inv: "net_inv M c" and v: "v \<in> M" and w: "do_vote v tk req c = Some c'"
  shows "net_inv M c'"
proof -
  obtain resp n where rv: "RequestVote tk (cl_nodes c v) req = (resp, n)" by fastforce
  have o: "vr_OriginNodeId req \<noteq> ''''" using w net_inv_msgs(1) [OF inv] by (auto simp: do_vote_def msgs_ok_def split: if_splits)
  have h: "n_FileHandler n = node_log c v" using rv by (auto simp: RequestVote_def Let_def split: if_splits)
  have calm: "calm (n_state (cl_nodes c v)) (n_state n)"
    using rv by (auto simp: RequestVote_def calm_def Let_def not_Follower split: if_splits)
  have c': "c' = (if \<not> vp_Vote resp then put_node v n c
      else if vr_Gossip req then (put_node v n c)\<lparr>nt_prevotes := insert (v, vr_Term req, vr_OriginNodeId req) (nt_prevotes c)\<rparr>
      else add_vote v (vr_Term req) (vr_OriginNodeId req) (put_node v n c))"
    using w rv by (simp add: do_vote_def Let_def split: if_splits)
  have el: "elect_inv M c'" using vote_step_inv [OF net_inv_msgs(2) [OF inv] v o rv] by (auto simp: c' split: if_splits)
  show ?thesis
    by (rule state_step_inv [OF inv el v, of n]) (use calm h net_inv_msgs(1) [OF inv] in \<open>auto simp: c' msgs_ok_def\<close>)
qed

lemma step_down_inv:
  assumes inv: "net_inv M c" and v: "v \<in> M"
  shows "net_inv M (put_node v (snd (checkStepDown tk (cl_nodes c v) t)) c)"
proof -
  obtain b n where s: "checkStepDown tk (cl_nodes c v) t = (b, n)" by fastforce
  have q: "quiet (n_state (cl_nodes c v)) (n_state n)" by (rule checkStepDown_quiet [OF s])
  have "n_FileHandler n = node_log c v" using s by (auto simp: checkStepDown_def split: if_splits)
  then show ?thesis
    using q quiet_inv [OF net_inv_msgs(2) [OF inv] q] net_inv_msgs(1) [OF inv]
    by (intro state_step_inv [OF inv _ v, of _ n]) (auto simp: s quiet_def msgs_ok_def)
qed

text \<open>A step that changes neither role, term nor vote of a node, and its log at most by a compaction.\<close>

lemma same_state_inv:
  assumes inv: "net_inv M c" and v: "v \<in> M" and n: "n_state n = n_state (cl_nodes c v)"
    and c': "cl_nodes c' = (cl_nodes c)(v := n)" "cl_votes c' = cl_votes c" "cl_forgot c' = cl_forgot c" "nt_sent c' = nt_sent c" "msgs_ok c'"
    and h: "store_ok (n_FileHandler n)" "set (h_entries (n_FileHandler n)) \<subseteq> set (h_entries (node_log c v))"
      "h_prevIndex (n_FileHandler n) = h_prevIndex (node_log c v)"
  shows "net_inv M c'"
proof (rule calm_step_inv [OF inv _ v c'(1) _ c'(4,5) _ h(1)])
  have "elect_inv M (put_node v n c)" using quiet_inv [OF net_inv_msgs(2) [OF inv], of v n] n by (simp add: quiet_defs)
  then show "elect_inv M c'" using elect_inv_cong [of c' "put_node v n c" M] c' by simp
qed (use c' n h net_inv_log [OF inv v] in \<open>auto simp: calm_def\<close>)

lemma add_step_inv:
  assumes inv: "net_inv M c" and v: "v \<in> M" and sv: "single_votes (cl_votes c)"
  shows "net_inv M (do_add v env raw c)"
proof -
  obtain res n where a: "addlog_begin env (cl_nodes c v) raw = (res, n)" by fastforce
  note st = net_inv_store [OF inv v]
  show ?thesis
  proof (cases res)
    case (Inl u)
    have "n = cl_nodes c v \<or> (\<exists>e err. Append env (node_log c v) e = (Some err, n_FileHandler n) \<and> n = (cl_nodes c v)\<lparr>n_FileHandler := n_FileHandler n\<rparr>)"
      using a Inl by (auto simp: addlog_begin_def Let_def split: if_splits prod.splits option.splits) blast
    then have "n_state n = n_state (cl_nodes c v)" "store_ok (n_FileHandler n)" "h_entries (n_FileHandler n) = h_entries (node_log c v)"
      "h_prevIndex (n_FileHandler n) = h_prevIndex (node_log c v)"
      using st Append_store(1,3) [OF st] by (auto dest: arg_cong [where f = n_state])
    then show ?thesis
      using net_inv_msgs(1) [OF inv] by (intro same_state_inv [OF inv v, of n]) (auto simp: do_add_def a Inl msgs_ok_def)
  next
    case (Inr x)
    obtain req y where "x = (req, y)" by (cases x)
    then show ?thesis using add_inv [OF inv sv v, of env raw req y n] a Inr by (cases y) (simp add: do_add_def)
  qed
qed

lemma commit_step_inv:
  assumes inv: "net_inv M c" and v: "v \<in> M" and w: "do_commit M v ps req c = Some c'"
  shows "net_inv M c'"
proof -
  from w obtain n where f: "snd (addlog_finish (addlog_majority (card M)) (1 + int (length ps)) (aq_Index req) (aq_RequestId req) (cl_nodes c v)) = Some n"
    and c': "c' = put_node v n c" by (auto simp: do_commit_def split: if_splits)
  have n: "n_state n = n_state (cl_nodes c v)" "n_FileHandler n = node_log c v"
    using f by (auto simp: addlog_finish_def Let_def split: if_splits)
  with c' show ?thesis
    using net_inv_msgs(1) [OF inv] net_inv_store [OF inv v] by (intro same_state_inv [OF inv v n(1)]) (auto simp: msgs_ok_def)
qed

lemma heartbeat_step_inv:
  assumes inv: "net_inv M c" and v: "v \<in> M" and sv: "single_votes (cl_votes c)" and w: "do_heartbeat v peer ni c = Some c'"
  shows "net_inv M c'"
proof -
  from w obtain req hp where lead: "st_role (n_state (cl_nodes c v)) = Leader" and c': "c' = send req c"
    and b: "buildHeartbeatRequest (node_log c v) (st_id (n_state (cl_nodes c v))) (st_currentTerm (n_state (cl_nodes c v))) ni = (req, hp)"
    by (auto simp: do_heartbeat_def dispatchHeartbeats_def sendHeartbeatToPeer_def split: if_splits option.splits sum.splits prod.splits)
  obtain pt p i sid where s: "scan_entries (Entries (node_log c v) (wrap64 (ni - 1)) (wrap64 (ni + 1))) (wrap64 (ni - 1)) ni
      (if wrap64 (ni - 1) = h_discIndex (node_log c v) then h_discTerm (node_log c v) else 0) = (pt, p, i, sid)"
    using prod_cases4 by blast
  have "aq_OriginNodeId req = v" "aq_Term req = st_currentTerm (n_state (cl_nodes c v))" "aq_Payload req = p" "aq_Index req = i" "aq_SchedulerId req = sid"
    using b s net_inv_elect(1) [OF inv v] by (auto simp: buildHeartbeatRequest_def Let_def)
  then show ?thesis
    unfolding c' using scan_entries_data [OF s] set_Entries by (intro send_inv [OF inv sv v lead]) fastforce+
qed

lemma catchup_step_inv:
  assumes inv: "net_inv M c" and v: "v \<in> M" and sv: "single_votes (cl_votes c)" and w: "do_catchup v t st c = Some c'"
  shows "net_inv M c'"
proof -
  from w obtain req where l: "lag_next (cl_nodes c v) t st = LagSend req" and c': "c' = send req c"
    by (auto simp: do_catchup_def split: lag_action.splits)
  from l obtain a b d e pt p i sid where lead: "st_role (n_state (cl_nodes c v)) = Leader"
    and s: "scan_entries (Entries (node_log c v) a b) a d e = (pt, p, i, sid)"
    and "aq_OriginNodeId req = v" "aq_Term req = st_currentTerm (n_state (cl_nodes c v))" "aq_Payload req = p" "aq_Index req = i" "aq_SchedulerId req = sid"
    using net_inv_elect(1) [OF inv v] by (auto simp: lag_next_def Let_def split: if_splits prod.splits)
  then show ?thesis
    unfolding c' using scan_entries_data [OF s] set_Entries by (intro send_inv [OF inv sv v lead]) fastforce+
qed

lemma append_step_inv:
  assumes inv: "net_inv M c" and v: "v \<in> M" and w: "do_append v env tk req c = Some c'"
  shows "net_inv M c'"
proof -
  obtain resp n where a: "AppendEntries env tk (cl_nodes c v) req = (resp, n)" by fastforce
  have sent: "req \<in> nt_sent c" and c': "c' = (if ar_Status resp = APPEND_RESPONSE_SUCCESS
      then (put_node v n (forget_vote v req c))\<lparr>nt_acked := insert (v, req) (nt_acked c)\<rparr> else put_node v n (forget_vote v req c))"
    using w a by (auto simp: do_append_def Let_def split: if_splits)
  have el: "elect_inv M c'" using append_inv [OF net_inv_msgs(2) [OF inv] a] by (simp add: c')
  note s = AppendEntries_store [OF net_inv_store [OF inv v] a]
  show ?thesis
    by (rule calm_step_inv [OF inv el v, of n])
      (use s sent AppendEntries_calm [OF a] net_inv_log [OF inv v] net_inv_msgs(1) [OF inv] in \<open>auto simp: c' msgs_ok_def\<close>)
qed

lemma snapshot_begin_inv:
  assumes inv: "net_inv M c" and v: "v \<in> M" shows "net_inv M (do_snapshot_begin v u c)"
proof -
  obtain res h where b: "snapshot_begin u (node_log c v) = (res, h)" by fastforce
  note s = snapshot_begin_store [OF b] and st = net_inv_store [OF inv v]
  have "store_ok h" using st s by (simp add: store_ok_def)
  moreover have "msgs_ok (do_snapshot_begin v u c)"
    using net_inv_msgs(1) [OF inv] s(4) [OF st] by (auto simp: msgs_ok_def do_snapshot_begin_def b split: sum.splits)
  ultimately show ?thesis
    using s by (intro same_state_inv [OF inv v, of "(cl_nodes c v)\<lparr>n_FileHandler := h\<rparr>"]) (auto simp: do_snapshot_begin_def b)
qed

lemma snapshot_finish_inv:
  assumes inv: "net_inv M c" and v: "v \<in> M" and w: "do_snapshot_finish v env c = Some c'" shows "net_inv M c'"
proof -
  from w obtain plan where p: "nt_plans c v = Some plan"
    and c': "c' = (put_node v ((cl_nodes c v)\<lparr>n_FileHandler := snd (snapshot_finish env (node_log c v) plan)\<rparr>) c)\<lparr>nt_plans := (nt_plans c)(v := None)\<rparr>"
    by (auto simp: do_snapshot_finish_def)
  have "1 \<le> sn_lastIndex plan" using net_inv_msgs(1) [OF inv] p by (auto simp: msgs_ok_def)
  note s = snapshot_finish_store [OF net_inv_store [OF inv v] this, of env]
  show ?thesis
    by (rule same_state_inv [OF inv v, of "(cl_nodes c v)\<lparr>n_FileHandler := snd (snapshot_finish env (node_log c v) plan)\<rparr>"])
      (use s net_inv_msgs(1) [OF inv] in \<open>auto simp: c' msgs_ok_def\<close>)
qed

lemma frame_inv:
  assumes inv: "net_inv M c" and v: "v \<in> M" shows "net_inv M (do_frame v fr c)"
proof (rule same_state_inv [OF inv v, of "cl_nodes c v"])
  show "msgs_ok (do_frame v fr c)"
    using net_inv_msgs(1) [OF inv] net_inv_store [OF inv v] by (auto simp: msgs_ok_def do_frame_def frame_request_def store_ok_def Let_def split: prod.splits)
qed (use net_inv_store [OF inv v] in \<open>auto simp: do_frame_def Let_def\<close>)

lemma install_step_inv:
  assumes inv: "net_inv M c" and v: "v \<in> M" and w: "do_install v env tk req c = Some c'" shows "net_inv M c'"
proof -
  obtain res n where a: "InstallSnapshot env tk (cl_nodes c v) req = (res, n)" by fastforce
  have f: "req \<in> nt_frames c" and c': "c' = put_node v n c" using w a by (auto simp: do_install_def split: if_splits)
  have "0 \<le> iq_LastIncludedIndex req" using f net_inv_msgs(1) [OF inv] by (auto simp: msgs_ok_def)
  note s = InstallSnapshot_store [OF net_inv_store [OF inv v] this a]
  have q: "quiet (n_state (cl_nodes c v)) (n_state n)" by (rule InstallSnapshot_quiet [OF a])
  show ?thesis
    by (rule calm_step_inv [OF inv _ v, of _ n])
      (use s q quiet_inv [OF net_inv_msgs(2) [OF inv] q] net_inv_log [OF inv v] net_inv_msgs(1) [OF inv] in \<open>auto simp: c' msgs_ok_def quiet_def\<close>)
qed

lemma net_do_inv:
  assumes "net_do M a c = Some c'" "net_inv M c" "finite M" "single_votes (cl_votes c)"
  shows "net_inv M c'"
  using assms
  by (cases a) (auto simp: net_do_def split: if_splits
      intro: begin_inv formal_step_inv single_step_inv win_step_inv vote_step_net_inv step_down_inv add_step_inv commit_step_inv
        heartbeat_step_inv catchup_step_inv append_step_inv snapshot_begin_inv snapshot_finish_inv frame_inv install_step_inv)

subsection \<open>Runs\<close>

lemma requests_agreeD:
  "requests_agree S \<Longrightarrow> r \<in> S \<Longrightarrow> r' \<in> S \<Longrightarrow> aq_Term r = aq_Term r' \<Longrightarrow> aq_Index r = aq_Index r' \<Longrightarrow>
   aq_SchedulerId r = aq_SchedulerId r' \<and> aq_Payload r = aq_Payload r'"
  unfolding requests_agree_def by blast

lemma net_do_votes: "net_do M a c = Some c' \<Longrightarrow> cl_votes c \<subseteq> cl_votes c'"
  by (cases a) (auto simp: net_do_def do_begin_def do_formal_def do_single_def do_win_def do_vote_def do_add_def do_commit_def do_heartbeat_def
      do_catchup_def do_append_def do_snapshot_begin_def do_snapshot_finish_def do_frame_def do_install_def send_def put_node_def add_vote_def
      forget_vote_def Let_def split: if_splits option.splits prod.splits sum.splits lag_action.splits)

lemma net_run_votes: "net_run M as c = Some c' \<Longrightarrow> cl_votes c \<subseteq> cl_votes c'"
proof (induction as arbitrary: c)
  case (Cons a as)
  then obtain d where d: "net_do M a c = Some d" "net_run M as d = Some c'" by (auto simp: bind_eq_Some_conv)
  then show ?case using Cons.IH [OF d(2)] net_do_votes [OF d(1)] by blast
qed simp

lemma single_votes_mono: "single_votes W \<Longrightarrow> V \<subseteq> W \<Longrightarrow> single_votes V"
  unfolding single_votes_iff by blast

lemma net_run_inv:
  assumes "net_run M as c = Some c'" "net_inv M c" "finite M" "single_votes (cl_votes c')"
  shows "net_inv M c'"
  using assms
proof (induction as arbitrary: c)
  case (Cons a as)
  then obtain d where d: "net_do M a c = Some d" "net_run M as d = Some c'" by (auto simp: bind_eq_Some_conv)
  have "single_votes (cl_votes c)"
    using Cons.prems(4) net_run_votes [OF Cons.prems(1)] by (rule single_votes_mono)
  then have "net_inv M d" using net_do_inv [OF d(1)] Cons.prems by blast
  then show ?case using Cons.IH [OF d(2)] Cons.prems by blast
qed simp

lemma initial_net_inv: "initial_network M c \<Longrightarrow> net_inv M c"
  using initial_inv [of M c]
  by (auto simp: initial_network_def net_inv_def logs_ok_def store_ok_def origins_ok_def leaders_ok_def requests_agree_def msgs_ok_def)

subsection \<open>Example runs\<close>

text \<open>The network of the witnesses: three nodes with empty stores.\<close>

definition net_node :: "string \<Rightarrow> Node" where
  "net_node v = (NewNode demo_tick 0 v ''addr'' (fresh_store 64))\<lparr>n_peerNodes :=
     Some (map (\<lambda>w. (w, New 0 0 0 w ''addr'')) (remove1 v [''a'', ''b'', ''c'']))\<rparr>"

definition net0 :: network where
  "net0 = \<lparr>cl_nodes = net_node, cl_votes = {}, cl_forgot = {}, nt_votereqs = {}, nt_prevotes = {}, nt_sent = {},
     nt_acked = {}, nt_frames = {}, nt_plans = (\<lambda>_. None)\<rparr>"

definition yes_of :: "string \<Rightarrow> Role \<Rightarrow> int \<Rightarrow> answers" where
  "yes_of w r t = [(w, Some \<lparr>vp_ResponseNodeId = w, vp_Vote = True\<rparr>, r, t)]"

definition vreq :: "string \<Rightarrow> bool \<Rightarrow> int \<Rightarrow> int \<Rightarrow> int \<Rightarrow> VoteRequest" where
  "vreq v g t lt li = \<lparr>vr_OriginNodeId = v, vr_Gossip = g, vr_Term = t, vr_LogTerm = lt, vr_LogIndex = li\<rparr>"

text \<open>Node \<open>v\<close> is elected in term \<open>t + 1\<close> by the vote of \<open>w\<close>, its log ending at \<open>li\<close> with term \<open>lt\<close>.\<close>

definition elect_by :: "tick \<Rightarrow> string \<Rightarrow> string \<Rightarrow> int \<Rightarrow> int \<Rightarrow> int \<Rightarrow> net_action list" where
  "elect_by tk v w t lt li =
     [StartBegin v tk, AskVote w tk (vreq v True (t + 1) lt li), StartFormal v tk t (yes_of w Follower t),
      AskVote w tk (vreq v False (t + 1) lt li), StartWin v (t + 1) (yes_of w Candidate (t + 1))]"
definition net_nodes :: "string set" where
  "net_nodes = {''a'', ''b'', ''c''}"

definition raw_request :: "bytes \<Rightarrow> RawAppendRequest" where
  "raw_request p = \<lparr>rq_OriginNodeId = ''s'', rq_RequestId = ''r'', rq_SchedulerId = ''sched'', rq_Payload = p\<rparr>"

definition sent_request :: "string \<Rightarrow> int \<Rightarrow> int \<Rightarrow> int \<Rightarrow> bytes \<Rightarrow> AppendRequest" where
  "sent_request v t i pt p = \<lparr>aq_OriginNodeId = v, aq_RequestId = ''r'', aq_Term = t, aq_Index = i, aq_PrevLogTerm = pt,
     aq_PrevLogIndex = i - 1, aq_SchedulerId = ''sched'', aq_Payload = p\<rparr>"

definition heartbeat :: "string \<Rightarrow> int \<Rightarrow> AppendRequest" where
  "heartbeat v t = \<lparr>aq_OriginNodeId = v, aq_RequestId = '''', aq_Term = t, aq_Index = 0, aq_PrevLogTerm = 0,
     aq_PrevLogIndex = 0, aq_SchedulerId = '''', aq_Payload = []\<rparr>"

text \<open>
  \<open>b\<close> leads term 1 and writes two entries nobody receives. \<open>a\<close> leads term 2; its first entry reaches \<open>c\<close> and is committed,
  its second one reaches \<open>b\<close> and is committed.
\<close>

definition two_commits :: "net_action list" where
  "two_commits = elect_by demo_tick ''b'' ''c'' 0 0 0 @
     [AskVote ''a'' demo_tick (vreq ''b'' False 1 0 0), AddEntry ''b'' disk_ok (raw_request [1]), AddEntry ''b'' disk_ok (raw_request [2])] @
     elect_by demo_tick ''a'' ''c'' 1 0 0 @
     [AddEntry ''a'' disk_ok (raw_request [3]), HandleAppend ''c'' (\<lambda>_. disk_ok) demo_tick (sent_request ''a'' 2 1 0 [3]),
      Commit ''a'' [''c''] (sent_request ''a'' 2 1 0 [3]),
      AddEntry ''a'' disk_ok (raw_request [4]), HandleAppend ''b'' (\<lambda>_. disk_ok) demo_tick (sent_request ''a'' 2 2 2 [4]),
      Commit ''a'' [''b''] (sent_request ''a'' 2 2 2 [4])]"

text \<open>Ten seconds later \<open>b\<close> is elected by \<open>c\<close>.\<close>

definition late_election :: "net_action list" where
  "late_election = elect_by \<lparr>tk_now = 10000000000, tk_rand = 0\<rparr> ''b'' ''c'' 2 2 2"

text \<open>\<open>c\<close> is a candidate of term 1, but \<open>b\<close> votes for \<open>a\<close> first; then a heartbeat of \<open>a\<close> and the request of \<open>c\<close> reach \<open>b\<close>.\<close>

definition two_elections :: "net_action list" where
  "two_elections =
     [StartBegin ''c'' demo_tick, AskVote ''b'' demo_tick (vreq ''c'' True 1 0 0), StartFormal ''c'' demo_tick 0 (yes_of ''b'' Follower 0)] @
     elect_by demo_tick ''a'' ''b'' 0 0 0 @
     [SendHeartbeat ''a'' ''b'' 1, HandleAppend ''b'' (\<lambda>_. disk_ok) demo_tick (heartbeat ''a'' 1),
      AskVote ''b'' demo_tick (vreq ''c'' False 1 0 0), StartWin ''c'' 1 (yes_of ''b'' Candidate 1)]"

lemma net0_initial: "initial_network net_nodes net0"
  by (simp add: initial_network_def initial_cluster_def net0_def net_nodes_def net_node_def NewNode_def New_def fresh_store_def
      demo_tick_def Let_def state_ops)



text \<open>
  C33 (finding: two leaders in one term). A run of three nodes in which no message is forged and no disk fails ends with
  two leaders of term 1: \<open>b\<close> voted for \<open>a\<close>, a heartbeat of \<open>a\<close> made it forget the vote, and it voted for \<open>c\<close>.
\<close>

theorem two_leaders_one_term:
  "initial_network net_nodes net0 \<and> (\<exists>c. net_run net_nodes two_elections net0 = Some c \<and>
     st_role (n_state (cl_nodes c ''a'')) = Leader \<and> st_role (n_state (cl_nodes c ''c'')) = Leader \<and>
     st_currentTerm (n_state (cl_nodes c ''a'')) = 1 \<and> st_currentTerm (n_state (cl_nodes c ''c'')) = 1)"
proof -
  have "case net_run net_nodes two_elections net0 of None \<Rightarrow> False | Some c \<Rightarrow>
      st_role (n_state (cl_nodes c ''a'')) = Leader \<and> st_role (n_state (cl_nodes c ''c'')) = Leader \<and>
      st_currentTerm (n_state (cl_nodes c ''a'')) = 1 \<and> st_currentTerm (n_state (cl_nodes c ''c'')) = 1"
    by code_simp
  with net0_initial show ?thesis by (auto split: option.splits)
qed

text \<open>
  C34 (finding: a committed entry is lost). AppendEntries compares the previous term only at the end of the
  log. In this run, without a double vote, \<open>a\<close> commits its entries at the indices 1 and 2. The second one is acknowledged by \<open>b\<close>,
  whose entry at index 1 is a different one: their logs agree at index 2 and differ at index 1. Then \<open>b\<close> is elected in term 3
  and leads without the entry committed at index 1.
\<close>

theorem committed_entry_lost:
  "\<exists>c c'. net_run net_nodes two_commits net0 = Some c \<and> n_commitIndex (cl_nodes c ''a'') = 2 \<and>
     map le_Payload (h_entries (node_log c ''a'')) = [[3], [4]] \<and> map le_Payload (h_entries (node_log c ''c'')) = [[3]] \<and>
     map le_Payload (h_entries (node_log c ''b'')) = [[1], [4]] \<and>
     net_run net_nodes late_election c = Some c' \<and> single_votes (cl_votes c') \<and> st_role (n_state (cl_nodes c' ''b'')) = Leader \<and>
     st_currentTerm (n_state (cl_nodes c' ''b'')) = 3 \<and> map le_Payload (h_entries (node_log c' ''b'')) = [[1], [4]]"
proof -
  have "case net_run net_nodes two_commits net0 of None \<Rightarrow> False | Some c \<Rightarrow> n_commitIndex (cl_nodes c ''a'') = 2 \<and>
     map le_Payload (h_entries (node_log c ''a'')) = [[3], [4]] \<and> map le_Payload (h_entries (node_log c ''c'')) = [[3]] \<and>
     map le_Payload (h_entries (node_log c ''b'')) = [[1], [4]] \<and>
     (case net_run net_nodes late_election c of None \<Rightarrow> False | Some c' \<Rightarrow> single_votes (cl_votes c') \<and>
        st_role (n_state (cl_nodes c' ''b'')) = Leader \<and> st_currentTerm (n_state (cl_nodes c' ''b'')) = 3 \<and>
        map le_Payload (h_entries (node_log c' ''b'')) = [[1], [4]])"
    by code_simp
  then show ?thesis by (auto split: option.splits)
qed

end
