(* ===== verification/RaftService.thy ===== *)
theory RaftService
  imports RaftReplication "HOL-Library.Sublist"
begin

section \<open>The clients of a leader (service/serve.go, registry.go and add.go)\<close>

text \<open>
  A leader serves many calls of ClientAppend at once, each a goroutine of its own, and one goroutine runs AddLog.
  The phases of ClientAppend (check, send on the channel, registration, wait) and the rounds of AddLog are
  interleaved in any order. \<open>cs_phase\<close> says how far the call with a request id has come, and \<open>cs_rounds\<close> lists the requests
  AddLog has taken with its verdict. Request ids are unique, as NewRequestID makes them.
\<close>

datatype client_phase = Checked AppendResponse | Queued AppendResponse | Waiting nat AppendResponse | Answered AppendResponse

record client_service =
  cs_node :: Node
  cs_phase :: "string \<Rightarrow> client_phase option"
  cs_rounds :: "(RawAppendRequest \<times> bool) list"

datatype service_action =
    ClientCheck RawAppendRequest
  | ClientEnqueue RawAppendRequest
  | ClientRegister RawAppendRequest
  | ClientWait RawAppendRequest bool
  | AddLogRound disk_env tick "AppendRequest \<Rightarrow> State list \<Rightarrow> peer_outcome list"

definition set_phase :: "string \<Rightarrow> client_phase \<Rightarrow> client_service \<Rightarrow> client_service" where
  "set_phase rid ph c = c\<lparr>cs_phase := (cs_phase c)(rid := Some ph)\<rparr>"

text \<open>The next request of the channel, for AddLog.\<close>

definition addlog_take :: "Node \<Rightarrow> (RawAppendRequest \<times> Node) option" where
  "addlog_take n = (case n_appendChan n of Some (req # q) \<Rightarrow> Some (req, n\<lparr>n_appendChan := Some q\<rparr>) | _ \<Rightarrow> None)"

fun service_do :: "(bytes \<Rightarrow> peekPayload option) \<Rightarrow> (bytes \<Rightarrow> genericPayload option) \<Rightarrow> service_action \<Rightarrow> client_service \<Rightarrow>
    client_service option" where
  "service_do peek unmarshal (ClientCheck req) c =
     (case cs_phase c (rq_RequestId req) of
        Some _ \<Rightarrow> None
      | None \<Rightarrow> Some (case client_check peek unmarshal (cs_node c) req of
          Inl resp \<Rightarrow> set_phase (rq_RequestId req) (Answered resp) c
        | Inr stdResp \<Rightarrow> set_phase (rq_RequestId req) (Checked stdResp) c))"
| "service_do peek unmarshal (ClientEnqueue req) c =
     (case cs_phase c (rq_RequestId req) of
        Some (Checked resp) \<Rightarrow> map_option (\<lambda>n. set_phase (rq_RequestId req) (Queued resp) (c\<lparr>cs_node := n\<rparr>)) (client_enqueue (cs_node c) req)
      | _ \<Rightarrow> None)"
| "service_do peek unmarshal (ClientRegister req) c =
     (case cs_phase c (rq_RequestId req) of
        Some (Queued resp) \<Rightarrow> (case client_register (cs_node c) req of (ch, n) \<Rightarrow>
          Some (set_phase (rq_RequestId req) (Waiting ch resp) (c\<lparr>cs_node := n\<rparr>)))
      | _ \<Rightarrow> None)"
| "service_do peek unmarshal (ClientWait req ctxDone) c =
     (case cs_phase c (rq_RequestId req) of
        Some (Waiting ch resp) \<Rightarrow> (case client_wait ctxDone (cs_node c) ch resp of
            (None, _) \<Rightarrow> None
          | (Some answer, n) \<Rightarrow> Some (set_phase (rq_RequestId req) (Answered answer) (c\<lparr>cs_node := n\<rparr>)))
      | _ \<Rightarrow> None)"
| "service_do peek unmarshal (AddLogRound env tk outcomes) c =
     (case addlog_take (cs_node c) of
        None \<Rightarrow> None
      | Some (req, n) \<Rightarrow> (case AddLog env tk outcomes n req of (result, n1) \<Rightarrow>
          map_option (\<lambda>n1. c\<lparr>cs_node := n1, cs_rounds := cs_rounds c @ [(req, result)]\<rparr>) n1))"

fun service_run :: "(bytes \<Rightarrow> peekPayload option) \<Rightarrow> (bytes \<Rightarrow> genericPayload option) \<Rightarrow> service_action list \<Rightarrow> client_service \<Rightarrow>
    client_service option" where
  "service_run peek unmarshal [] c = Some c"
| "service_run peek unmarshal (a # as) c = Option.bind (service_do peek unmarshal a c) (service_run peek unmarshal as)"

definition service_start :: "Node \<Rightarrow> client_service" where
  "service_start n = \<lparr>cs_node = n, cs_phase = (\<lambda>_. None), cs_rounds = []\<rparr>"

text \<open>A node before its first client.\<close>

definition no_clients :: "Node \<Rightarrow> bool" where
  "no_clients n \<longleftrightarrow> n_appendChan n = Some [] \<and> rr_channels (n_reqRegistry n) = []"

subsection \<open>What a round of AddLog does\<close>

definition same_service :: "Node \<Rightarrow> Node \<Rightarrow> bool" where
  "same_service n n' \<longleftrightarrow> n_FileHandler n' = n_FileHandler n \<and> n_reqRegistry n' = n_reqRegistry n \<and> n_appendChan n' = n_appendChan n"

lemma addlog_peers_service: "same_service (snd an) (snd (addlog_peers tk m rs an))"
proof (induction rs arbitrary: an)
  case (Cons r rs)
  have "same_service (snd an) (snd (fst (addlog_peer tk m r an)))"
    by (auto simp: same_service_def addlog_peer_def handleAppendRejection_def checkStepDown_def handleAppendSuccess_def Let_def
        split: prod.splits peer_outcome.splits if_splits)
  then show ?case using Cons.IH [of "fst (addlog_peer tk m r an)"] by (simp add: same_service_def)
qed (simp add: same_service_def)

definition entry_data :: "LogEntry \<Rightarrow> string \<times> bytes" where
  "entry_data e = (le_SchedulerID e, le_Payload e)"

definition request_data :: "RawAppendRequest \<Rightarrow> string \<times> bytes" where
  "request_data req = (rq_SchedulerId req, rq_Payload req)"

lemma addlog_begin_effect:
  assumes "addlog_begin env n req = (res, n')"
  shows "n_reqRegistry n' = n_reqRegistry n" "n_appendChan n' = n_appendChan n"
    "res = Inl () \<and> h_entries (n_FileHandler n') = h_entries (n_FileHandler n) \<or>
     (\<exists>x e. res = Inr x \<and> h_entries (n_FileHandler n') = h_entries (n_FileHandler n) @ [e] \<and> entry_data e = request_data req)"
  using assms
  by (auto simp: addlog_begin_def Append_def Let_def entry_data_def request_data_def split: if_splits option.splits)

lemma AddLog_effect:
  assumes "AddLog env tk outs n req = (b, Some n')"
  shows "n_appendChan n' = n_appendChan n" "Resolve (n_reqRegistry n) (rq_RequestId req) b = Some (n_reqRegistry n')"
    "\<not> b \<and> h_entries (n_FileHandler n') = h_entries (n_FileHandler n) \<or>
     (\<exists>e. h_entries (n_FileHandler n') = h_entries (n_FileHandler n) @ [e] \<and> entry_data e = request_data req)"
proof -
  obtain res n1 where a: "addlog_begin env n req = (res, n1)" by fastforce
  note e = addlog_begin_effect [OF a]
  have "n_appendChan n' = n_appendChan n \<and> Resolve (n_reqRegistry n) (rq_RequestId req) b = Some (n_reqRegistry n') \<and>
    (\<not> b \<and> h_entries (n_FileHandler n') = h_entries (n_FileHandler n) \<or>
     (\<exists>e. h_entries (n_FileHandler n') = h_entries (n_FileHandler n) @ [e] \<and> entry_data e = request_data req))"
  proof (cases res)
    case (Inl u)
    then show ?thesis using assms a e by (auto simp: AddLog_def)
  next
    case (Inr x)
    obtain areq peers tot where x: "x = (areq, peers, tot)" by (cases x)
    obtain acks n2 where p: "addlog_peers tk (addlog_majority tot) (outs areq peers) (1, n1) = (acks, n2)" by fastforce
    have "same_service n1 n2" using addlog_peers_service [of "(1, n1)" tk "addlog_majority tot" "outs areq peers"] p by simp
    then show ?thesis using assms a e Inr x p
      by (auto simp: AddLog_def addlog_finish_def same_service_def Let_def split: if_splits)
  qed
  then show "n_appendChan n' = n_appendChan n" "Resolve (n_reqRegistry n) (rq_RequestId req) b = Some (n_reqRegistry n')"
    "\<not> b \<and> h_entries (n_FileHandler n') = h_entries (n_FileHandler n) \<or>
     (\<exists>e. h_entries (n_FileHandler n') = h_entries (n_FileHandler n) @ [e] \<and> entry_data e = request_data req)" by blast+
qed

subsection \<open>The invariant\<close>

definition chan :: "Node \<Rightarrow> RawAppendRequest list" where
  "chan n = (case n_appendChan n of None \<Rightarrow> [] | Some q \<Rightarrow> q)"

text \<open>The requests taken and waiting in the channel are of different calls, which have passed the check.\<close>

definition taken :: "client_service \<Rightarrow> string list" where
  "taken c = map (rq_RequestId \<circ> fst) (cs_rounds c) @ map rq_RequestId (chan (cs_node c))"

definition past_check :: "client_phase option \<Rightarrow> bool" where
  "past_check ph \<longleftrightarrow> (case ph of None \<Rightarrow> False | Some (Checked _) \<Rightarrow> False | _ \<Rightarrow> True)"

definition queue_ok :: "client_service \<Rightarrow> bool" where
  "queue_ok c \<longleftrightarrow> distinct (taken c) \<and> (\<forall>rid\<in>set (taken c). past_check (cs_phase c rid))"

definition verdict :: "client_service \<Rightarrow> string \<Rightarrow> bool \<Rightarrow> bool" where
  "verdict c rid b \<longleftrightarrow> (\<exists>req. (req, b) \<in> set (cs_rounds c) \<and> rq_RequestId req = rid)"

text \<open>A channel belongs to one waiting call, and holds at most the verdict on its request.\<close>

definition registry_ok :: "client_service \<Rightarrow> bool" where
  "registry_ok c \<longleftrightarrow> (let r = n_reqRegistry (cs_node c) in
     (\<forall>rid ch. map_of (rr_channels r) rid = Some ch \<longrightarrow> ch < rr_next r \<and> (\<forall>rid' resp. cs_phase c rid' = Some (Waiting ch resp) \<longrightarrow> rid' = rid)) \<and>
     (\<forall>rid ch resp. cs_phase c rid = Some (Waiting ch resp) \<longrightarrow> ch < rr_next r \<and>
        (\<forall>rid' resp'. cs_phase c rid' = Some (Waiting ch resp') \<longrightarrow> rid' = rid) \<and>
        (rr_bufs r ch = [] \<or> (\<exists>b. rr_bufs r ch = [b] \<and> verdict c rid b))))"

fun phase_sound :: "(bool \<Rightarrow> bool) \<Rightarrow> client_phase \<Rightarrow> bool" where
  "phase_sound V (Answered resp) \<longleftrightarrow> (ar_Status resp = APPEND_RESPONSE_SUCCESS \<longrightarrow> V True) \<and>
     (ar_Status resp = APPEND_RESPONSE_FAILED_CONSENSUS \<longrightarrow> V False)"
| "phase_sound V (Checked resp) \<longleftrightarrow> ar_Status resp = APPEND_RESPONSE_BAD_PAYLOAD"
| "phase_sound V (Queued resp) \<longleftrightarrow> ar_Status resp = APPEND_RESPONSE_BAD_PAYLOAD"
| "phase_sound V (Waiting ch resp) \<longleftrightarrow> ar_Status resp = APPEND_RESPONSE_BAD_PAYLOAD"

definition answers_sound :: "client_service \<Rightarrow> bool" where
  "answers_sound c \<longleftrightarrow> (\<forall>rid ph. cs_phase c rid = Some ph \<longrightarrow> phase_sound (verdict c rid) ph)"

lemma phase_sound_mono: "phase_sound V ph \<Longrightarrow> (\<And>b. V b \<Longrightarrow> W b) \<Longrightarrow> phase_sound W ph"
  by (cases ph) auto

text \<open>The log has grown by requests in the order in which they were taken, among them all that succeeded.\<close>

definition log_grown :: "(string \<times> bytes) list \<Rightarrow> client_service \<Rightarrow> bool" where
  "log_grown old c \<longleftrightarrow> (\<exists>added. subseq (filter snd (cs_rounds c)) added \<and> subseq added (cs_rounds c) \<and>
     map entry_data (h_entries (n_FileHandler (cs_node c))) = old @ map (request_data \<circ> fst) added)"

definition service_inv :: "(string \<times> bytes) list \<Rightarrow> client_service \<Rightarrow> bool" where
  "service_inv old c \<longleftrightarrow> queue_ok c \<and> registry_ok c \<and> answers_sound c \<and> log_grown old c"

lemma set_phase_simps [simp]:
  "cs_node (set_phase rid ph c) = cs_node c" "cs_rounds (set_phase rid ph c) = cs_rounds c"
  "cs_phase (set_phase rid ph c) = (cs_phase c)(rid := Some ph)" "verdict (set_phase rid ph c) = verdict c"
  by (simp_all add: set_phase_def verdict_def fun_eq_iff)

lemma verdict_node [simp]: "verdict (c\<lparr>cs_node := n\<rparr>) = verdict c"
  by (simp add: verdict_def fun_eq_iff)

lemma client_check_status:
  "client_check peek u n req = Inr resp \<Longrightarrow> ar_Status resp = APPEND_RESPONSE_BAD_PAYLOAD"
  "client_check peek u n req = Inl resp \<Longrightarrow> ar_Status resp = APPEND_RESPONSE_BAD_PAYLOAD \<or> ar_Status resp = APPEND_RESPONSE_CONCURRENT_CLAIM"
  by (auto simp: client_check_def client_response_def Let_def split: if_splits casConflict.splits)

lemma past_check_simps [simp]:
  "\<not> past_check None" "\<not> past_check (Some (Checked r))" "past_check (Some (Queued r))" "past_check (Some (Waiting ch r))" "past_check (Some (Answered r))"
  by (simp_all add: past_check_def)

lemma service_invI: "queue_ok c \<Longrightarrow> registry_ok c \<Longrightarrow> answers_sound c \<Longrightarrow> log_grown old c \<Longrightarrow> service_inv old c"
  by (simp add: service_inv_def)

lemma service_invD:
  assumes "service_inv old c" shows "queue_ok c" "registry_ok c" "answers_sound c" "log_grown old c"
  using assms by (simp_all add: service_inv_def)

lemma check_inv:
  assumes inv: "service_inv old c" and d: "service_do peek u (ClientCheck req) c = Some c'"
  shows "service_inv old c'"
proof -
  note I = service_invD [OF inv]
  let ?rid = "rq_RequestId req"
  from d obtain ph where new: "cs_phase c ?rid = None" and c': "c' = set_phase ?rid ph c"
    and ph: "(\<exists>r. ph = Checked r \<and> ar_Status r = APPEND_RESPONSE_BAD_PAYLOAD) \<or>
      (\<exists>r. ph = Answered r \<and> ar_Status r \<noteq> APPEND_RESPONSE_SUCCESS \<and> ar_Status r \<noteq> APPEND_RESPONSE_FAILED_CONSENSUS)"
    by (auto split: option.splits sum.splits dest: client_check_status)
  have "?rid \<notin> set (taken c)" using I(1) new by (auto simp: queue_ok_def)
  then have "queue_ok c'" using I(1) by (auto simp: queue_ok_def taken_def c')
  moreover have "registry_ok c'" using I(2) ph by (auto simp: registry_ok_def c' Let_def)
  moreover have "answers_sound c'" using I(3) ph by (auto simp: answers_sound_def c')
  moreover have "log_grown old c'" using I(4) by (simp add: log_grown_def c')
  ultimately show ?thesis by (rule service_invI)
qed

lemma enqueue_inv:
  assumes inv: "service_inv old c" and d: "service_do peek u (ClientEnqueue req) c = Some c'"
  shows "service_inv old c'"
proof -
  note I = service_invD [OF inv]
  let ?rid = "rq_RequestId req"
  from d obtain resp n where ph: "cs_phase c ?rid = Some (Checked resp)" and n: "client_enqueue (cs_node c) req = Some n"
    and c': "c' = set_phase ?rid (Queued resp) (c\<lparr>cs_node := n\<rparr>)"
    by (auto split: option.splits client_phase.splits)
  have e: "n_FileHandler n = n_FileHandler (cs_node c)" "n_reqRegistry n = n_reqRegistry (cs_node c)" "chan n = chan (cs_node c) @ [req]"
    using n by (auto simp: client_enqueue_def chan_def split: option.splits if_splits)
  have "?rid \<notin> set (taken c)" using I(1) ph by (auto simp: queue_ok_def)
  then have "queue_ok c'" using I(1) by (auto simp: queue_ok_def taken_def c' e)
  moreover have "registry_ok c'" using I(2) by (auto simp: registry_ok_def c' e Let_def)
  moreover have "answers_sound c'" using I(3) ph by (fastforce simp: answers_sound_def c')
  moreover have "log_grown old c'" using I(4) by (simp add: log_grown_def c' e)
  ultimately show ?thesis by (rule service_invI)
qed

lemma register_inv:
  assumes inv: "service_inv old c" and d: "service_do peek u (ClientRegister req) c = Some c'"
  shows "service_inv old c'"
proof -
  note I = service_invD [OF inv]
  let ?rid = "rq_RequestId req" and ?r = "n_reqRegistry (cs_node c)"
  from d obtain resp where ph: "cs_phase c ?rid = Some (Queued resp)"
    and c': "c' = set_phase ?rid (Waiting (rr_next ?r) resp) (c\<lparr>cs_node := (cs_node c)\<lparr>n_reqRegistry :=
      ?r\<lparr>rr_channels := AList.update ?rid (rr_next ?r) (rr_channels ?r), rr_bufs := (rr_bufs ?r)(rr_next ?r := []), rr_next := Suc (rr_next ?r)\<rparr>\<rparr>\<rparr>)"
    by (auto simp: client_register_def Register_def Let_def split: option.splits client_phase.splits)
  have "queue_ok c'" using I(1) ph by (auto simp: queue_ok_def taken_def chan_def c')
  moreover have "registry_ok c'" using I(2) by (fastforce simp: registry_ok_def c' Let_def map_of_update split: if_splits)
  moreover have "answers_sound c'" using I(3) ph by (fastforce simp: answers_sound_def c')
  moreover have "log_grown old c'" using I(4) by (simp add: log_grown_def c')
  ultimately show ?thesis by (rule service_invI)
qed

lemma wait_inv:
  assumes inv: "service_inv old c" and d: "service_do peek u (ClientWait req ctxDone) c = Some c'"
  shows "service_inv old c'"
proof -
  note I = service_invD [OF inv]
  let ?rid = "rq_RequestId req" and ?r = "n_reqRegistry (cs_node c)"
  from d obtain ch resp answer n where ph: "cs_phase c ?rid = Some (Waiting ch resp)"
    and w: "client_wait ctxDone (cs_node c) ch resp = (Some answer, n)" and c': "c' = set_phase ?rid (Answered answer) (c\<lparr>cs_node := n\<rparr>)"
    by (auto split: option.splits client_phase.splits prod.splits)
  have e: "n_FileHandler n = n_FileHandler (cs_node c)" "chan n = chan (cs_node c)"
    "\<exists>xs. n_reqRegistry n = ?r\<lparr>rr_bufs := (rr_bufs ?r)(ch := xs)\<rparr>"
    using w by (auto simp: client_wait_def chan_def split: if_splits list.splits intro: exI [of _ "rr_bufs ?r ch"])
  have std: "ar_Status resp = APPEND_RESPONSE_BAD_PAYLOAD" using I(3) ph unfolding answers_sound_def by fastforce
  have buf: "rr_bufs ?r ch = [] \<or> (\<exists>b. rr_bufs ?r ch = [b] \<and> verdict c ?rid b)" and own: "\<And>rid' resp'. cs_phase c rid' = Some (Waiting ch resp') \<Longrightarrow> rid' = ?rid"
    using I(2) ph by (auto simp: registry_ok_def Let_def)
  have "(ar_Status answer = APPEND_RESPONSE_SUCCESS \<longrightarrow> verdict c ?rid True) \<and> (ar_Status answer = APPEND_RESPONSE_FAILED_CONSENSUS \<longrightarrow> verdict c ?rid False)"
    using w std buf by (auto simp: client_wait_def split: if_splits)
  then have "answers_sound c'" using I(3) by (auto simp: answers_sound_def c')
  moreover have "queue_ok c'" using I(1) ph by (auto simp: queue_ok_def taken_def c' e)
  moreover have "registry_ok c'" using I(2) e(3) own by (fastforce simp: registry_ok_def c' Let_def split: if_splits)
  moreover have "log_grown old c'" using I(4) by (simp add: log_grown_def c' e)
  ultimately show ?thesis by (intro service_invI)
qed

lemma registry_okI:
  assumes "\<And>rid ch. map_of (rr_channels (n_reqRegistry (cs_node c))) rid = Some ch \<Longrightarrow> ch < rr_next (n_reqRegistry (cs_node c))"
    and "\<And>rid ch rid' resp. map_of (rr_channels (n_reqRegistry (cs_node c))) rid = Some ch \<Longrightarrow> cs_phase c rid' = Some (Waiting ch resp) \<Longrightarrow> rid' = rid"
    and "\<And>rid ch resp. cs_phase c rid = Some (Waiting ch resp) \<Longrightarrow> ch < rr_next (n_reqRegistry (cs_node c))"
    and "\<And>rid ch resp rid' resp'. cs_phase c rid = Some (Waiting ch resp) \<Longrightarrow> cs_phase c rid' = Some (Waiting ch resp') \<Longrightarrow> rid' = rid"
    and "\<And>rid ch resp. cs_phase c rid = Some (Waiting ch resp) \<Longrightarrow>
      rr_bufs (n_reqRegistry (cs_node c)) ch = [] \<or> (\<exists>b. rr_bufs (n_reqRegistry (cs_node c)) ch = [b] \<and> verdict c rid b)"
  shows "registry_ok c"
  unfolding registry_ok_def Let_def using assms by blast

lemma registry_okD:
  assumes "registry_ok c"
  shows "map_of (rr_channels (n_reqRegistry (cs_node c))) rid = Some ch \<Longrightarrow> ch < rr_next (n_reqRegistry (cs_node c))"
    and "map_of (rr_channels (n_reqRegistry (cs_node c))) rid = Some ch \<Longrightarrow> cs_phase c rid' = Some (Waiting ch resp) \<Longrightarrow> rid' = rid"
    and "cs_phase c rid = Some (Waiting ch resp) \<Longrightarrow> ch < rr_next (n_reqRegistry (cs_node c))"
    and "cs_phase c rid = Some (Waiting ch resp) \<Longrightarrow> cs_phase c rid' = Some (Waiting ch resp') \<Longrightarrow> rid' = rid"
    and "cs_phase c rid = Some (Waiting ch resp) \<Longrightarrow>
      rr_bufs (n_reqRegistry (cs_node c)) ch = [] \<or> (\<exists>b. rr_bufs (n_reqRegistry (cs_node c)) ch = [b] \<and> verdict c rid b)"
  using assms unfolding registry_ok_def Let_def by blast+

text \<open>Resolve puts the verdict into the channel of its request, if it is registered, and forgets the channel.\<close>

lemma resolve_registry_ok:
  assumes R: "registry_ok c" and res: "Resolve (n_reqRegistry (cs_node c)) (rq_RequestId req) b = Some r"
    and c': "n_reqRegistry (cs_node c') = r" "cs_phase c' = cs_phase c" "cs_rounds c' = cs_rounds c @ [(req, b)]"
  shows "registry_ok c'"
proof -
  let ?r = "n_reqRegistry (cs_node c)" and ?rid = "rq_RequestId req"
  note D = registry_okD [OF R]
  have v: "verdict c rid x \<Longrightarrow> verdict c' rid x" "verdict c' ?rid b" for rid x by (auto simp: verdict_def c')
  have chans: "map_of (rr_channels r) rid = Some ch \<Longrightarrow> map_of (rr_channels ?r) rid = Some ch" "rr_next r = rr_next ?r" for rid ch
    using res by (auto simp: Resolve_def delete_conv' split: option.splits if_splits)
  have bufs: "rr_bufs r ch = rr_bufs ?r ch \<or> map_of (rr_channels ?r) ?rid = Some ch \<and> rr_bufs r ch = [b]" for ch
    using res by (auto simp: Resolve_def not_le split: option.splits if_splits)
  show ?thesis
  proof (rule registry_okI; unfold c')
    fix rid ch resp assume w: "cs_phase c rid = Some (Waiting ch resp)"
    from bufs [of ch] show "rr_bufs r ch = [] \<or> (\<exists>x. rr_bufs r ch = [x] \<and> verdict c' rid x)"
    proof
      assume "rr_bufs r ch = rr_bufs ?r ch"
      then show ?thesis using D(5) [OF w] v(1) by auto
    next
      assume "map_of (rr_channels ?r) ?rid = Some ch \<and> rr_bufs r ch = [b]"
      then show ?thesis using D(2) [OF _ w, of ?rid] v(2) by auto
    qed
  qed (unfold chans(2), (blast intro: D(1-4) chans(1) dest: D(2) D(4))+)
qed

lemma round_log_grown:
  assumes L: "log_grown old c" and c': "cs_rounds c' = cs_rounds c @ [(req, b)]"
    and e: "\<not> b \<and> h_entries (n_FileHandler (cs_node c')) = h_entries (n_FileHandler (cs_node c)) \<or>
     (\<exists>e. h_entries (n_FileHandler (cs_node c')) = h_entries (n_FileHandler (cs_node c)) @ [e] \<and> entry_data e = request_data req)"
  shows "log_grown old c'"
proof -
  from L obtain added where ad: "subseq (filter snd (cs_rounds c)) added" "subseq added (cs_rounds c)"
    "map entry_data (h_entries (n_FileHandler (cs_node c))) = old @ map (request_data \<circ> fst) added" by (auto simp: log_grown_def)
  have app: "subseq (filter snd (cs_rounds c)) (added @ [(req, b)])" "subseq (filter snd (cs_rounds c) @ [(req, b)]) (added @ [(req, b)])"
    "subseq added (cs_rounds c @ [(req, b)])" "subseq (added @ [(req, b)]) (cs_rounds c @ [(req, b)])"
    using ad by (auto intro: list_emb_append_mono list_emb_append2)
  from e show ?thesis
  proof
    assume "\<not> b \<and> h_entries (n_FileHandler (cs_node c')) = h_entries (n_FileHandler (cs_node c))"
    then show ?thesis unfolding log_grown_def c' using ad app by (intro exI [of _ added]) simp
  next
    assume "\<exists>e. h_entries (n_FileHandler (cs_node c')) = h_entries (n_FileHandler (cs_node c)) @ [e] \<and> entry_data e = request_data req"
    then show ?thesis unfolding log_grown_def c' using ad app by (intro exI [of _ "added @ [(req, b)]"]) auto
  qed
qed

lemma round_inv:
  assumes inv: "service_inv old c" and d: "service_do peek u (AddLogRound env tk outs) c = Some c'"
  shows "service_inv old c'"
proof -
  note I = service_invD [OF inv]
  from d obtain req q n b n1 where t: "n_appendChan (cs_node c) = Some (req # q)" and n: "n = (cs_node c)\<lparr>n_appendChan := Some q\<rparr>"
    and a: "AddLog env tk outs n req = (b, Some n1)" and c': "c' = c\<lparr>cs_node := n1, cs_rounds := cs_rounds c @ [(req, b)]\<rparr>"
    by (auto simp: addlog_take_def split: option.splits list.splits prod.splits)
  note e = AddLog_effect [OF a]
  have "set (taken c') = set (taken c)" "distinct (taken c') = distinct (taken c)"
    using t e(1) n by (auto simp: taken_def chan_def c')
  then have "queue_ok c'" using I(1) by (simp add: queue_ok_def c')
  moreover have "answers_sound c'"
    unfolding answers_sound_def
  proof (intro allI impI)
    fix rid ph assume "cs_phase c' rid = Some ph"
    then have "phase_sound (verdict c rid) ph" using I(3) by (simp add: answers_sound_def c')
    then show "phase_sound (verdict c' rid) ph" by (rule phase_sound_mono) (auto simp: verdict_def c')
  qed
  moreover have "registry_ok c'" by (rule resolve_registry_ok [OF I(2), of req b "n_reqRegistry n1"]) (use e(2) n c' in auto)
  moreover have "log_grown old c'" by (rule round_log_grown [OF I(4)]) (use e(3) n c' in auto)
  ultimately show ?thesis by (intro service_invI)
qed

lemma service_do_inv: "service_do peek u a c = Some c' \<Longrightarrow> service_inv old c \<Longrightarrow> service_inv old c'"
  by (cases a) (blast intro: check_inv enqueue_inv register_inv wait_inv round_inv)+

lemma service_run_inv: "service_run peek u as c = Some c' \<Longrightarrow> service_inv old c \<Longrightarrow> service_inv old c'"
proof (induction as arbitrary: c)
  case (Cons a as)
  then obtain d where d: "service_do peek u a c = Some d" "service_run peek u as d = Some c'" by (auto simp: bind_eq_Some_conv)
  show ?case using Cons.IH [OF d(2)] service_do_inv [OF d(1) Cons.prems(2)] by blast
qed simp

lemma start_inv: "no_clients n \<Longrightarrow> service_inv (map entry_data (h_entries (n_FileHandler n))) (service_start n)"
  by (auto simp: service_inv_def queue_ok_def taken_def chan_def registry_ok_def answers_sound_def log_grown_def service_start_def no_clients_def)

subsection \<open>Properties\<close>

definition claim_request :: "string \<Rightarrow> RawAppendRequest" where
  "claim_request rid = \<lparr>rq_OriginNodeId = ''s'', rq_RequestId = rid, rq_SchedulerId = rid, rq_Payload = [9]\<rparr>"

definition claim_peek :: "bytes \<Rightarrow> peekPayload option" where
  "claim_peek = (\<lambda>_. Some \<lparr>pk_ID = ''j'', pk_State = Some 1, pk_Entry = None, pk_Timestamp = 0\<rparr>)"

definition claim_unmarshal :: "bytes \<Rightarrow> genericPayload option" where
  "claim_unmarshal = (\<lambda>_. Some \<lparr>gp_ID = ''j'', gp_State = Some 1, gp_Entry = None\<rparr>)"

definition demo_round :: service_action where
  "demo_round = AddLogRound disk_ok \<lparr>tk_now = 0, tk_rand = 0\<rparr> (\<lambda>_ _. [])"

definition one_claim :: "string \<Rightarrow> service_action list" where
  "one_claim rid = [ClientEnqueue (claim_request rid), ClientRegister (claim_request rid), demo_round, ClientWait (claim_request rid) False]"

text \<open>
  C16 (answers to clients). In every interleaving of the calls of ClientAppend with the rounds of AddLog at a node, whatever the
  peers answer and the disk does: each request is taken at most once, the log has grown exactly by taken requests in the order
  they were taken, among them every one that reached a quorum, and a client that is told SUCCESS (or
  FAILED_CONSENSUS) is told the verdict on its own request.
\<close>

theorem client_answers_sound:
  assumes run: "service_run peek unmarshal as (service_start n) = Some c" and n: "no_clients n"
  shows "distinct (map (rq_RequestId \<circ> fst) (cs_rounds c)) \<and>
    (\<exists>added. subseq (filter snd (cs_rounds c)) added \<and> subseq added (cs_rounds c) \<and>
      map entry_data (h_entries (n_FileHandler (cs_node c))) =
        map entry_data (h_entries (n_FileHandler n)) @ map (request_data \<circ> fst) added) \<and>
    (\<forall>rid resp. cs_phase c rid = Some (Answered resp) \<longrightarrow>
      (ar_Status resp = APPEND_RESPONSE_SUCCESS \<longrightarrow> (\<exists>req. (req, True) \<in> set (cs_rounds c) \<and> rq_RequestId req = rid)) \<and>
      (ar_Status resp = APPEND_RESPONSE_FAILED_CONSENSUS \<longrightarrow> (\<exists>req. (req, False) \<in> set (cs_rounds c) \<and> rq_RequestId req = rid)))"
proof -
  note I = service_invD [OF service_run_inv [OF run start_inv [OF n]]]
  have "phase_sound (verdict c rid) (Answered resp)" if "cs_phase c rid = Some (Answered resp)" for rid resp
    using I(3) that unfolding answers_sound_def by blast
  then show ?thesis using I(1,4) by (auto simp: queue_ok_def taken_def log_grown_def verdict_def)
qed

theorem client_answers_sound_witness:
  "\<exists>c resp. service_run claim_peek claim_unmarshal (ClientCheck (claim_request ''x'') # one_claim ''x'')
      (service_start (demo_leader 1 (fresh_store 64))) = Some c \<and>
    cs_phase c ''x'' = Some (Answered resp) \<and> (\<exists>req. (req, True) \<in> set (cs_rounds c) \<and> rq_RequestId req = ''x'')"
proof -
  have n: "no_clients (demo_leader 1 (fresh_store 64))"
    by (simp add: no_clients_def demo_leader_def NewNode_def newRequestRegistry_def)
  have "case service_run claim_peek claim_unmarshal (ClientCheck (claim_request ''x'') # one_claim ''x'') (service_start (demo_leader 1 (fresh_store 64))) of
      None \<Rightarrow> False | Some c \<Rightarrow> (case cs_phase c ''x'' of Some (Answered resp) \<Rightarrow> ar_Status resp = APPEND_RESPONSE_SUCCESS | _ \<Rightarrow> False)"
    by code_simp
  then obtain c resp where c: "service_run claim_peek claim_unmarshal (ClientCheck (claim_request ''x'') # one_claim ''x'')
      (service_start (demo_leader 1 (fresh_store 64))) = Some c"
    and a: "cs_phase c ''x'' = Some (Answered resp)" "ar_Status resp = APPEND_RESPONSE_SUCCESS"
    by (auto split: option.splits client_phase.splits)
  show ?thesis using client_answers_sound [OF c n] c a by blast
qed


text \<open>When the second call is checked after the first claim is in the log, it is refused.\<close>

lemma serial_claims_refused:
  "case service_run claim_peek claim_unmarshal
      (ClientCheck (claim_request ''x'') # one_claim ''x'' @ [ClientCheck (claim_request ''y'')])
      (service_start (demo_leader 1 (fresh_store 64))) of None \<Rightarrow> False
    | Some c \<Rightarrow> (case cs_phase c ''y'' of Some (Answered y) \<Rightarrow> ar_Status y = APPEND_RESPONSE_CONCURRENT_CLAIM | _ \<Rightarrow> False)"
  by code_simp

end
