(* ===== verification/SchedState.thy ===== *)
theory SchedState
  imports Arbiter Models
begin

section \<open>The scheduler's central state (internal/scheduler/states, internal/scheduler/core)\<close>

text \<open>
  The \<^verbatim>\<open>State\<close> of state.go and externs.go. Jobs and cluster records are pointers that several
  structures share: the job map, the queue of pending jobs and the callers hold the same \<^verbatim>\<open>*core.Job\<close>, and a
  caller of LocalClusters holds the same \<^verbatim>\<open>*ClusterState\<close> as the map until UpdateCluster replaces it.
  So both live in explicit heaps (\<open>ss_jobHeap\<close>, \<open>ss_clusterHeap\<close>), the maps hold addresses, and the
  queue's accessors read the job heap. Every method holds the mutex; \<^verbatim>\<open>time.Now()\<close> is the argument \<open>now\<close>.
\<close>

record Job =
  job_Id :: string
  job_ImageAlias :: string
  job_AssignedClusterId :: string
  job_Status :: Status
  job_CPURequirement :: int
  job_MemoryRequirement :: int
  job_Priority :: int
  job_Payload :: bytes
  job_Response :: "bytes option"

definition CastFromGlobalModel :: "JobPayload \<Rightarrow> Job" where
  "CastFromGlobalModel job =
     \<lparr>job_Id = jp_ID job, job_ImageAlias = jp_Image job, job_AssignedClusterId = '''', job_Status = jp_State job,
      job_CPURequirement = jp_CPURequirement job, job_MemoryRequirement = jp_MemoryRequirement job,
      job_Priority = jp_Priority job, job_Payload = jp_Payload job, job_Response = None\<rparr>"

record ClusterState =
  cs_ID :: string
  cs_UsedCpu :: int
  cs_UsedMem :: int
  cs_MaxCpu :: int
  cs_MaxMem :: int
  cs_OptimisticUpdates :: int
  cs_LastUpdated :: time

record SchedulerState =
  sd_ID :: string
  sd_ClusterStates :: "(string, ClusterState) gomap"
  sd_LastUpdated :: time

record CentralState =
  ss_id :: string
  ss_address :: string
  ss_jobHeap :: "nat \<Rightarrow> Job"
  ss_jobs :: "(string, nat) gomap"
  ss_unassignedJobs :: "nat queue"
  ss_assignedJobs :: goset
  ss_completedJobs :: goset
  ss_readJobs :: "(string, time) gomap"
  ss_clusterHeap :: "nat \<Rightarrow> ClusterState"
  ss_clusterNext :: nat
  ss_clusters :: "(string, nat) gomap"
  ss_peers :: "SchedulerState list"

definition job_ac :: "(nat \<Rightarrow> Job) \<Rightarrow> nat accessors" where
  "job_ac heap = \<lparr>idFn = (\<lambda>j. job_Id (heap j)), prioFn = (\<lambda>j. job_Priority (heap j)),
     cpuFn = (\<lambda>j. job_CPURequirement (heap j)), memFn = (\<lambda>j. job_MemoryRequirement (heap j))\<rparr>"

abbreviation state_ac :: "CentralState \<Rightarrow> nat accessors" where
  "state_ac s \<equiv> job_ac (ss_jobHeap s)"

definition NewState :: "(nat \<Rightarrow> Job) \<Rightarrow> (nat \<Rightarrow> ClusterState) \<Rightarrow> string \<Rightarrow> string \<Rightarrow> CentralState" where
  "NewState jobHeap clusterHeap key address =
     \<lparr>ss_id = key, ss_address = address, ss_jobHeap = jobHeap, ss_jobs = [], ss_unassignedJobs = NewQueue,
      ss_assignedJobs = [], ss_completedJobs = [], ss_readJobs = [], ss_clusterHeap = clusterHeap,
      ss_clusterNext = 0, ss_clusters = [], ss_peers = []\<rparr>"

definition set_job :: "nat \<Rightarrow> Job \<Rightarrow> CentralState \<Rightarrow> CentralState" where
  "set_job a j s = s\<lparr>ss_jobHeap := (ss_jobHeap s)(a := j)\<rparr>"

subsection \<open>Jobs\<close>

definition AppendJob :: "CentralState \<Rightarrow> nat \<Rightarrow> CentralState" where
  "AppendJob s a =
     (let s = set_job a ((ss_jobHeap s a)\<lparr>job_Status := Pending\<rparr>) s in
      s\<lparr>ss_jobs := AList.update (job_Id (ss_jobHeap s a)) a (ss_jobs s),
        ss_unassignedJobs := Push (state_ac s) (ss_unassignedJobs s) a\<rparr>)"

definition NextPendingJob :: "CentralState \<Rightarrow> int \<Rightarrow> int \<Rightarrow> nat option \<times> CentralState" where
  "NextPendingJob s availCPU availMem =
     (case PopBestFit (state_ac s) (ss_unassignedJobs s) availCPU availMem of
        (None, q) \<Rightarrow> (None, s\<lparr>ss_unassignedJobs := q\<rparr>)
      | (Some a, q) \<Rightarrow>
          let s = s\<lparr>ss_unassignedJobs := q, ss_assignedJobs := List.insert (job_Id (ss_jobHeap s a)) (ss_assignedJobs s)\<rparr> in
          (Some a, set_job a ((ss_jobHeap s a)\<lparr>job_AssignedClusterId := ''packing-in-progress'', job_Status := Running\<rparr>) s))"

definition AssignJob :: "CentralState \<Rightarrow> string \<Rightarrow> string \<Rightarrow> bool \<times> CentralState" where
  "AssignJob s jobId clusterId =
     (case map_of (ss_jobs s) jobId of
        None \<Rightarrow> (False, s)
      | Some a \<Rightarrow>
          let s = s\<lparr>ss_unassignedJobs := RemoveByID (ss_unassignedJobs s) jobId,
                    ss_assignedJobs := List.insert jobId (ss_assignedJobs s)\<rparr> in
          (True, set_job a ((ss_jobHeap s a)\<lparr>job_AssignedClusterId := clusterId, job_Status := Running\<rparr>) s))"

definition CompleteJob :: "CentralState \<Rightarrow> string \<Rightarrow> bytes option \<Rightarrow> bool \<Rightarrow> bool \<times> CentralState" where
  "CompleteJob s jobId result success =
     (case map_of (ss_jobs s) jobId of
        None \<Rightarrow> (False, s)
      | Some a \<Rightarrow>
          let s = s\<lparr>ss_assignedJobs := removeAll jobId (ss_assignedJobs s),
                    ss_unassignedJobs := RemoveByID (ss_unassignedJobs s) jobId,
                    ss_completedJobs := List.insert jobId (ss_completedJobs s)\<rparr> in
          (True, set_job a ((ss_jobHeap s a)\<lparr>job_Status := (if success then Completed else Failed), job_Response := result\<rparr>) s))"

definition UnassignJob :: "CentralState \<Rightarrow> string \<Rightarrow> CentralState" where
  "UnassignJob s jobId =
     (case map_of (ss_jobs s) jobId of
        None \<Rightarrow> s
      | Some a \<Rightarrow>
          if jobId \<in> set (ss_completedJobs s) then s
          else
            let s = s\<lparr>ss_assignedJobs := removeAll jobId (ss_assignedJobs s),
                      ss_completedJobs := removeAll jobId (ss_completedJobs s)\<rparr>;
                s = set_job a ((ss_jobHeap s a)\<lparr>job_Status := Pending, job_Response := None, job_AssignedClusterId := ''''\<rparr>) s
            in s\<lparr>ss_unassignedJobs := Push (state_ac s) (ss_unassignedJobs s) a\<rparr>)"

definition PurgeJob :: "CentralState \<Rightarrow> string \<Rightarrow> CentralState" where
  "PurgeJob s jobId =
     (case map_of (ss_jobs s) jobId of
        None \<Rightarrow> s
      | Some _ \<Rightarrow> s\<lparr>ss_jobs := AList.delete jobId (ss_jobs s),
          ss_unassignedJobs := RemoveByID (ss_unassignedJobs s) jobId,
          ss_assignedJobs := removeAll jobId (ss_assignedJobs s),
          ss_completedJobs := removeAll jobId (ss_completedJobs s),
          ss_readJobs := AList.delete jobId (ss_readJobs s)\<rparr>)"

definition JobsInCluster :: "CentralState \<Rightarrow> string \<Rightarrow> string list" where
  "JobsInCluster s clusterId =
     filter (\<lambda>key. case map_of (ss_jobs s) key of None \<Rightarrow> False
        | Some a \<Rightarrow> job_AssignedClusterId (ss_jobHeap s a) = clusterId) (ss_assignedJobs s)"

definition State_Job :: "CentralState \<Rightarrow> string \<Rightarrow> nat option" where
  "State_Job s jobId = map_of (ss_jobs s) jobId"

definition PendingJobs :: "CentralState \<Rightarrow> string list" where
  "PendingJobs s = IDs (ss_unassignedJobs s)"

definition ActiveJobs :: "CentralState \<Rightarrow> string list" where
  "ActiveJobs s = ss_assignedJobs s"

definition CompletedJobs :: "CentralState \<Rightarrow> string list" where
  "CompletedJobs s = ss_completedJobs s"

definition QueueFreeCompletedJob :: "time \<Rightarrow> CentralState \<Rightarrow> string \<Rightarrow> bool \<times> CentralState" where
  "QueueFreeCompletedJob now s jobId =
     (case map_of (ss_jobs s) jobId of
        None \<Rightarrow> (False, s)
      | Some _ \<Rightarrow>
          (True, case map_of (ss_readJobs s) jobId of
                   None \<Rightarrow> s\<lparr>ss_readJobs := AList.update jobId now (ss_readJobs s)\<rparr>
                 | Some _ \<Rightarrow> s))"

text \<open>One tick of ClearCompletedJobs: the list is read under the lock, then each job is purged.\<close>

definition clear_list :: "time \<Rightarrow> CentralState \<Rightarrow> string list" where
  "clear_list now s =
     filter (\<lambda>jobId. case map_of (ss_readJobs s) jobId of None \<Rightarrow> False
        | Some value \<Rightarrow> now - value > 10000000000 \<or> length (ss_completedJobs s) > 100) (ss_completedJobs s)"

definition ClearCompletedJobs :: "time \<Rightarrow> CentralState \<Rightarrow> CentralState" where
  "ClearCompletedJobs now s = fold (\<lambda>jobId s. PurgeJob s jobId) (clear_list now s) s"

subsection \<open>Clusters\<close>

definition new_cluster :: "string \<Rightarrow> ClusterState \<Rightarrow> CentralState \<Rightarrow> CentralState" where
  "new_cluster key c s =
     s\<lparr>ss_clusterHeap := (ss_clusterHeap s)(ss_clusterNext s := c), ss_clusterNext := Suc (ss_clusterNext s),
       ss_clusters := AList.update key (ss_clusterNext s) (ss_clusters s)\<rparr>"

definition UpdateCluster :: "time \<Rightarrow> CentralState \<Rightarrow> string \<Rightarrow> int \<Rightarrow> int \<Rightarrow> int \<Rightarrow> int \<Rightarrow> CentralState" where
  "UpdateCluster now s clusterID usedCpu usedMem maxCpu maxMem =
     new_cluster clusterID \<lparr>cs_ID = clusterID, cs_UsedCpu = usedCpu, cs_UsedMem = usedMem, cs_MaxCpu = maxCpu,
       cs_MaxMem = maxMem, cs_OptimisticUpdates = 0, cs_LastUpdated = now\<rparr> s"

definition AddLocalCluster :: "time \<Rightarrow> CentralState \<Rightarrow> string \<Rightarrow> CentralState" where
  "AddLocalCluster now s key =
     new_cluster key \<lparr>cs_ID = key, cs_UsedCpu = 0, cs_UsedMem = 0, cs_MaxCpu = 0, cs_MaxMem = 0,
       cs_OptimisticUpdates = 0, cs_LastUpdated = now\<rparr> s"

definition LocalClusters :: "CentralState \<Rightarrow> nat list" where
  "LocalClusters s = map snd (ss_clusters s)"

definition LocalCluster :: "CentralState \<Rightarrow> string \<Rightarrow> nat option" where
  "LocalCluster s key = map_of (ss_clusters s) key"

definition SoftUpdateCluster :: "CentralState \<Rightarrow> string \<Rightarrow> int \<Rightarrow> int \<Rightarrow> CentralState" where
  "SoftUpdateCluster s clusterID addCpu addMem =
     (case map_of (ss_clusters s) clusterID of
        None \<Rightarrow> s
      | Some a \<Rightarrow>
          let c = ss_clusterHeap s a in
          s\<lparr>ss_clusterHeap := (ss_clusterHeap s)(a := c\<lparr>cs_UsedCpu := wrap64 (cs_UsedCpu c + addCpu),
            cs_UsedMem := wrap64 (cs_UsedMem c + addMem), cs_OptimisticUpdates := wrap16 (cs_OptimisticUpdates c + 1)\<rparr>)\<rparr>)"

definition freeCpu :: "ClusterState \<Rightarrow> int" where
  "freeCpu c = wrap64 (cs_MaxCpu c - cs_UsedCpu c)"

definition freeMem :: "ClusterState \<Rightarrow> int" where
  "freeMem c = wrap64 (cs_MaxMem c - cs_UsedMem c)"

fun least_loop :: "int \<Rightarrow> int \<Rightarrow> (string \<times> ClusterState) list \<Rightarrow> string \<times> int \<Rightarrow> string \<times> int" where
  "least_loop cpuReq memReq [] best = best"
| "least_loop cpuReq memReq ((key, cs) # rest) (leastUsedID, leastUsedCpu) =
     least_loop cpuReq memReq rest
       (if freeCpu cs > cpuReq \<and> freeMem cs > memReq \<and> freeCpu cs > leastUsedCpu
        then (key, freeCpu cs) else (leastUsedID, leastUsedCpu))"

definition LeastUtilizedCluster :: "CentralState \<Rightarrow> int \<Rightarrow> int \<Rightarrow> string" where
  "LeastUtilizedCluster s cpuReq memReq =
     fst (least_loop cpuReq memReq (map (\<lambda>(k, a). (k, ss_clusterHeap s a)) (ss_clusters s)) ('''', - 1))"

definition AtMaximumCapacity :: "CentralState \<Rightarrow> int \<Rightarrow> int \<Rightarrow> bool" where
  "AtMaximumCapacity s cpuReq memReq =
     (let cs = map (\<lambda>(k, a). ss_clusterHeap s a) (ss_clusters s);
          jobs = map (ss_jobHeap s) (Items (ss_unassignedJobs s));
          totalClustersCpu = wsum (map cs_MaxCpu cs);
          totalClustersMem = wsum (map cs_MaxMem cs);
          canFitInSingleCluster = (\<exists>c\<in>set cs. cs_MaxCpu c \<ge> cpuReq \<and> cs_MaxMem c \<ge> memReq);
          totalPendingCpu = wsum (map job_CPURequirement jobs);
          totalPendingMem = wsum (map job_MemoryRequirement jobs)
      in totalPendingCpu > totalClustersCpu \<or> totalPendingMem > totalClustersMem \<or> \<not> canFitInSingleCluster)"

definition StaleClusters :: "time \<Rightarrow> CentralState \<Rightarrow> time \<Rightarrow> string list" where
  "StaleClusters now s heartbeatTimeout =
     map fst (filter (\<lambda>(key, a). now - cs_LastUpdated (ss_clusterHeap s a) > heartbeatTimeout) (ss_clusters s))"

subsection \<open>Peers\<close>

text \<open>ForEachPeer stops at the first error; \<open>op\<close> returns the peer, possibly updated, and whether it succeeded.\<close>

fun each_peer :: "(SchedulerState \<Rightarrow> bool \<times> SchedulerState) \<Rightarrow> SchedulerState list \<Rightarrow> bool \<times> SchedulerState list" where
  "each_peer op [] = (True, [])"
| "each_peer op (p # ps) =
     (case op p of
        (False, p1) \<Rightarrow> (False, p1 # ps)
      | (True, p1) \<Rightarrow> (case each_peer op ps of (ok, ps1) \<Rightarrow> (ok, p1 # ps1)))"

definition ForEachPeer :: "CentralState \<Rightarrow> (SchedulerState \<Rightarrow> bool \<times> SchedulerState) \<Rightarrow> bool \<times> CentralState" where
  "ForEachPeer s op = (case each_peer op (ss_peers s) of (ok, ps) \<Rightarrow> (ok, s\<lparr>ss_peers := ps\<rparr>))"

definition AddPeerScheduler :: "time \<Rightarrow> CentralState \<Rightarrow> string \<Rightarrow> CentralState" where
  "AddPeerScheduler now s key = s\<lparr>ss_peers := ss_peers s @ [\<lparr>sd_ID = key, sd_ClusterStates = [], sd_LastUpdated = now\<rparr>]\<rparr>"

definition PeerSchedulerState :: "CentralState \<Rightarrow> string \<Rightarrow> SchedulerState option" where
  "PeerSchedulerState s key = List.find (\<lambda>p. sd_ID p = key) (ss_peers s)"

fun update_first :: "time \<Rightarrow> string \<Rightarrow> (string, ClusterState) gomap \<Rightarrow> SchedulerState list \<Rightarrow> bool \<times> SchedulerState list" where
  "update_first now key cs [] = (False, [])"
| "update_first now key cs (p # ps) =
     (if sd_ID p = key then (True, p\<lparr>sd_LastUpdated := now, sd_ClusterStates := cs\<rparr> # ps)
      else case update_first now key cs ps of (b, ps1) \<Rightarrow> (b, p # ps1))"

definition UpdateSchedulerState :: "time \<Rightarrow> CentralState \<Rightarrow> string \<Rightarrow> (string, ClusterState) gomap \<Rightarrow> bool \<times> CentralState" where
  "UpdateSchedulerState now s schedulerID clusterStates =
     (case update_first now schedulerID clusterStates (ss_peers s) of (b, ps) \<Rightarrow> (b, s\<lparr>ss_peers := ps\<rparr>))"

definition StaleSchedulers :: "time \<Rightarrow> CentralState \<Rightarrow> time \<Rightarrow> string list" where
  "StaleSchedulers now s heartbeatTimeout =
     map sd_ID (filter (\<lambda>p. now - sd_LastUpdated p > heartbeatTimeout) (ss_peers s))"

fun peer_loop :: "int \<Rightarrow> int \<Rightarrow> (string \<times> ClusterState) list \<Rightarrow> string \<times> int \<Rightarrow> string \<times> int" where
  "peer_loop cpuReq memReq [] best = best"
| "peer_loop cpuReq memReq ((key, cs) # rest) (mostOpenId, greatest) =
     peer_loop cpuReq memReq rest
       (if freeCpu cs \<ge> cpuReq \<and> freeMem cs \<ge> memReq \<and> freeCpu cs > greatest then (key, freeCpu cs) else (mostOpenId, greatest))"

definition LeastUtilizedPeer :: "time \<Rightarrow> CentralState \<Rightarrow> time \<Rightarrow> int \<Rightarrow> int \<Rightarrow> string" where
  "LeastUtilizedPeer now s heartbeatTimeout cpuRequirements memRequirements =
     fst (peer_loop cpuRequirements memRequirements
       (concat (map sd_ClusterStates (filter (\<lambda>p. \<not> now - sd_LastUpdated p > heartbeatTimeout) (ss_peers s)))) ('''', - 1))"

text \<open>
  TopFreePeers. \<^verbatim>\<open>sort.Slice\<close> is not stable: the order of peers with the same free CPU is left open in Go; the
  model takes the stable order.
\<close>

definition bestAvailCPU :: "int \<Rightarrow> int \<Rightarrow> SchedulerState \<Rightarrow> int" where
  "bestAvailCPU cpuReq memReq p =
     fold (\<lambda>(_, c) best. if freeCpu c \<ge> cpuReq \<and> freeMem c \<ge> memReq \<and> freeCpu c > best then freeCpu c else best)
       (sd_ClusterStates p) (- 1)"

definition TopFreePeers :: "time \<Rightarrow> CentralState \<Rightarrow> nat \<Rightarrow> time \<Rightarrow> int \<Rightarrow> int \<Rightarrow> string list" where
  "TopFreePeers now s limit heartbeatTimeout cpuReq memReq =
     (let live = filter (\<lambda>p. \<not> now - sd_LastUpdated p > heartbeatTimeout) (ss_peers s);
          candidates = filter (\<lambda>(_, a). a \<noteq> - 1) (map (\<lambda>p. (sd_ID p, bestAvailCPU cpuReq memReq p)) live)
      in take limit (map fst (sort_key (\<lambda>(_, a). - a) candidates)))"

subsection \<open>The life of a job\<close>

text \<open>
  Abstractly a job is waiting, active or done; \<open>Lost\<close> is a job that is in the map but in none of the
  three structures. \<open>sched_inv\<close>: the structures are disjoint and cover the job map, the status field
  agrees with them, and an active job has no stale entry in the queue, so it can be queued again.
\<close>

datatype stage = Waiting | Active | Done | Lost

definition stage_of :: "CentralState \<Rightarrow> string \<Rightarrow> stage option" where
  "stage_of s k =
     (if map_of (ss_jobs s) k = None then None
      else if k \<in> set (ss_completedJobs s) then Some Done
      else if k \<in> set (ss_assignedJobs s) then Some Active
      else if map_of (q_items (ss_unassignedJobs s)) k \<noteq> None then Some Waiting
      else Some Lost)"

definition job_ok :: "CentralState \<Rightarrow> string \<Rightarrow> nat \<Rightarrow> bool" where
  "job_ok s k a \<longleftrightarrow> job_Id (ss_jobHeap s a) = k \<and>
     (case stage_of s k of
        Some Waiting \<Rightarrow> job_Status (ss_jobHeap s a) = Pending
      | Some Active \<Rightarrow> job_Status (ss_jobHeap s a) = Running \<and> queue_fresh (state_ac s) (ss_unassignedJobs s) k
      | Some Done \<Rightarrow> job_Status (ss_jobHeap s a) \<in> {Completed, Failed}
      | _ \<Rightarrow> False) \<and>
     (k \<in> set (ss_assignedJobs s) \<longrightarrow> k \<notin> set (ss_completedJobs s))"

definition sched_inv :: "CentralState \<Rightarrow> bool" where
  "sched_inv s \<longleftrightarrow> queue_inv (state_ac s) (ss_unassignedJobs s) \<and>
     (\<forall>k a. map_of (ss_jobs s) k = Some a \<longrightarrow> job_ok s k a) \<and>
     (\<forall>k a. map_of (q_items (ss_unassignedJobs s)) k = Some a \<longrightarrow> map_of (ss_jobs s) k = Some a \<and>
        k \<notin> set (ss_assignedJobs s) \<and> k \<notin> set (ss_completedJobs s)) \<and>
     set (ss_assignedJobs s) \<subseteq> fst ` set (ss_jobs s) \<and> set (ss_completedJobs s) \<subseteq> fst ` set (ss_jobs s)"

lemma job_ac_same:
  assumes "job_Id j = job_Id (h a)" "job_Priority j = job_Priority (h a)" "job_CPURequirement j = job_CPURequirement (h a)"
    "job_MemoryRequirement j = job_MemoryRequirement (h a)"
  shows "job_ac (h(a := j)) = job_ac h"
  using assms by (simp add: job_ac_def fun_eq_iff)

lemma sched_invD:
  assumes "sched_inv s"
  shows "queue_inv (state_ac s) (ss_unassignedJobs s)"
    "map_of (ss_jobs s) k = Some a \<Longrightarrow> job_ok s k a"
    "map_of (q_items (ss_unassignedJobs s)) k = Some a \<Longrightarrow> map_of (ss_jobs s) k = Some a \<and>
        k \<notin> set (ss_assignedJobs s) \<and> k \<notin> set (ss_completedJobs s)"
    "k \<in> set (ss_assignedJobs s) \<Longrightarrow> \<exists>a. map_of (ss_jobs s) k = Some a"
    "k \<in> set (ss_completedJobs s) \<Longrightarrow> \<exists>a. map_of (ss_jobs s) k = Some a"
  using assms unfolding sched_inv_def map_of_Some_keys by blast+

text \<open>
  The common part of the proofs: a step that rewrites job \<open>k\<close> at its address and changes the membership of
  \<open>k\<close> only keeps every other job as it was.
\<close>

lemma other_job_ok:
  assumes ok: "job_ok s k' a'" and k: "k' \<noteq> k"
    and heap: "ss_jobHeap s' a' = ss_jobHeap s a'"
    and ac: "state_ac s' = state_ac s"
    and jobs: "map_of (ss_jobs s') k' = map_of (ss_jobs s) k'"
    and sets: "k' \<in> set (ss_completedJobs s') \<longleftrightarrow> k' \<in> set (ss_completedJobs s)"
      "k' \<in> set (ss_assignedJobs s') \<longleftrightarrow> k' \<in> set (ss_assignedJobs s)"
    and q: "map_of (q_items (ss_unassignedJobs s')) k' = map_of (q_items (ss_unassignedJobs s)) k'"
      "queue_fresh (state_ac s) (ss_unassignedJobs s) k' \<Longrightarrow> queue_fresh (state_ac s) (ss_unassignedJobs s') k'"
  shows "job_ok s' k' a'"
proof -
  have "stage_of s' k' = stage_of s k'" using jobs sets q(1) by (simp add: stage_of_def)
  with ok heap ac sets q(2) show ?thesis by (auto simp: job_ok_def split: option.splits stage.splits)
qed

lemma addresses_distinct:
  "sched_inv s \<Longrightarrow> map_of (ss_jobs s) k = Some a \<Longrightarrow> map_of (ss_jobs s) k' = Some a \<Longrightarrow> k = k'"
  using sched_invD(2) by (metis job_ok_def)

definition same_job :: "Job \<Rightarrow> Job \<Rightarrow> bool" where
  "same_job j j' \<longleftrightarrow> job_Id j' = job_Id j \<and> job_Priority j' = job_Priority j \<and>
     job_CPURequirement j' = job_CPURequirement j \<and> job_MemoryRequirement j' = job_MemoryRequirement j"

lemma job_step_inv:
  assumes inv: "sched_inv s" and a: "map_of (ss_jobs s) k = Some a"
    and heap: "ss_jobHeap s' = (ss_jobHeap s)(a := j)" "same_job (ss_jobHeap s a) j"
    and jobs: "ss_jobs s' = ss_jobs s"
    and sets: "set (ss_completedJobs s') - {k} = set (ss_completedJobs s) - {k}"
      "set (ss_assignedJobs s') - {k} = set (ss_assignedJobs s) - {k}"
    and q: "queue_inv (state_ac s) (ss_unassignedJobs s')"
      "\<And>k'. k' \<noteq> k \<Longrightarrow> map_of (q_items (ss_unassignedJobs s')) k' = map_of (q_items (ss_unassignedJobs s)) k'"
      "\<And>k'. k' \<noteq> k \<Longrightarrow> queue_fresh (state_ac s) (ss_unassignedJobs s) k' \<Longrightarrow> queue_fresh (state_ac s) (ss_unassignedJobs s') k'"
    and qk: "\<And>b. map_of (q_items (ss_unassignedJobs s')) k = Some b \<Longrightarrow> b = a \<and> k \<notin> set (ss_assignedJobs s') \<and> k \<notin> set (ss_completedJobs s')"
    and ok: "job_ok s' k a"
  shows "sched_inv s'"
proof -
  have ac: "state_ac s' = state_ac s"
    using heap by (simp add: same_job_def job_ac_same)
  have mem: "k' \<in> set (ss_completedJobs s') \<longleftrightarrow> k' \<in> set (ss_completedJobs s)"
    "k' \<in> set (ss_assignedJobs s') \<longleftrightarrow> k' \<in> set (ss_assignedJobs s)" if "k' \<noteq> k" for k'
    using sets that by auto
  show ?thesis
    unfolding sched_inv_def jobs
  proof (intro conjI allI impI)
    show "queue_inv (state_ac s') (ss_unassignedJobs s')" using q(1) ac by simp
  next
    fix k' a' assume m: "map_of (ss_jobs s) k' = Some a'"
    show "job_ok s' k' a'"
    proof (cases "k' = k")
      case True
      then show ?thesis using m a ok by simp
    next
      case False
      then have "a' \<noteq> a" using addresses_distinct [OF inv a] m by blast
      then show ?thesis
        using sched_invD(2) [OF inv m] mem [OF False] q(2,3) [OF False] False ac heap jobs
        by (intro other_job_ok [of s k' a' k s']) simp_all
    qed
  next
    fix k' a' assume m: "map_of (q_items (ss_unassignedJobs s')) k' = Some a'"
    show "map_of (ss_jobs s) k' = Some a'" and "k' \<notin> set (ss_assignedJobs s')" and "k' \<notin> set (ss_completedJobs s')"
      using m a qk [of a'] q(2) [of k'] sched_invD(3) [OF inv, of k' a'] mem [of k'] by (cases "k' = k"; auto)+
  next
    have k: "k \<in> fst ` set (ss_jobs s)" using a by (metis map_of_Some_keys)
    show "set (ss_assignedJobs s') \<subseteq> fst ` set (ss_jobs s)" "set (ss_completedJobs s') \<subseteq> fst ` set (ss_jobs s)"
      using k mem inv unfolding sched_inv_def by blast+
  qed
qed

lemma CompleteJob_inv:
  assumes "sched_inv s"
  shows "sched_inv (snd (CompleteJob s k r b))"
proof (cases "map_of (ss_jobs s) k")
  case None
  then show ?thesis using assms by (simp add: CompleteJob_def)
next
  case (Some a)
  show ?thesis
    by (rule job_step_inv [OF assms Some, where j = "(ss_jobHeap s a)\<lparr>job_Status := (if b then Completed else Failed), job_Response := r\<rparr>"])
      (use Some sched_invD [OF assms] in \<open>auto simp: CompleteJob_def set_job_def same_job_def Let_def fresh_RemoveByID
        queue_inv_RemoveByID job_ok_def stage_of_def\<close>)
qed

lemma AssignJob_inv:
  assumes "sched_inv s" "stage_of s k = Some Active"
  shows "sched_inv (snd (AssignJob s k c))"
proof (cases "map_of (ss_jobs s) k")
  case None
  then show ?thesis using assms by (simp add: AssignJob_def)
next
  case (Some a)
  have "queue_fresh (state_ac s) (ss_unassignedJobs s) k" "job_Id (ss_jobHeap s a) = k" "k \<notin> set (ss_completedJobs s)"
    using sched_invD(2) [OF assms(1) Some] assms(2) by (auto simp: job_ok_def stage_of_def split: if_splits)
  then show ?thesis
    by (intro job_step_inv [OF assms(1) Some, where j = "(ss_jobHeap s a)\<lparr>job_AssignedClusterId := c, job_Status := Running\<rparr>"])
      (use Some sched_invD [OF assms(1)] in \<open>auto simp: AssignJob_def set_job_def same_job_def Let_def fresh_RemoveByID
        queue_inv_RemoveByID job_ok_def stage_of_def job_ac_same\<close>)
qed

lemma UnassignJob_inv:
  assumes "sched_inv s"
  shows "sched_inv (UnassignJob s k)"
proof (cases "map_of (ss_jobs s) k = None \<or> k \<in> set (ss_completedJobs s)")
  case True
  then show ?thesis using assms by (auto simp: UnassignJob_def split: option.split)
next
  case False
  then obtain a where a: "map_of (ss_jobs s) k = Some a" by auto
  let ?j = "(ss_jobHeap s a)\<lparr>job_Status := Pending, job_Response := None, job_AssignedClusterId := ''''\<rparr>"
  have ac: "job_ac ((ss_jobHeap s)(a := ?j)) = state_ac s" by (rule job_ac_same) simp_all
  have id: "idFn (state_ac s) a = k" using sched_invD(2) [OF assms a] by (simp add: job_ac_def job_ok_def)
  have "queue_fresh (state_ac s) (ss_unassignedJobs s) k \<or> map_of (q_items (ss_unassignedJobs s)) k = Some a"
    using sched_invD(2) [OF assms a] sched_invD(3) [OF assms, of k] a False
    by (auto simp: job_ok_def stage_of_def split: if_splits)
  then have push: "queue_inv (state_ac s) (Push (state_ac s) (ss_unassignedJobs s) a)"
    using pq.push_inv [OF sched_invD(1) [OF assms], of a] id by simp
  show ?thesis
    by (rule job_step_inv [OF assms a, where j = ?j])
      (use a False push id sched_invD(2) [OF assms a] in \<open>auto simp: UnassignJob_def set_job_def same_job_def Let_def ac
        job_ok_def stage_of_def fresh_Push pq.push_lookup\<close>)
qed

lemma queue_only_inv:
  assumes inv: "sched_inv s" and q: "queue_inv (state_ac s) q'" "map_of (q_items q') = map_of (q_items (ss_unassignedJobs s))"
    "\<And>k. queue_fresh (state_ac s) (ss_unassignedJobs s) k \<Longrightarrow> queue_fresh (state_ac s) q' k"
  shows "sched_inv (s\<lparr>ss_unassignedJobs := q'\<rparr>)"
proof -
  have stage: "stage_of (s\<lparr>ss_unassignedJobs := q'\<rparr>) = stage_of s" using q(2) by (simp add: stage_of_def fun_eq_iff)
  have "job_ok (s\<lparr>ss_unassignedJobs := q'\<rparr>) k a" if "job_ok s k a" for k a
    using that q(3) by (auto simp: job_ok_def stage split: option.splits stage.splits)
  then show ?thesis using inv q by (auto simp: sched_inv_def)
qed

lemma NextPendingJob_inv:
  assumes inv: "sched_inv s" and r: "NextPendingJob s c m = (r, s')"
  shows "sched_inv s'"
proof (cases "PopBestFit (state_ac s) (ss_unassignedJobs s) c m")
  case (Pair res q')
  note qi = sched_invD(1) [OF inv]
  note fresh = fresh_pop [OF Pair]
  show ?thesis
  proof (cases res)
    case None
    note p = Pair [unfolded None]
    then have "s' = s\<lparr>ss_unassignedJobs := q'\<rparr>" using r by (simp add: NextPendingJob_def)
    then show ?thesis using pq.pop_inv [OF qi p] pq.pop_nothing [OF qi p] fresh inv by (auto intro: queue_only_inv)
  next
    case (Some a)
    note p = Pair [unfolded Some]
    let ?k = "job_Id (ss_jobHeap s a)"
    have idf: "idFn (state_ac s) a = ?k" by (simp add: job_ac_def)
    have look: "map_of (q_items (ss_unassignedJobs s)) ?k = Some a" using pq.pop_stored [OF qi p] idf by simp
    have a: "map_of (ss_jobs s) ?k = Some a" "?k \<notin> set (ss_completedJobs s)" using sched_invD(3) [OF inv look] by simp_all
    have s': "s' = set_job a ((ss_jobHeap s a)\<lparr>job_AssignedClusterId := ''packing-in-progress'', job_Status := Running\<rparr>)
        (s\<lparr>ss_unassignedJobs := q', ss_assignedJobs := List.insert ?k (ss_assignedJobs s)\<rparr>)"
      using r p by (simp add: NextPendingJob_def Let_def)
    have ac: "job_ac ((ss_jobHeap s)(a := (ss_jobHeap s a)\<lparr>job_AssignedClusterId := ''packing-in-progress'', job_Status := Running\<rparr>)) = state_ac s"
      by (rule job_ac_same) simp_all
    have q': "queue_inv (state_ac s) q'" "map_of (q_items q') = (map_of (q_items (ss_unassignedJobs s)))(?k := None)"
      "queue_fresh (state_ac s) q' ?k"
      using pq.pop_inv [OF qi p] pq.pop_lookup [OF qi p] pq.pop_fresh [OF qi p] idf by simp_all
    show ?thesis
      by (rule job_step_inv [OF inv a(1), where j = "(ss_jobHeap s a)\<lparr>job_AssignedClusterId := ''packing-in-progress'', job_Status := Running\<rparr>"])
        (use a q' fresh in \<open>auto simp: s' set_job_def same_job_def job_ok_def stage_of_def ac\<close>)
  qed
qed

lemma PurgeJob_inv:
  assumes inv: "sched_inv s"
  shows "sched_inv (PurgeJob s k)"
proof (cases "map_of (ss_jobs s) k")
  case None
  then show ?thesis using inv by (simp add: PurgeJob_def)
next
  case (Some a)
  let ?s = "PurgeJob s k"
  have s': "ss_jobs ?s = AList.delete k (ss_jobs s)" "ss_unassignedJobs ?s = RemoveByID (ss_unassignedJobs s) k"
    "ss_assignedJobs ?s = removeAll k (ss_assignedJobs s)" "ss_completedJobs ?s = removeAll k (ss_completedJobs s)"
    "ss_jobHeap ?s = ss_jobHeap s"
    using Some by (simp_all add: PurgeJob_def)
  have ok: "job_ok ?s k' a'" if "map_of (ss_jobs s) k' = Some a'" "k' \<noteq> k" for k' a'
    using that sched_invD(2) [OF inv that(1)]
    by (intro other_job_ok [of s k' a' k ?s]) (simp_all add: s' fresh_RemoveByID)
  show ?thesis
    unfolding sched_inv_def s' map_of_delete_conv pq.remove_lookup
    using ok inv queue_inv_RemoveByID [OF sched_invD(1) [OF inv]]
    by (auto simp: sched_inv_def split: if_splits)
qed

lemma queue_cong:
  assumes agree: "\<And>x. x \<in> set (q_order q) \<union> snd ` set (q_items q) \<Longrightarrow> idFn ac' x = idFn ac x \<and> pack_key ac' x = pack_key ac x"
  shows "queue_inv ac q \<Longrightarrow> queue_inv ac' q" and "queue_fresh ac' q k = queue_fresh ac q k"
proof -
  have order: "map (idFn ac') (q_order q) = map (idFn ac) (q_order q)" "map (pack_key ac') (q_order q) = map (pack_key ac) (q_order q)"
    using agree by (simp_all cong: map_cong)
  have img: "idFn ac' ` set (q_order q) = idFn ac ` set (q_order q)"
    using arg_cong [OF order(1), of set] by (simp only: set_map)
  show "queue_fresh ac' q k = queue_fresh ac q k" by (simp only: queue_fresh_def img)
  assume inv: "queue_inv ac q"
  have "\<forall>(k, v)\<in>set (q_items q). idFn ac' v = k"
  proof
    fix x assume x: "x \<in> set (q_items q)"
    then have "case x of (k, v) \<Rightarrow> idFn ac v = k" using inv unfolding queue_inv_def queue_weak_def by blast
    with agree [of "snd x"] x show "case x of (k, v) \<Rightarrow> idFn ac' v = k" by (cases x) force
  qed
  with inv have weak: "queue_weak ac' q" unfolding queue_inv_def queue_weak_def img order(2) by blast
  have "v = x" if "x \<in> set (q_order q)" "map_of (q_items q) (idFn ac' x) = Some v" for x v
    using that agree [of x] inv unfolding queue_inv_def by simp
  with weak inv show "queue_inv ac' q" unfolding queue_inv_def order(1) img by blast
qed

lemma queue_new_address:
  assumes inv: "sched_inv s" and a: "a \<notin> ran (map_of (ss_jobs s))" "a \<notin> set (q_order (ss_unassignedJobs s))"
  shows "queue_inv (job_ac ((ss_jobHeap s)(a := j))) (ss_unassignedJobs s)"
    and "queue_fresh (job_ac ((ss_jobHeap s)(a := j))) (ss_unassignedJobs s) k = queue_fresh (state_ac s) (ss_unassignedJobs s) k"
proof -
  let ?h = "(ss_jobHeap s)(a := j)" and ?q = "ss_unassignedJobs s"
  have items: "b \<noteq> a" if "(k, b) \<in> set (q_items ?q)" for k b
    using that sched_invD(1,3) [OF inv] a(1) by (auto simp: queue_inv_def queue_weak_def ran_def)
  have agree: "idFn (job_ac ?h) x = idFn (state_ac s) x \<and> pack_key (job_ac ?h) x = pack_key (state_ac s) x"
    if "x \<in> set (q_order ?q) \<union> snd ` set (q_items ?q)" for x
  proof -
    have "x \<noteq> a" using that items a(2) by (metis UnE imageE prod.collapse)
    then show ?thesis by (simp add: job_ac_def pack_key_def)
  qed
  show "queue_inv (job_ac ?h) ?q" "queue_fresh (job_ac ?h) ?q k = queue_fresh (state_ac s) ?q k"
    using queue_cong [OF agree] sched_invD(1) [OF inv] by blast+
qed

lemma AppendJob_inv:
  assumes inv: "sched_inv s" and j: "job_Id j \<notin> fst ` set (ss_jobs s)" "queue_fresh (state_ac s) (ss_unassignedJobs s) (job_Id j)"
    and a: "a \<notin> ran (map_of (ss_jobs s))" "a \<notin> set (q_order (ss_unassignedJobs s))"
  shows "sched_inv (AppendJob (set_job a j s) a)"
proof -
  let ?k = "job_Id j" and ?h = "(ss_jobHeap s)(a := j\<lparr>job_Status := Pending\<rparr>)" and ?s = "AppendJob (set_job a j s) a"
  let ?q = "ss_unassignedJobs s"
  have s': "ss_jobHeap ?s = ?h" "ss_jobs ?s = AList.update ?k a (ss_jobs s)" "ss_unassignedJobs ?s = Push (job_ac ?h) ?q a"
    "ss_assignedJobs ?s = ss_assignedJobs s" "ss_completedJobs ?s = ss_completedJobs s"
    by (simp_all add: AppendJob_def set_job_def Let_def)
  note new_addr = queue_new_address [OF inv a, where j = "j\<lparr>job_Status := Pending\<rparr>"]
  note qi = new_addr(1) and fr = new_addr(2)
  have push: "queue_inv (job_ac ?h) (Push (job_ac ?h) ?q a)"
    using pq.push_inv [OF qi, of a] fr j(2) by (simp add: job_ac_def)
  have idk: "idFn (job_ac ?h) a = ?k" by (simp add: job_ac_def)
  have newk: "map_of (ss_jobs s) ?k = None" using j(1) by (simp add: map_of_None_keys)
  have notin: "?k \<notin> set (ss_assignedJobs s)" "?k \<notin> set (ss_completedJobs s)"
    using inv j(1) by (auto simp: sched_inv_def)
  have old: "job_ok ?s k' a'" if m: "map_of (ss_jobs s) k' = Some a'" for k' a'
  proof -
    have ne: "k' \<noteq> ?k" "a' \<noteq> a" using m newk a(1) by (auto simp: ran_def)
    then have "stage_of ?s k' = stage_of s k'" by (simp add: stage_of_def s' pq.push_lookup idk)
    with sched_invD(2) [OF inv m] ne show ?thesis
      by (auto simp: job_ok_def s' fresh_Push idk fr split: option.splits stage.splits)
  qed
  have new: "job_ok ?s ?k a" using notin by (simp add: job_ok_def stage_of_def s' pq.push_lookup idk)
  show ?thesis
    unfolding sched_inv_def
  proof (intro conjI allI impI)
    show "queue_inv (state_ac ?s) (ss_unassignedJobs ?s)" using push by (simp add: s')
  next
    fix k' a' assume "map_of (ss_jobs ?s) k' = Some a'"
    then show "job_ok ?s k' a'" using old new by (auto simp: s' split: if_splits)
  next
    fix k' a' assume "map_of (q_items (ss_unassignedJobs ?s)) k' = Some a'"
    then show "map_of (ss_jobs ?s) k' = Some a'" "k' \<notin> set (ss_assignedJobs ?s)" "k' \<notin> set (ss_completedJobs ?s)"
      using sched_invD(3) [OF inv, of k' a'] notin by (auto simp: s' pq.push_lookup idk split: if_splits)
  next
    show "set (ss_assignedJobs ?s) \<subseteq> fst ` set (ss_jobs ?s)" "set (ss_completedJobs ?s) \<subseteq> fst ` set (ss_jobs ?s)"
      using inv by (auto simp: s' sched_inv_def)
  qed
qed

subsection \<open>Runs of the scheduler state\<close>

text \<open>
  A run: jobs arrive under a new identifier at a new address, are popped, assigned, completed, rolled back
  and purged in any order. AssignJob is called on a job that was popped (attemptJobAssignment).
\<close>

inductive sched_step :: "CentralState \<Rightarrow> CentralState \<Rightarrow> bool" where
  step_append: "job_Id j \<notin> fst ` set (ss_jobs s) \<Longrightarrow> queue_fresh (state_ac s) (ss_unassignedJobs s) (job_Id j) \<Longrightarrow>
    a \<notin> ran (map_of (ss_jobs s)) \<Longrightarrow> a \<notin> set (q_order (ss_unassignedJobs s)) \<Longrightarrow> sched_step s (AppendJob (set_job a j s) a)"
| step_next: "NextPendingJob s c m = (r, s') \<Longrightarrow> sched_step s s'"
| step_assign: "stage_of s k = Some Active \<Longrightarrow> sched_step s (snd (AssignJob s k cl))"
| step_complete: "sched_step s (snd (CompleteJob s k res ok))"
| step_unassign: "sched_step s (UnassignJob s k)"
| step_purge: "sched_step s (PurgeJob s k)"
| step_read: "sched_step s (snd (QueueFreeCompletedJob now s k))"
| step_clusters: "ss_jobHeap s' = ss_jobHeap s \<Longrightarrow> ss_jobs s' = ss_jobs s \<Longrightarrow> ss_unassignedJobs s' = ss_unassignedJobs s \<Longrightarrow>
    ss_assignedJobs s' = ss_assignedJobs s \<Longrightarrow> ss_completedJobs s' = ss_completedJobs s \<Longrightarrow> sched_step s s'"

lemma sched_inv_cong:
  assumes "ss_jobHeap s' = ss_jobHeap s" "ss_jobs s' = ss_jobs s" "ss_unassignedJobs s' = ss_unassignedJobs s"
    "ss_assignedJobs s' = ss_assignedJobs s" "ss_completedJobs s' = ss_completedJobs s"
  shows "sched_inv s' = sched_inv s"
  using assms by (simp add: sched_inv_def job_ok_def stage_of_def)

lemma sched_step_inv: "sched_step s s' \<Longrightarrow> sched_inv s \<Longrightarrow> sched_inv s'"
proof (induction rule: sched_step.induct)
  case (step_read s now k)
  then show ?case
    by (subst sched_inv_cong [of _ s]) (auto simp: QueueFreeCompletedJob_def split: option.split)
next
  case (step_clusters s' s)
  then show ?case using sched_inv_cong by blast
qed (simp_all add: AppendJob_inv NextPendingJob_inv AssignJob_inv CompleteJob_inv UnassignJob_inv PurgeJob_inv)

lemma NewState_inv: "sched_inv (NewState jh ch key addr)"
  by (simp add: sched_inv_def NewState_def queue_inv_New) (simp add: NewQueue_def)

lemma sched_reachable_inv: "sched_step\<^sup>*\<^sup>* (NewState jh ch key addr) s \<Longrightarrow> sched_inv s"
  by (induction rule: rtranclp_induct) (auto simp: NewState_inv intro: sched_step_inv)

subsection \<open>Properties\<close>

lemma stage_of_not_Lost: "sched_inv s \<Longrightarrow> stage_of s k \<noteq> Some Lost"
  using sched_invD(2) [of s k] by (cases "map_of (ss_jobs s) k") (auto simp: stage_of_def job_ok_def split: if_splits)

definition demo_job :: Job where
  "demo_job = \<lparr>job_Id = ''j'', job_ImageAlias = ''img'', job_AssignedClusterId = '''', job_Status = Pending,
     job_CPURequirement = 2, job_MemoryRequirement = 4, job_Priority = 1, job_Payload = [], job_Response = None\<rparr>"

definition demo_cstate :: ClusterState where
  "demo_cstate = \<lparr>cs_ID = ''c'', cs_UsedCpu = 0, cs_UsedMem = 0, cs_MaxCpu = 8, cs_MaxMem = 16,
     cs_OptimisticUpdates = 0, cs_LastUpdated = 0\<rparr>"

definition demo_sched0 :: CentralState where
  "demo_sched0 = NewState (\<lambda>_. demo_job) (\<lambda>_. demo_cstate) ''s'' ''addr''"

definition demo_sched :: CentralState where
  "demo_sched = AppendJob (set_job 0 demo_job demo_sched0) 0"

lemmas demo_sched_defs = demo_sched_def demo_sched0_def NewState_def NewQueue_def AppendJob_def set_job_def Let_def
  Push_def job_ac_def demo_job_def

lemma demo_sched_reachable: "sched_step\<^sup>*\<^sup>* (NewState (\<lambda>_. demo_job) (\<lambda>_. demo_cstate) ''s'' ''addr'') demo_sched"
proof -
  have "sched_step demo_sched0 demo_sched"
    unfolding demo_sched_def
    by (rule sched_step.step_append) (simp_all add: demo_sched0_def NewState_def NewQueue_def queue_fresh_def)
  then show ?thesis by (simp add: demo_sched0_def)
qed



lemma NextPendingJob_Some:
  assumes inv: "sched_inv s" and n: "NextPendingJob s c m = (Some a, s')"
  shows "stage_of s (job_Id (ss_jobHeap s a)) = Some Waiting"
    "stage_of s' = (stage_of s)(job_Id (ss_jobHeap s a) \<mapsto> Active)"
    "fits (state_ac s) c m a" "map_of (ss_jobs s) (job_Id (ss_jobHeap s a)) = Some a"
    "map_of (q_items (ss_unassignedJobs s)) k = Some b \<Longrightarrow> fits (state_ac s) c m b \<Longrightarrow> \<not> packs_before (state_ac s) b a"
proof -
  let ?k = "job_Id (ss_jobHeap s a)"
  from n obtain q' where p: "PopBestFit (state_ac s) (ss_unassignedJobs s) c m = (Some a, q')"
    and s': "ss_jobs s' = ss_jobs s" "ss_completedJobs s' = ss_completedJobs s" "ss_assignedJobs s' = List.insert ?k (ss_assignedJobs s)"
      "ss_unassignedJobs s' = q'"
    by (auto simp: NextPendingJob_def set_job_def Let_def split: prod.splits option.splits)
  note qi = sched_invD(1) [OF inv]
  have idf: "idFn (state_ac s) a = ?k" by (simp add: job_ac_def)
  have look: "map_of (q_items (ss_unassignedJobs s)) ?k = Some a" using pq.pop_stored [OF qi p] idf by simp
  note st = sched_invD(3) [OF inv look]
  show "stage_of s ?k = Some Waiting" "map_of (ss_jobs s) ?k = Some a" using st look by (simp_all add: stage_of_def)
  show "stage_of s' = (stage_of s)(?k \<mapsto> Active)"
    using st pq.pop_lookup [OF qi p] idf by (auto simp: fun_eq_iff stage_of_def s')
  show "fits (state_ac s) c m a" using pq.pop_stored [OF qi p] by simp
  show "map_of (q_items (ss_unassignedJobs s)) k = Some b \<Longrightarrow> fits (state_ac s) c m b \<Longrightarrow> \<not> packs_before (state_ac s) b a"
    using pq.pop_best [OF qi p] by blast
qed

lemma NextPendingJob_none:
  assumes inv: "sched_inv s" and r: "NextPendingJob s c m = (None, s')"
  shows "sched_inv s'" "stage_of s' = stage_of s" "ss_jobs s' = ss_jobs s" "ss_jobHeap s' = ss_jobHeap s"
proof -
  from r obtain q where p: "PopBestFit (state_ac s) (ss_unassignedJobs s) c m = (None, q)" and s': "s' = s\<lparr>ss_unassignedJobs := q\<rparr>"
    by (auto simp: NextPendingJob_def Let_def split: prod.splits option.splits)
  show "sched_inv s'" by (rule NextPendingJob_inv [OF inv r])
  show "stage_of s' = stage_of s" using pq.pop_nothing [OF sched_invD(1) [OF inv] p] by (simp add: fun_eq_iff stage_of_def s')
  show "ss_jobs s' = ss_jobs s" "ss_jobHeap s' = ss_jobHeap s" by (simp_all add: s')
qed

lemma AssignJob_stage:
  assumes "stage_of s k = Some Active"
  shows "stage_of (snd (AssignJob s k c)) = stage_of s"
proof
  fix x
  have k: "k \<in> set (ss_assignedJobs s)" "k \<notin> set (ss_completedJobs s)" "map_of (ss_jobs s) k \<noteq> None"
    using assms by (auto simp: stage_of_def split: if_splits)
  then show "stage_of (snd (AssignJob s k c)) x = stage_of s x"
    by (cases "x = k") (auto simp: AssignJob_def stage_of_def set_job_def Let_def)
qed

lemma CompleteJob_stage:
  "stage_of (snd (CompleteJob s k r b)) = (if map_of (ss_jobs s) k = None then stage_of s else (stage_of s)(k \<mapsto> Done))"
proof (cases "map_of (ss_jobs s) k")
  case None
  then show ?thesis by (simp add: CompleteJob_def)
next
  case (Some a)
  have "stage_of (snd (CompleteJob s k r b)) x = ((stage_of s)(k \<mapsto> Done)) x" for x
    by (cases "x = k") (simp_all add: Some CompleteJob_def stage_of_def set_job_def Let_def)
  with Some show ?thesis by (simp add: fun_eq_iff)
qed

lemma UnassignJob_stage:
  assumes "sched_inv s"
  shows "stage_of (UnassignJob s k) =
    (if stage_of s k = Some Active \<or> stage_of s k = Some Waiting then (stage_of s)(k \<mapsto> Waiting) else stage_of s)"
proof (cases "map_of (ss_jobs s) k = None \<or> k \<in> set (ss_completedJobs s)")
  case True
  then have "UnassignJob s k = s" by (auto simp: UnassignJob_def split: option.split)
  with True show ?thesis by (auto simp: stage_of_def)
next
  case False
  then obtain a where a: "map_of (ss_jobs s) k = Some a" by auto
  have idk: "job_Id (ss_jobHeap s a) = k" using sched_invD(2) [OF assms a] by (simp add: job_ok_def)
  have "stage_of s k = Some Active \<or> stage_of s k = Some Waiting"
    using stage_of_not_Lost [OF assms, of k] False by (auto simp: stage_of_def split: if_splits)
  moreover have "stage_of (UnassignJob s k) x = ((stage_of s)(k \<mapsto> Waiting)) x" for x
    using a False idk
    by (cases "x = k") (simp_all add: UnassignJob_def stage_of_def set_job_def Let_def pq.push_lookup job_ac_def)
  ultimately show ?thesis by (simp add: fun_eq_iff)
qed

lemma PurgeJob_stage: "stage_of (PurgeJob s k) = (stage_of s)(k := None)"
proof
  fix x
  show "stage_of (PurgeJob s k) x = ((stage_of s)(k := None)) x"
    by (cases "x = k"; cases "map_of (ss_jobs s) k") (simp_all add: PurgeJob_def stage_of_def)
qed

text \<open>
  C19 (the operations implement the life cycle of a job). Seen through \<open>stage_of\<close>, NextPendingJob moves one waiting
  job to active, AssignJob keeps an active job active, CompleteJob moves a known job to done, UnassignJob
  moves a job that is not done back to waiting, and PurgeJob forgets it; no other job moves.
\<close>

theorem job_operations_refine:
  assumes "sched_inv s"
  shows "(NextPendingJob s c m = (Some a, s1) \<longrightarrow>
       stage_of s (job_Id (ss_jobHeap s a)) = Some Waiting \<and> stage_of s1 = (stage_of s)(job_Id (ss_jobHeap s a) \<mapsto> Active)) \<and>
    (stage_of s k = Some Active \<longrightarrow> stage_of (snd (AssignJob s k cl)) = stage_of s) \<and>
    stage_of (snd (CompleteJob s k r b)) = (if stage_of s k = None then stage_of s else (stage_of s)(k \<mapsto> Done)) \<and>
    stage_of (UnassignJob s k) =
      (if stage_of s k = Some Active \<or> stage_of s k = Some Waiting then (stage_of s)(k \<mapsto> Waiting) else stage_of s) \<and>
    stage_of (PurgeJob s k) = (stage_of s)(k := None)"
  using NextPendingJob_Some(1,2) [OF assms] AssignJob_stage [of s k] CompleteJob_stage [of s k r b]
    UnassignJob_stage [OF assms, of k] PurgeJob_stage [of s k]
  by (auto simp: stage_of_def [of s k])

theorem job_operations_refine_witness:
  "stage_of demo_sched ''j'' = Some Waiting \<and> stage_of (UnassignJob demo_sched ''j'') = stage_of demo_sched"
proof -
  have w: "stage_of demo_sched ''j'' = Some Waiting" by (simp add: stage_of_def demo_sched_defs)
  have "stage_of (UnassignJob demo_sched ''j'') = (stage_of demo_sched)(''j'' \<mapsto> Waiting)"
    using job_operations_refine [OF sched_reachable_inv [OF demo_sched_reachable], of 0 0 0 demo_sched "''j''" "''c''" None True] w by simp
  with w show ?thesis by (simp add: fun_eq_iff)
qed

subsection \<open>The interface of the scheduler state\<close>

text \<open>
  What packer, service and monitors rely on: the stage of a job (\<open>None\<close> for an unknown one) and how each operation
  moves it. \<open>claim\<close> is NextPendingJob, \<open>job_at\<close> the identifier of the job at an address.
\<close>

locale job_tracker =
  fixes inv :: "'s \<Rightarrow> bool"
    and stage :: "'s \<Rightarrow> string \<Rightarrow> stage option"
    and job_at :: "'s \<Rightarrow> nat \<Rightarrow> string"
    and claim :: "'s \<Rightarrow> int \<Rightarrow> int \<Rightarrow> nat option \<times> 's"
    and assign :: "'s \<Rightarrow> string \<Rightarrow> string \<Rightarrow> bool \<times> 's"
    and unassign :: "'s \<Rightarrow> string \<Rightarrow> 's"
    and complete :: "'s \<Rightarrow> string \<Rightarrow> bytes option \<Rightarrow> bool \<Rightarrow> bool \<times> 's"
    and purge :: "'s \<Rightarrow> string \<Rightarrow> 's"
  assumes claim_inv: "inv s \<Longrightarrow> claim s c m = (r, s') \<Longrightarrow> inv s'"
    and claim_some: "inv s \<Longrightarrow> claim s c m = (Some a, s') \<Longrightarrow>
      stage s (job_at s a) = Some Waiting \<and> stage s' = (stage s)(job_at s a \<mapsto> Active)"
    and claim_none: "inv s \<Longrightarrow> claim s c m = (None, s') \<Longrightarrow> stage s' = stage s"
    and assign_keeps: "inv s \<Longrightarrow> stage s k = Some Active \<Longrightarrow> assign s k cl = (ok, s') \<Longrightarrow> ok \<and> inv s' \<and> stage s' = stage s"
    and unassign_inv: "inv s \<Longrightarrow> inv (unassign s k)"
    and unassign_stage: "inv s \<Longrightarrow> stage (unassign s k) =
      (if stage s k = Some Active \<or> stage s k = Some Waiting then (stage s)(k \<mapsto> Waiting) else stage s)"
    and complete_inv: "inv s \<Longrightarrow> inv (snd (complete s k res ok))"
    and complete_stage: "stage (snd (complete s k res ok)) = (if stage s k = None then stage s else (stage s)(k \<mapsto> Done))"
    and purge_inv: "inv s \<Longrightarrow> inv (purge s k)"
    and purge_stage: "stage (purge s k) = (stage s)(k := None)"
begin

text \<open>A claimed job whose assignment fails goes back, and every job has the stage it had.\<close>

lemma claim_rollback:
  assumes "inv s" "claim s c m = (Some a, s1)" "assign s1 (job_at s a) cl = (ok, s2)"
  shows "ok \<and> inv (unassign s2 (job_at s a)) \<and> stage (unassign s2 (job_at s a)) = stage s"
proof -
  note cl = claim_some [OF assms(1,2)]
  have act: "stage s1 (job_at s a) = Some Active" using cl by simp
  note as = assign_keeps [OF claim_inv [OF assms(1,2)] act assms(3)]
  then have "stage (unassign s2 (job_at s a)) = (stage s1)(job_at s a \<mapsto> Waiting)" using unassign_stage act by simp
  then show ?thesis using as cl unassign_inv by (auto simp: fun_eq_iff)
qed

text \<open>Two claims in a row never hand out the same job.\<close>

lemma claim_twice_distinct:
  assumes "inv s" "claim s c m = (Some a, s1)" "claim s1 c' m' = (Some b, s2)"
  shows "job_at s a \<noteq> job_at s1 b"
  using claim_some [OF assms(1,2)] claim_some [OF claim_inv [OF assms(1,2)] assms(3)] by (auto split: if_splits)

text \<open>Giving back a list of jobs, and forgetting one.\<close>

lemma unassign_all:
  assumes "inv s"
  shows "inv (fold (\<lambda>k s. unassign s k) ks s) \<and>
    stage (fold (\<lambda>k s. unassign s k) ks s) x = (if x \<in> set ks \<and> stage s x = Some Active then Some Waiting else stage s x)"
  using assms
proof (induction ks arbitrary: s)
  case (Cons k ks)
  then show ?case using unassign_inv [OF Cons.prems, of k] by (auto simp: unassign_stage split: if_splits)
qed simp

lemma purge_all:
  "inv s \<Longrightarrow> inv (fold (\<lambda>k s. purge s k) ks s)"
  "stage (fold (\<lambda>k s. purge s k) ks s) x = (if x \<in> set ks then None else stage s x)"
  by (induction ks arbitrary: s) (simp_all add: purge_inv purge_stage)

text \<open>A completed job is out of reach of the operations that move jobs.\<close>

lemma done_final:
  assumes "inv s" "stage s k = Some Done"
  shows "stage (unassign s k') k = Some Done" "stage (snd (complete s k' res ok)) k = Some Done"
    "claim s c m = (r, s') \<Longrightarrow> stage s' k = Some Done"
proof -
  show "stage (unassign s k') k = Some Done" "stage (snd (complete s k' res ok)) k = Some Done"
    using assms by (auto simp: unassign_stage complete_stage)
  show "stage s' k = Some Done" if cl: "claim s c m = (r, s')"
  proof (cases r)
    case None
    then show ?thesis using claim_none [OF assms(1)] cl assms(2) by simp
  next
    case (Some a)
    then show ?thesis using claim_some [OF assms(1), of c m a s'] cl assms(2) by (cases "k = job_at s a") simp_all
  qed
qed

end

interpretation jt: job_tracker sched_inv stage_of "\<lambda>s a. job_Id (ss_jobHeap s a)" NextPendingJob AssignJob UnassignJob CompleteJob PurgeJob
proof (unfold_locales, goal_cases)
  case (4 s k cl ok s')
  have ok using 4 by (auto simp: AssignJob_def stage_of_def Let_def split: option.splits if_splits)
  then show ?case using AssignJob_inv [OF 4(1,2), of cl] AssignJob_stage [OF 4(2), of cl] 4(3) by simp
next
  case (8 s k res ok)
  have "map_of (ss_jobs s) k = None \<longleftrightarrow> stage_of s k = None" by (simp add: stage_of_def)
  then show ?case by (simp add: CompleteJob_stage)
qed (auto simp: NextPendingJob_Some NextPendingJob_none UnassignJob_stage PurgeJob_stage
    intro: NextPendingJob_inv UnassignJob_inv CompleteJob_inv PurgeJob_inv)

lemma ClearCompletedJobs_inv: "sched_inv s \<Longrightarrow> sched_inv (ClearCompletedJobs now s)"
  by (simp add: ClearCompletedJobs_def jt.purge_all(1))

end
