(* ===== verification/SchedService.thy ===== *)
theory SchedService
  imports SchedState RaftNode
begin

section \<open>The scheduler's services (internal/scheduler/service)\<close>

text \<open>
  The clients of the scheduler (the consensus group in service/consensus, the worker clusters in
  service/cluster, the peer schedulers in service/coordinate) and the server it offers to clients and peers
  (coordinate/handler.go). A remote call is an argument: its response, or \<open>None\<close> when the RPC fails.
  JSON encoding and decoding, identifiers and addresses of new jobs are arguments too.
\<close>

subsection \<open>The consensus client\<close>

datatype commit_error =
    CommitNetwork
  | CommitDial
  | CommitBadPayload
  | CommitBadOrigin
  | CommitNoQuorum
  | ErrCASConcurrentConflict
  | CommitUnknown
  | CommitSerialize

record RaftClient =
  rc_address :: string
  rc_addressPool :: "string list"
  rc_conn :: bool
  rc_closed :: bool
  rc_healing :: bool

text \<open>
  \<open>rc_conn\<close>: the connection is not nil, \<open>rc_closed\<close>: it has been closed. \<open>dial\<close> says whether \<^verbatim>\<open>grpc.NewClient\<close> accepts an
  address; when it does not, the old connection has been closed already and stays in place.
\<close>

definition switchConnection :: "(string \<Rightarrow> bool) \<Rightarrow> RaftClient \<Rightarrow> string \<Rightarrow> bool \<times> RaftClient" where
  "switchConnection dial c newAddr =
     (let c = c\<lparr>rc_closed := rc_conn c\<rparr> in
      if dial newAddr then (True, c\<lparr>rc_address := newAddr, rc_conn := True, rc_closed := False\<rparr>) else (False, c))"

text \<open>healConnection tries the pool in order; \<open>reachable\<close> is the answer of the probing GetData.\<close>

fun heal_loop :: "(string \<Rightarrow> bool) \<Rightarrow> (string \<Rightarrow> bool) \<Rightarrow> string list \<Rightarrow> RaftClient \<Rightarrow> bool \<times> RaftClient" where
  "heal_loop dial reachable [] c = (False, c)"
| "heal_loop dial reachable (addr # pool) c =
     (case switchConnection dial c addr of
        (False, c1) \<Rightarrow> heal_loop dial reachable pool c1
      | (True, c1) \<Rightarrow> if reachable addr then (True, c1) else heal_loop dial reachable pool c1)"

definition healConnection :: "(string \<Rightarrow> bool) \<Rightarrow> (string \<Rightarrow> bool) \<Rightarrow> RaftClient \<Rightarrow> bool \<times> RaftClient" where
  "healConnection dial reachable c =
     (if rc_healing c then (True, c)
      else case heal_loop dial reachable (rc_addressPool c) (c\<lparr>rc_healing := True\<rparr>) of
        (ok, c1) \<Rightarrow> (ok, c1\<lparr>rc_healing := False\<rparr>))"

definition NewRaftClient :: "(string \<Rightarrow> bool) \<Rightarrow> (string \<Rightarrow> bool) \<Rightarrow> string list \<Rightarrow> RaftClient option" where
  "NewRaftClient dial reachable addresses =
     (if addresses = [] then None
      else case healConnection dial reachable \<lparr>rc_address = '''', rc_addressPool = addresses, rc_conn = False,
          rc_closed = False, rc_healing = False\<rparr> of
        (True, c) \<Rightarrow> Some c
      | (False, _) \<Rightarrow> None)"

definition RaftClient_Close :: "RaftClient \<Rightarrow> RaftClient" where
  "RaftClient_Close c = (if rc_conn c then c\<lparr>rc_closed := True\<rparr> else c)"

definition ConnectionStatus :: "connectivity \<Rightarrow> RaftClient \<Rightarrow> bool" where
  "ConnectionStatus st c = (if rc_healing c then True else if \<not> rc_conn c then False else st \<noteq> TransientFailure)"

text \<open>
  A redirect to an address that cannot be dialled leaves the client with a closed connection, and the check of the
  connection still says that it is fine: gRPC reports a closed connection as Shutdown.
\<close>

lemma closed_connection_reported_up:
  assumes "\<not> dial addr" "rc_conn c"
  shows "switchConnection dial c addr = (False, c\<lparr>rc_closed := True\<rparr>)" "ConnectionStatus Shutdown (c\<lparr>rc_closed := True\<rparr>)"
  using assms by (simp_all add: switchConnection_def ConnectionStatus_def)

definition commitPayload :: "(string \<Rightarrow> bool) \<Rightarrow> AppendResponse option \<Rightarrow> RaftClient \<Rightarrow> commit_error option \<times> RaftClient" where
  "commitPayload dial resp c =
     (case resp of
        None \<Rightarrow> (Some CommitNetwork, c)
      | Some resp \<Rightarrow>
          let redirect = (ar_Status resp \<noteq> APPEND_RESPONSE_SUCCESS \<and> ar_LeaderAddress resp \<noteq> rc_address c \<and> ar_LeaderAddress resp \<noteq> '''');
              (ok, c1) = (if redirect then switchConnection dial c (ar_LeaderAddress resp) else (True, c))
          in if \<not> ok then (Some CommitDial, c1)
             else (case ar_Status resp of
               APPEND_RESPONSE_SUCCESS \<Rightarrow> (None, c1)
             | APPEND_RESPONSE_BAD_PAYLOAD \<Rightarrow> (Some CommitBadPayload, c1)
             | APPEND_RESPONSE_BAD_ORIGIN_ID \<Rightarrow> (Some CommitBadOrigin, c1)
             | APPEND_RESPONSE_FAILED_CONSENSUS \<Rightarrow> (Some CommitNoQuorum, c1)
             | APPEND_RESPONSE_CONCURRENT_CLAIM \<Rightarrow> (Some ErrCASConcurrentConflict, c1)
             | APPEND_RESPONSE_NEEDS_SNAPSHOT \<Rightarrow> (Some CommitUnknown, c1)))"

text \<open>The payload CommitJob serialises: the requirements of the job are not set, so they are zero.\<close>

definition job_payload :: "Job \<Rightarrow> JobPayload" where
  "job_payload job = \<lparr>jp_ID = job_Id job, jp_State = job_Status job, jp_Image = job_ImageAlias job, jp_Priority = job_Priority job,
     jp_CPURequirement = 0, jp_MemoryRequirement = 0, jp_Payload = job_Payload job\<rparr>"

definition CommitJob :: "(JobPayload \<Rightarrow> bytes option) \<Rightarrow> string \<Rightarrow> string \<Rightarrow> Job \<Rightarrow> RawAppendRequest option" where
  "CommitJob marshal reqID schedulerID job =
     map_option (\<lambda>payload. \<lparr>rq_OriginNodeId = '''', rq_RequestId = reqID, rq_SchedulerId = schedulerID, rq_Payload = payload\<rparr>)
       (marshal (job_payload job))"

definition CommitSchedulerEvent :: "(SchedulerPayload \<Rightarrow> bytes option) \<Rightarrow> int \<Rightarrow> string \<Rightarrow> string \<Rightarrow> string \<Rightarrow> string \<Rightarrow>
    RawAppendRequest option" where
  "CommitSchedulerEvent marshal nowMillis reqID originSchedulerID schedulerID event =
     map_option (\<lambda>payload. \<lparr>rq_OriginNodeId = '''', rq_RequestId = reqID, rq_SchedulerId = schedulerID, rq_Payload = payload\<rparr>)
       (marshal \<lparr>sp_ID = schedulerID, sp_OriginSchedulerID = originSchedulerID, sp_Entry = event, sp_Timestamp = nowMillis\<rparr>)"

text \<open>FetchData returns the payloads and the exists flag of the response.\<close>

definition FetchJob :: "(bytes \<Rightarrow> JobPayload option) \<Rightarrow> (bytes list \<times> bool) option \<Rightarrow> Job option" where
  "FetchJob unmarshal resp =
     (case resp of
        None \<Rightarrow> None
      | Some (data, ok) \<Rightarrow>
          if \<not> ok \<or> data = [] then None else map_option CastFromGlobalModel (unmarshal (hd data)))"

definition FetchSchedulerEvent :: "(bytes \<Rightarrow> SchedulerPayload option) \<Rightarrow> (bytes list \<times> bool) option \<Rightarrow> string \<Rightarrow> SchedulerPayload option" where
  "FetchSchedulerEvent unmarshal resp schedulerID =
     (case resp of
        None \<Rightarrow> None
      | Some (data, ok) \<Rightarrow>
          if \<not> ok \<or> data = [] then None
          else case unmarshal (hd data) of
            None \<Rightarrow> None
          | Some eventPayload \<Rightarrow> if sp_ID eventPayload \<noteq> schedulerID then None else Some eventPayload)"

subsection \<open>The cluster client\<close>

record ClusterConn =
  cc_nodeID :: string
  cc_connected :: bool

definition cluster_monitor :: "connectivity \<Rightarrow> ClusterConn \<Rightarrow> ClusterConn" where
  "cluster_monitor newState c =
     (if newState = Ready then c\<lparr>cc_connected := True\<rparr>
      else if newState = Idle \<or> newState = TransientFailure then c\<lparr>cc_connected := False\<rparr> else c)"

definition FetchClusterStatus :: "ClusterStatusResponse option \<Rightarrow> ClusterConn \<Rightarrow> ClusterStatusResponse option" where
  "FetchClusterStatus resp c = (if \<not> cc_connected c then None else resp)"

text \<open>DispatchJob: whether the cluster took the job (\<open>None\<close> on an error), and the state; \<open>accept\<close> is the RPC AppendJob.\<close>

definition dispatchable :: "Job \<Rightarrow> bool" where
  "dispatchable job \<longleftrightarrow> job_Id job \<noteq> '''' \<and> job_ImageAlias job \<noteq> '''' \<and> job_CPURequirement job > 0 \<and> job_MemoryRequirement job > 0"

definition dispatch_request :: "Job \<Rightarrow> JobRequest" where
  "dispatch_request job =
     \<lparr>jr_JobId = job_Id job, jr_RequiredNanoCpu = job_CPURequirement job, jr_RequiredMemoryBytes = job_MemoryRequirement job,
      jr_ImageAlias = job_ImageAlias job, jr_Priority = job_Priority job, jr_Payload = job_Payload job\<rparr>"

definition DispatchJob :: "ClusterConn \<Rightarrow> (JobRequest \<Rightarrow> bool option) \<Rightarrow> Job \<Rightarrow> CentralState \<Rightarrow> bool option \<times> CentralState" where
  "DispatchJob c accept job s =
     (if \<not> cc_connected c \<or> \<not> dispatchable job then (None, s)
      else case accept (dispatch_request job) of
        None \<Rightarrow> (None, s)
      | Some ok \<Rightarrow> (Some ok, if ok then snd (AssignJob s (job_Id job) (cc_nodeID c)) else s))"

record JobEvent =
  je_JobID :: string
  je_Status :: Status
  je_Priority :: int
  je_ImageAlias :: string
  je_Payload :: "bytes option"

definition ParseJobEvent :: "JobStatusResponse \<Rightarrow> JobEvent" where
  "ParseJobEvent resp =
     \<lparr>je_JobID = jsr_JobId resp,
      je_Status = (case jsr_Status resp of JOB_STATUS_PENDING \<Rightarrow> Pending | JOB_STATUS_RUNNING \<Rightarrow> Running
        | JOB_STATUS_COMPLETED \<Rightarrow> Completed | JOB_STATUS_FAILED \<Rightarrow> Failed | JOB_STATUS_UNKNOWN \<Rightarrow> Failed),
      je_Priority = jsr_Priority resp, je_ImageAlias = jsr_ImageAlias resp, je_Payload = jsr_Payload resp\<rparr>"

text \<open>One event of the stream monitorJobStatuses reads.\<close>

definition job_event :: "JobStatusResponse \<Rightarrow> CentralState \<Rightarrow> CentralState" where
  "job_event resp s =
     (let event = ParseJobEvent resp in
      if je_Status event = Completed \<or> je_Status event = Failed
      then snd (CompleteJob s (je_JobID event) (je_Payload event) (je_Status event = Completed)) else s)"

subsection \<open>The connections of a scheduler\<close>

text \<open>\<open>dial\<close> says whether the connection to a cluster can be set up; a new connection starts disconnected.\<close>

definition ConnectClusters :: "(string \<Rightarrow> bool) \<Rightarrow> (string, string) gomap \<Rightarrow> (string, ClusterConn) gomap \<Rightarrow> (string, ClusterConn) gomap" where
  "ConnectClusters dial clusters conns =
     fold (\<lambda>(key, addr) conns.
         if map_of conns key \<noteq> None \<or> \<not> dial addr then conns
         else AList.update key \<lparr>cc_nodeID = key, cc_connected = False\<rparr> conns) clusters conns"

definition ClusterIDs :: "(string, ClusterConn) gomap \<Rightarrow> string list" where
  "ClusterIDs conns = map fst conns"

definition Cluster :: "(string, ClusterConn) gomap \<Rightarrow> string \<Rightarrow> ClusterConn option" where
  "Cluster conns key = map_of conns key"

subsection \<open>The coordination server\<close>

record RedistributeRequest =
  rr_OriginSchedulerId :: string
  rr_JobId :: string
  rr_Gossip :: bool
  rr_RequiredNanoCpu :: int
  rr_RequiredMemoryBytes :: int
  rr_ImageAlias :: "string option"
  rr_Priority :: "int option"
  rr_Payload :: bytes

definition new_job :: "string \<Rightarrow> string \<Rightarrow> int \<Rightarrow> int \<Rightarrow> int \<Rightarrow> bytes \<Rightarrow> Job" where
  "new_job key alias cpu mem prio payload =
     \<lparr>job_Id = key, job_ImageAlias = alias, job_AssignedClusterId = '''', job_Status = 0, job_CPURequirement = cpu,
      job_MemoryRequirement = mem, job_Priority = prio, job_Payload = payload, job_Response = None\<rparr>"

text \<open>\<open>a\<close> is the address of the new job, \<open>key\<close> the new identifier. Optional fields that are absent read as empty or zero.\<close>

definition RequestJob :: "nat \<Rightarrow> string \<Rightarrow> int \<Rightarrow> int \<Rightarrow> string option \<Rightarrow> int option \<Rightarrow> bytes \<Rightarrow> CentralState \<Rightarrow>
    (string \<times> bool) \<times> CentralState" where
  "RequestJob a key cpu mem alias prio payload s =
     ((key, True), AppendJob (set_job a
        (new_job key (case alias of None \<Rightarrow> '''' | Some x \<Rightarrow> x) cpu mem (case prio of None \<Rightarrow> 0 | Some p \<Rightarrow> p) payload) s) a)"

text \<open>RequestJobStatus: the status string with the result; \<open>None\<close> is the nil response with a nil error.\<close>

definition RequestJobStatus :: "time \<Rightarrow> string \<Rightarrow> CentralState \<Rightarrow> (string \<times> int \<times> string \<times> bytes \<times> bytes option) option \<times> CentralState" where
  "RequestJobStatus now jobId s =
     (case State_Job s jobId of
        None \<Rightarrow> (Some (''NOT_FOUND'', - 1, '''', [], None), s)
      | Some a \<Rightarrow>
          let job = ss_jobHeap s a;
              (ok, s1) = (if job_Status job = Completed then QueueFreeCompletedJob now s jobId else (True, s))
          in if \<not> ok then (None, s1)
             else (Some (Status_String (job_Status job), wrap32 (job_Priority job), job_ImageAlias job, job_Payload job, job_Response job), s1))"

text \<open>Redistribute: a missing alias or priority is dereferenced and panics (\<open>None\<close>).\<close>

definition Redistribute :: "nat \<Rightarrow> RedistributeRequest \<Rightarrow> CentralState \<Rightarrow> (bool \<times> CentralState) option" where
  "Redistribute a req s =
     (if LeastUtilizedCluster s (rr_RequiredNanoCpu req) (rr_RequiredMemoryBytes req) = '''' \<and>
         AtMaximumCapacity s (rr_RequiredNanoCpu req) (rr_RequiredMemoryBytes req)
      then Some (False, s)
      else if rr_Gossip req then Some (True, s)
      else case (rr_ImageAlias req, rr_Priority req) of
        (Some alias, Some prio) \<Rightarrow>
          Some (True, AppendJob (set_job a
            (new_job (rr_JobId req) alias (rr_RequiredNanoCpu req) (rr_RequiredMemoryBytes req) prio (rr_Payload req)) s) a)
      | _ \<Rightarrow> None)"

definition Heartbeat :: "time \<Rightarrow> string \<Rightarrow> (string \<times> int \<times> int \<times> int \<times> int) list \<Rightarrow> CentralState \<Rightarrow> CentralState" where
  "Heartbeat now schedulerId usages s =
     snd (UpdateSchedulerState now s schedulerId
       (fold (\<lambda>(key, ucpu, umem, tcpu, tmem) m. AList.update key \<lparr>cs_ID = key, cs_UsedCpu = ucpu, cs_UsedMem = umem,
          cs_MaxCpu = tcpu, cs_MaxMem = tmem, cs_OptimisticUpdates = 0, cs_LastUpdated = now\<rparr> m) usages []))"

definition ListJobs :: "CentralState \<Rightarrow> int \<times> string list \<times> string list \<times> string list" where
  "ListJobs s =
     (wrap32 (int (length (CompletedJobs s) + length (ActiveJobs s) + length (PendingJobs s))),
      CompletedJobs s, ActiveJobs s, PendingJobs s)"

subsection \<open>The peer client\<close>

record PeerConn =
  pc_nodeID :: string
  pc_connected :: bool

definition peer_monitor :: "connectivity \<Rightarrow> PeerConn \<Rightarrow> PeerConn" where
  "peer_monitor st c = c\<lparr>pc_connected := (st = Ready)\<rparr>"

text \<open>OpConn applies an operation to the first connection of the scheduler; without one it reports success.\<close>

fun OpConn :: "PeerConn list \<Rightarrow> string \<Rightarrow> (PeerConn \<Rightarrow> 's \<Rightarrow> bool \<times> 's) \<Rightarrow> 's \<Rightarrow> bool \<times> 's" where
  "OpConn [] schedulerId op s = (True, s)"
| "OpConn (conn # conns) schedulerId op s =
     (if pc_nodeID conn \<noteq> schedulerId then OpConn conns schedulerId op s else op conn s)"

definition redistribute_request :: "string \<Rightarrow> Job \<Rightarrow> bool \<Rightarrow> RedistributeRequest" where
  "redistribute_request originID job gossip =
     \<lparr>rr_OriginSchedulerId = originID, rr_JobId = job_Id job, rr_Gossip = gossip, rr_RequiredNanoCpu = job_CPURequirement job,
      rr_RequiredMemoryBytes = job_MemoryRequirement job, rr_ImageAlias = Some (job_ImageAlias job),
      rr_Priority = Some (job_Priority job), rr_Payload = job_Payload job\<rparr>"

definition Conn_Redistribute :: "(string \<Rightarrow> RedistributeRequest \<Rightarrow> bool option) \<Rightarrow> string \<Rightarrow> Job \<Rightarrow> bool \<Rightarrow> PeerConn \<Rightarrow> bool option" where
  "Conn_Redistribute rpc originID job gossip c =
     (if \<not> pc_connected c then None else rpc (pc_nodeID c) (redistribute_request originID job gossip))"

definition SendHeartbeat :: "CentralState \<Rightarrow> PeerConn \<Rightarrow> (string \<times> (string \<times> int \<times> int \<times> int \<times> int) list) option" where
  "SendHeartbeat s c =
     (if \<not> pc_connected c then None
      else Some (ss_id s, map (\<lambda>a. let u = ss_clusterHeap s a in (cs_ID u, cs_UsedCpu u, cs_UsedMem u, cs_MaxCpu u, cs_MaxMem u)) (LocalClusters s)))"

end
