(* ===== verification/SchedPacker.thy ===== *)
theory SchedPacker
  imports SchedService
begin

section \<open>The scheduler's packer (internal/scheduler/packer)\<close>

text \<open>
  The background worker that moves pending jobs to clusters or peers (operations.go) and watches clusters,
  peers and the consensus group (monitor.go). Outcomes of remote calls are arguments. The workers that
  processPendingJobs starts run concurrently with its loop; each is one definition over the shared
  state (\<open>executeJobAssignment\<close>), and \<open>processPendingJobs\<close> composes them in an arbitrary order.
\<close>

subsection \<open>Placing a job\<close>

text \<open>The product with 0.25 is exact below \<^verbatim>\<open>2^53\<close>; the conversion truncates, and a result below five is five.\<close>

definition calculateRedistributionQuota :: "int \<Rightarrow> int" where
  "calculateRedistributionQuota jobCount = (let quota = jobCount div 4 in if quota < 5 then 5 else quota)"

text \<open>The ceilings: the largest free CPU and the largest free memory of the clusters, at least zero.\<close>

definition ceilings :: "(nat \<Rightarrow> ClusterState) \<Rightarrow> nat list \<Rightarrow> int \<times> int" where
  "ceilings heap cs = (fold (\<lambda>a m. if freeCpu (heap a) > m then freeCpu (heap a) else m) cs 0,
     fold (\<lambda>a m. if freeMem (heap a) > m then freeMem (heap a) else m) cs 0)"

definition has_room :: "(nat \<Rightarrow> ClusterState) \<Rightarrow> Job \<Rightarrow> nat \<Rightarrow> bool" where
  "has_room heap job c \<longleftrightarrow> freeCpu (heap c) \<ge> job_CPURequirement job \<and> freeMem (heap c) \<ge> job_MemoryRequirement job"

text \<open>
  Reserving: SoftUpdateCluster through the state's map, then the same amounts through the pointer the loop
  holds. Both write the heap.
\<close>

definition reserve :: "CentralState \<Rightarrow> nat \<Rightarrow> Job \<Rightarrow> CentralState" where
  "reserve s c job =
     (let s = SoftUpdateCluster s (cs_ID (ss_clusterHeap s c)) (job_CPURequirement job) (job_MemoryRequirement job);
          x = ss_clusterHeap s c
      in s\<lparr>ss_clusterHeap := (ss_clusterHeap s)(c := x\<lparr>cs_UsedCpu := wrap64 (cs_UsedCpu x + job_CPURequirement job),
           cs_UsedMem := wrap64 (cs_UsedMem x + job_MemoryRequirement job)\<rparr>)\<rparr>)"

text \<open>The round robin: from cluster \<open>i mod n\<close> on, the first with room (\<open>j\<close> counts the clusters tried).\<close>

definition round_robin :: "(nat \<Rightarrow> ClusterState) \<Rightarrow> nat list \<Rightarrow> nat \<Rightarrow> Job \<Rightarrow> nat option" where
  "round_robin heap cs i job =
     (if cs = [] then None
      else List.find (has_room heap job) (map (\<lambda>j. cs ! ((i + j) mod length cs)) [0..<length cs]))"

definition place :: "CentralState \<Rightarrow> nat list \<Rightarrow> nat \<Rightarrow> Job \<Rightarrow> string option \<times> CentralState" where
  "place s cs i job =
     (case round_robin (ss_clusterHeap s) cs i job of
        None \<Rightarrow> (None, s)
      | Some c \<Rightarrow> (Some (cs_ID (ss_clusterHeap s c)), reserve s c job))"

text \<open>
  The loop. \<open>red i\<close> is the value of the shared counter \<^verbatim>\<open>redistributed\<close> that iteration \<open>i\<close> reads. The result is the
  list of the workers started: the job and its target cluster.
\<close>

fun pack_loop :: "(nat \<Rightarrow> int) \<Rightarrow> int \<Rightarrow> nat list \<Rightarrow> nat \<Rightarrow> nat \<Rightarrow> int \<times> int \<Rightarrow> CentralState \<Rightarrow> (nat \<times> string) list \<times> CentralState" where
  "pack_loop red quota cs i 0 ceil s = ([], s)"
| "pack_loop red quota cs i (Suc n) ceil s =
     (let (searchCPU, searchMem) = (if red i < quota then (2 ^ 62, 2 ^ 62) else ceil) in
      case NextPendingJob s searchCPU searchMem of
        (None, s1) \<Rightarrow> ([], s1)
      | (Some a, s1) \<Rightarrow>
          (case place s1 cs i (ss_jobHeap s1 a) of (target, s2) \<Rightarrow>
             let ceil' = (if target = None then ceil else ceilings (ss_clusterHeap s2) cs) in
             case pack_loop red quota cs (Suc i) n ceil' s2 of (ws, s3) \<Rightarrow>
               ((a, case target of None \<Rightarrow> '''' | Some t \<Rightarrow> t) # ws, s3)))"

subsection \<open>Executing an assignment\<close>

text \<open>
  attemptJobAssignment. \<open>commit\<close> is the result of the first CommitJob, \<open>conns\<close> the cluster connections (a missing one is a
  nil pointer, on which DispatchJob panics: \<open>None\<close>), \<open>accept\<close> the cluster's answer. The last result is the
  list of the payloads handed to the consensus group, the second of them by the rollback.
\<close>

definition attemptJobAssignment :: "commit_error option \<Rightarrow> (string, ClusterConn) gomap \<Rightarrow> (JobRequest \<Rightarrow> bool option) \<Rightarrow> string \<Rightarrow> nat \<Rightarrow>
    CentralState \<Rightarrow> (bool \<times> CentralState \<times> JobPayload list) option" where
  "attemptJobAssignment commit conns accept clusterId a s =
     (let jobId = job_Id (ss_jobHeap s a) in
      case AssignJob s jobId clusterId of
        (False, s1) \<Rightarrow> Some (False, s1, [])
      | (True, s1) \<Rightarrow>
          let p1 = job_payload (ss_jobHeap s1 a) in
          (case commit of
             Some err \<Rightarrow>
               let s2 = UnassignJob s1 jobId in
               if err = ErrCASConcurrentConflict then Some (False, s2, [p1])
               else Some (False, s2, [p1, job_payload (ss_jobHeap s2 a)])
           | None \<Rightarrow>
               (case Cluster conns clusterId of
                  None \<Rightarrow> None
                | Some conn \<Rightarrow>
                    (case DispatchJob conn accept (ss_jobHeap s1 a) s1 of
                       (Some True, s2) \<Rightarrow> Some (True, s2, [p1])
                     | (_, s2) \<Rightarrow>
                         let s3 = UnassignJob s2 jobId in Some (False, s3, [p1, job_payload (ss_jobHeap s3 a)])))))"

text \<open>Redistribute of the packer: the peers in order, each through OpConn; accepted means purged here.\<close>

definition redistribute_op :: "(string \<Rightarrow> RedistributeRequest \<Rightarrow> bool option) \<Rightarrow> nat \<Rightarrow> PeerConn \<Rightarrow> CentralState \<Rightarrow> bool \<times> CentralState" where
  "redistribute_op rpc a co s =
     (case Conn_Redistribute rpc (ss_id s) (ss_jobHeap s a) False co of
        Some True \<Rightarrow> (True, PurgeJob s (job_Id (ss_jobHeap s a)))
      | _ \<Rightarrow> (False, s))"

fun redistribute_loop :: "(string \<Rightarrow> RedistributeRequest \<Rightarrow> bool option) \<Rightarrow> PeerConn list \<Rightarrow> string list \<Rightarrow> nat \<Rightarrow> CentralState \<Rightarrow>
    bool \<times> CentralState" where
  "redistribute_loop rpc conns [] a s = (False, s)"
| "redistribute_loop rpc conns (bestFitId # peers) a s =
     (case OpConn conns bestFitId (redistribute_op rpc a) s of
        (True, s1) \<Rightarrow> (True, s1)
      | (False, s1) \<Rightarrow> redistribute_loop rpc conns peers a s1)"

definition Packer_Redistribute :: "time \<Rightarrow> (string \<Rightarrow> RedistributeRequest \<Rightarrow> bool option) \<Rightarrow> PeerConn list \<Rightarrow> nat \<Rightarrow> CentralState \<Rightarrow>
    bool \<times> CentralState" where
  "Packer_Redistribute now rpc conns a s =
     redistribute_loop rpc conns
       (TopFreePeers now s 5 5000000000 (job_CPURequirement (ss_jobHeap s a)) (job_MemoryRequirement (ss_jobHeap s a))) a s"

record remote =
  rm_commit :: "nat \<Rightarrow> commit_error option"
  rm_conns :: "(string, ClusterConn) gomap"
  rm_accept :: "string \<Rightarrow> JobRequest \<Rightarrow> bool option"
  rm_peerRpc :: "string \<Rightarrow> RedistributeRequest \<Rightarrow> bool option"
  rm_peers :: "PeerConn list"

text \<open>The result carries the shared counter of redistributed jobs; \<open>None\<close> is the panic of a missing connection.\<close>

definition executeJobAssignment :: "remote \<Rightarrow> time \<Rightarrow> nat \<Rightarrow> string \<Rightarrow> int \<Rightarrow> int \<times> CentralState \<Rightarrow> (int \<times> CentralState) option" where
  "executeJobAssignment rm now a targetCluster quota rs =
     (case rs of (redistributed, s) \<Rightarrow>
        if targetCluster \<noteq> ''''
        then map_option (\<lambda>(_, s1, _). (redistributed, s1))
          (attemptJobAssignment (rm_commit rm a) (rm_conns rm) (rm_accept rm targetCluster) targetCluster a s)
        else if redistributed < quota
        then
          (case Packer_Redistribute now (rm_peerRpc rm) (rm_peers rm) a s of
             (True, s1) \<Rightarrow> Some (wrap32 (redistributed + 1), s1)
           | (False, s1) \<Rightarrow> Some (wrap32 (redistributed + 1), UnassignJob s1 (job_Id (ss_jobHeap s1 a))))
        else Some (redistributed, UnassignJob s (job_Id (ss_jobHeap s a))))"

fun execute_all :: "remote \<Rightarrow> time \<Rightarrow> int \<Rightarrow> (nat \<times> string) list \<Rightarrow> int \<times> CentralState \<Rightarrow> (int \<times> CentralState) option" where
  "execute_all rm now quota [] rs = Some rs"
| "execute_all rm now quota ((a, target) # ws) rs =
     (case executeJobAssignment rm now a target quota rs of
        None \<Rightarrow> None
      | Some rs1 \<Rightarrow> execute_all rm now quota ws rs1)"

text \<open>
  processPendingJobs. The workers run on their own: \<open>order\<close> is the order in which they take the state,
  any permutation of the order in which they were started.
\<close>

definition processPendingJobs :: "remote \<Rightarrow> time \<Rightarrow> (nat \<Rightarrow> int) \<Rightarrow> ((nat \<times> string) list \<Rightarrow> (nat \<times> string) list) \<Rightarrow> nat \<Rightarrow>
    CentralState \<Rightarrow> CentralState option" where
  "processPendingJobs rm now red order limit s =
     (if PendingJobs s = [] then Some s
      else
        let cs = LocalClusters s;
            quota = calculateRedistributionQuota (int limit)
        in case pack_loop red quota cs 0 limit (ceilings (ss_clusterHeap s) cs) s of
             (ws, s1) \<Rightarrow> map_option snd (execute_all rm now quota (order ws) (0, s1)))"

subsection \<open>Monitoring\<close>

text \<open>checkRaftConnection: three failures in a row end the process (\<open>None\<close>).\<close>

fun raft_strikes :: "nat \<Rightarrow> bool list \<Rightarrow> nat option" where
  "raft_strikes strikes [] = Some strikes"
| "raft_strikes strikes (ok # oks) =
     (if ok then raft_strikes 0 oks else if Suc strikes \<ge> 3 then None else raft_strikes (Suc strikes) oks)"

text \<open>requestClusterState stops at the first cluster that does not answer.\<close>

fun request_loop :: "time \<Rightarrow> (string \<Rightarrow> ClusterStatusResponse option) \<Rightarrow> nat list \<Rightarrow> CentralState \<Rightarrow> CentralState" where
  "request_loop now fetch [] s = s"
| "request_loop now fetch (c # cs) s =
     (let key = cs_ID (ss_clusterHeap s c) in
      case fetch key of
        None \<Rightarrow> s
      | Some r \<Rightarrow> request_loop now fetch cs
          (UpdateCluster now s key (wrap64 (csr_TotalNanoCpu r - csr_AvailableNanoCpu r))
             (wrap64 (csr_TotalMemoryBytes r - csr_AvailableMemoryBytes r)) (csr_TotalNanoCpu r) (csr_TotalMemoryBytes r)))"

definition requestClusterState :: "time \<Rightarrow> (string \<Rightarrow> ClusterStatusResponse option) \<Rightarrow> CentralState \<Rightarrow> CentralState" where
  "requestClusterState now fetch s = request_loop now fetch (LocalClusters s) s"

definition reallocateDeadClusterJobs :: "time \<Rightarrow> CentralState \<Rightarrow> CentralState" where
  "reallocateDeadClusterJobs now s =
     fold (\<lambda>staleClusterID s. fold (\<lambda>jobID s. UnassignJob s jobID) (JobsInCluster s staleClusterID) s)
       (StaleClusters now s 5000000000) s"

text \<open>A tick of the packing loop (every 100 ms), and one of the monitoring loop (every 50 ms).\<close>

definition schedule :: "remote \<Rightarrow> time \<Rightarrow> (nat \<Rightarrow> int) \<Rightarrow> ((nat \<times> string) list \<Rightarrow> (nat \<times> string) list) \<Rightarrow> CentralState \<Rightarrow> CentralState option" where
  "schedule rm now red order s = processPendingJobs rm now red order 50 (reallocateDeadClusterJobs now s)"

definition checkSchedulers :: "time \<Rightarrow> goset \<Rightarrow> CentralState \<Rightarrow> string list" where
  "checkSchedulers now activeEvictions s = filter (\<lambda>key. key \<notin> set activeEvictions) (StaleSchedulers now s 5000000000)"

text \<open>
  attemptSchedulerTakeover: the first commit (HeartbeatFailed), then after the wait the decision on the most recent
  event, and the second commit (RedistributedJobs). The result lists the events it hands to the consensus group.
\<close>

definition takeover_event :: "CentralState \<Rightarrow> string \<Rightarrow> SchedulerEvent \<Rightarrow> int \<Rightarrow> SchedulerPayload" where
  "takeover_event s schedulerID ev nowMillis =
     \<lparr>sp_ID = schedulerID, sp_OriginSchedulerID = ss_id s, sp_Entry = SchedulerEvent_String ev, sp_Timestamp = nowMillis\<rparr>"

definition attemptSchedulerTakeover :: "CentralState \<Rightarrow> string \<Rightarrow> int \<Rightarrow> int \<Rightarrow> bool \<Rightarrow> bool \<Rightarrow> SchedulerPayload option \<Rightarrow> SchedulerPayload list" where
  "attemptSchedulerTakeover s schedulerID t1 t2 commit1 ctxDone mostRecent =
     (let e1 = takeover_event s schedulerID HeartbeatFailed t1 in
      if \<not> commit1 then [e1]
      else if ctxDone then [e1]
      else case mostRecent of
        None \<Rightarrow> [e1]
      | Some mostRecentEvent \<Rightarrow>
          if sp_OriginSchedulerID mostRecentEvent \<noteq> schedulerID \<or> sp_Entry mostRecentEvent = SchedulerEvent_String Online
          then [e1]
          else [e1, takeover_event s schedulerID RedistributedJobs t2])"

subsection \<open>What a worker does to the jobs\<close>

lemma job_Id_kept [simp]:
  "job_Id (ss_jobHeap (snd (AssignJob s k c)) b) = job_Id (ss_jobHeap s b)"
  "job_Id (ss_jobHeap (UnassignJob s k) b) = job_Id (ss_jobHeap s b)"
  "job_Id (ss_jobHeap (PurgeJob s k) b) = job_Id (ss_jobHeap s b)"
  "job_Id (ss_jobHeap (snd (NextPendingJob s cpu mem)) b) = job_Id (ss_jobHeap s b)"
  by (auto simp: AssignJob_def UnassignJob_def PurgeJob_def NextPendingJob_def set_job_def Let_def
      split: option.splits prod.splits)

lemma jobs_kept [simp]:
  "ss_jobs (snd (AssignJob s k c)) = ss_jobs s" "ss_jobs (UnassignJob s k) = ss_jobs s"
  "ss_jobs (snd (NextPendingJob s cpu mem)) = ss_jobs s"
  by (auto simp: AssignJob_def UnassignJob_def NextPendingJob_def set_job_def Let_def split: option.splits prod.splits)

definition claimed :: "CentralState \<Rightarrow> nat \<Rightarrow> bool" where
  "claimed s a \<longleftrightarrow> map_of (ss_jobs s) (job_Id (ss_jobHeap s a)) = Some a \<and> stage_of s (job_Id (ss_jobHeap s a)) = Some Active"

text \<open>
  \<open>settles s s' k\<close>: from \<open>s\<close> to \<open>s'\<close> the invariant is kept, no job changes its identifier, and only job \<open>k\<close> may
  have moved.
\<close>

definition settles :: "CentralState \<Rightarrow> CentralState \<Rightarrow> string \<Rightarrow> bool" where
  "settles s s' k \<longleftrightarrow> sched_inv s' \<and> (\<forall>b. job_Id (ss_jobHeap s' b) = job_Id (ss_jobHeap s b)) \<and>
     (\<forall>k'. k' \<noteq> k \<longrightarrow> map_of (ss_jobs s') k' = map_of (ss_jobs s) k' \<and> stage_of s' k' = stage_of s k')"

lemma settles_refl: "sched_inv s \<Longrightarrow> settles s s k"
  by (simp add: settles_def)

lemma settles_trans: "settles s s1 k \<Longrightarrow> settles s1 s2 k \<Longrightarrow> settles s s2 k"
  by (simp add: settles_def)

lemma Assign_settles: "sched_inv s \<Longrightarrow> stage_of s k = Some Active \<Longrightarrow> settles s (snd (AssignJob s k c)) k"
  by (simp add: settles_def AssignJob_inv AssignJob_stage)

lemma Unassign_settles: "sched_inv s \<Longrightarrow> settles s (UnassignJob s k) k"
  by (simp add: settles_def UnassignJob_inv UnassignJob_stage)

lemma Purge_settles: "sched_inv s \<Longrightarrow> settles s (PurgeJob s k) k"
  by (auto simp: settles_def PurgeJob_inv PurgeJob_stage) (auto simp: PurgeJob_def split: option.split)

lemma claimed_settles: "settles s s' k \<Longrightarrow> claimed s b \<Longrightarrow> job_Id (ss_jobHeap s b) \<noteq> k \<Longrightarrow> claimed s' b"
  by (simp add: settles_def claimed_def)

lemma Unassign_undoes:
  assumes st: "settles s s2 k" "stage_of s2 k = Some Active" "ss_jobs s2 = ss_jobs s" and look: "map_of (ss_jobs s) k = Some a"
  shows "settles s (UnassignJob s2 k) k \<and> stage_of (UnassignJob s2 k) k = Some Waiting \<and> job_Status (ss_jobHeap (UnassignJob s2 k) a) = Pending"
proof -
  have inv: "sched_inv s2" using st(1) by (simp add: settles_def)
  have "job_Status (ss_jobHeap (UnassignJob s2 k) a) = Pending"
    using st look by (auto simp: UnassignJob_def stage_of_def set_job_def Let_def split: if_splits)
  then show ?thesis using Unassign_settles [OF inv, of k] UnassignJob_stage [OF inv, of k] st settles_trans [OF st(1)] by simp
qed

lemma Dispatch_settles:
  assumes inv: "sched_inv s" and act: "stage_of s (job_Id job) = Some Active" and d: "DispatchJob conn accept job s = (res, s2)"
  shows "settles s s2 (job_Id job)" "stage_of s2 (job_Id job) = Some Active" "ss_jobs s2 = ss_jobs s"
proof -
  have "s2 = s \<or> s2 = snd (AssignJob s (job_Id job) (cc_nodeID conn))"
    using d by (auto simp: DispatchJob_def split: if_splits option.splits)
  moreover have "settles s s (job_Id job)" using inv by (simp add: settles_def)
  ultimately show "settles s s2 (job_Id job)" "stage_of s2 (job_Id job) = Some Active" "ss_jobs s2 = ss_jobs s"
    using act Assign_settles [OF inv act] AssignJob_stage [OF act] jobs_kept(1) [of s "job_Id job"] by auto
qed

lemma attempt_settles:
  assumes inv: "sched_inv s" and c: "claimed s a"
    and r: "attemptJobAssignment commit conns accept cl a s = Some (ok, s', ps)"
  shows "settles s s' (job_Id (ss_jobHeap s a))"
    "stage_of s' (job_Id (ss_jobHeap s a)) = Some (if ok then Active else Waiting)"
    "\<not> ok \<longrightarrow> job_Status (ss_jobHeap s' a) = Pending"
proof -
  let ?k = "job_Id (ss_jobHeap s a)"
  have act: "stage_of s ?k = Some Active" and look: "map_of (ss_jobs s) ?k = Some a" using c by (simp_all add: claimed_def)
  obtain s1 where a1: "AssignJob s ?k cl = (True, s1)"
    using look by (simp add: AssignJob_def Let_def)
  have st1: "settles s s1 ?k" "stage_of s1 ?k = Some Active"
    using Assign_settles [OF inv act, of cl] AssignJob_stage [OF act, of cl] act a1 by simp_all
  have inv1: "sched_inv s1" using st1 by (simp add: settles_def)
  have jobs1: "ss_jobs s1 = ss_jobs s" using jobs_kept(1) [of s ?k cl] a1 by simp
  have key: "job_Id (ss_jobHeap s1 a) = ?k" using st1 by (simp add: settles_def)
  note undo = Unassign_undoes [where s = s and k = ?k, OF _ _ _ look]
  have "settles s s' ?k \<and> stage_of s' ?k = Some (if ok then Active else Waiting) \<and> (\<not> ok \<longrightarrow> job_Status (ss_jobHeap s' a) = Pending)"
  proof (cases commit)
    case (Some err)
    then have "s' = UnassignJob s1 ?k \<and> \<not> ok"
      using r by (auto simp: attemptJobAssignment_def Let_def a1 split: if_splits)
    then show ?thesis using undo [OF st1 jobs1] by simp
  next
    case None
    then obtain conn where "Cluster conns cl = Some conn" using r by (auto simp: attemptJobAssignment_def Let_def a1 split: option.splits)
    with None r obtain res s2 where d: "DispatchJob conn accept (ss_jobHeap s1 a) s1 = (res, s2)"
      and fin: "if res = Some True then ok \<and> s' = s2 else \<not> ok \<and> s' = UnassignJob s2 ?k"
      by (cases "DispatchJob conn accept (ss_jobHeap s1 a) s1")
        (auto simp: attemptJobAssignment_def Let_def a1 split: option.splits bool.splits)
    have d2: "settles s1 s2 ?k" "stage_of s2 ?k = Some Active" "ss_jobs s2 = ss_jobs s"
      using Dispatch_settles [OF inv1 _ d] st1(2) key jobs1 by simp_all
    then show ?thesis using fin undo [of s2] settles_trans [OF st1(1) d2(1)] by (cases "res = Some True") simp_all
  qed
  then show "settles s s' ?k" "stage_of s' ?k = Some (if ok then Active else Waiting)" "\<not> ok \<longrightarrow> job_Status (ss_jobHeap s' a) = Pending"
    by blast+
qed

text \<open>The peers that were asked for job \<open>k\<close> and accepted it.\<close>

definition taken_over :: "remote \<Rightarrow> string \<Rightarrow> bool" where
  "taken_over rm k \<longleftrightarrow> (\<exists>peer req. rr_JobId req = k \<and> rm_peerRpc rm peer req = Some True)"

lemma OpConn_cases:
  "OpConn conns key op s = (True, s) \<or> (\<exists>conn\<in>set conns. OpConn conns key op s = op conn s)"
  by (induction conns) auto

lemma redistribute_op_settles:
  assumes "sched_inv s" "redistribute_op (rm_peerRpc rm) a co s = (b, s')"
  shows "settles s s' (job_Id (ss_jobHeap s a)) \<and>
    (b \<longrightarrow> stage_of s' (job_Id (ss_jobHeap s a)) = None \<and> taken_over rm (job_Id (ss_jobHeap s a))) \<and> (\<not> b \<longrightarrow> s' = s)"
proof (cases "Conn_Redistribute (rm_peerRpc rm) (ss_id s) (ss_jobHeap s a) False co = Some True")
  case True
  then have "rm_peerRpc rm (pc_nodeID co) (redistribute_request (ss_id s) (ss_jobHeap s a) False) = Some True"
    by (simp add: Conn_Redistribute_def split: if_splits)
  moreover have "rr_JobId (redistribute_request (ss_id s) (ss_jobHeap s a) False) = job_Id (ss_jobHeap s a)"
    by (simp add: redistribute_request_def)
  ultimately have "taken_over rm (job_Id (ss_jobHeap s a))" unfolding taken_over_def by blast
  with True assms show ?thesis
    using Purge_settles [OF assms(1)] by (auto simp: redistribute_op_def PurgeJob_stage)
next
  case False
  then show ?thesis using assms settles_refl by (auto simp: redistribute_op_def split: option.splits bool.splits)
qed

lemma redistribute_settles:
  assumes "sched_inv s" "redistribute_loop (rm_peerRpc rm) conns peers a s = (b, s')"
  shows "settles s s' (job_Id (ss_jobHeap s a)) \<and>
    (s' = s \<or> stage_of s' (job_Id (ss_jobHeap s a)) = None \<and> taken_over rm (job_Id (ss_jobHeap s a)))"
  using assms(2)
proof (induction peers)
  case Nil
  then show ?case using assms(1) by (simp add: settles_refl)
next
  case (Cons p peers)
  obtain b1 s1 where o: "OpConn conns p (redistribute_op (rm_peerRpc rm) a) s = (b1, s1)" by fastforce
  have one: "settles s s1 (job_Id (ss_jobHeap s a)) \<and>
    (s1 = s \<or> stage_of s1 (job_Id (ss_jobHeap s a)) = None \<and> taken_over rm (job_Id (ss_jobHeap s a))) \<and> (\<not> b1 \<longrightarrow> s1 = s)"
    using OpConn_cases [of conns p "redistribute_op (rm_peerRpc rm) a" s] redistribute_op_settles [OF assms(1), of rm a] o
      settles_refl [OF assms(1)] by (metis prod.inject)
  show ?case using Cons one o by (cases b1) auto
qed

definition keeps_jobs :: "remote \<Rightarrow> CentralState \<Rightarrow> CentralState \<Rightarrow> bool" where
  "keeps_jobs rm s s' \<longleftrightarrow> (\<forall>k. stage_of s k \<noteq> None \<longrightarrow> stage_of s' k \<noteq> None \<or> taken_over rm k) \<and>
     (\<forall>k. stage_of s k = Some Done \<longrightarrow> stage_of s' k = Some Done)"

lemma keeps_jobs_trans: "keeps_jobs rm s s1 \<Longrightarrow> keeps_jobs rm s1 s2 \<Longrightarrow> keeps_jobs rm s s2"
  unfolding keeps_jobs_def by blast

lemma execute_one:
  assumes inv: "sched_inv s" and c: "claimed s a" and r: "executeJobAssignment rm now a target quota (red, s) = Some (red', s')"
  shows "settles s s' (job_Id (ss_jobHeap s a)) \<and> keeps_jobs rm s s'"
proof -
  let ?k = "job_Id (ss_jobHeap s a)"
  have act: "stage_of s ?k = Some Active" using c by (simp add: claimed_def)
  have "settles s s' ?k \<and> (stage_of s' ?k \<noteq> None \<or> taken_over rm ?k)"
  proof (cases "target \<noteq> ''''")
    case True
    then obtain ok ps where "attemptJobAssignment (rm_commit rm a) (rm_conns rm) (rm_accept rm target) target a s = Some (ok, s', ps)"
      using r by (auto simp: executeJobAssignment_def)
    from attempt_settles [OF inv c this] show ?thesis by simp
  next
    case False
    obtain b s1 where p: "Packer_Redistribute now (rm_peerRpc rm) (rm_peers rm) a s = (b, s1)" by fastforce
    have one: "settles s s1 ?k \<and> (s1 = s \<or> stage_of s1 ?k = None \<and> taken_over rm ?k)"
      using redistribute_settles [OF inv] p unfolding Packer_Redistribute_def by blast
    then have inv1: "sched_inv s1" and k1: "job_Id (ss_jobHeap s1 a) = ?k" by (simp_all add: settles_def)
    have un: "settles s (UnassignJob s1 ?k) ?k \<and> (stage_of (UnassignJob s1 ?k) ?k \<noteq> None \<or> taken_over rm ?k)"
      using one Unassign_settles [OF inv1] UnassignJob_stage [OF inv1, of ?k] act settles_trans by auto
    have un0: "settles s (UnassignJob s ?k) ?k \<and> stage_of (UnassignJob s ?k) ?k \<noteq> None"
      using Unassign_settles [OF inv] UnassignJob_stage [OF inv, of ?k] act by simp
    show ?thesis
      using r False p one un un0 k1 act
      by (auto simp: executeJobAssignment_def split: if_splits bool.splits)
  qed
  then show ?thesis using act by (auto simp: keeps_jobs_def settles_def) (metis stage.distinct option.inject)+
qed


lemma NextPendingJob_claimed:
  assumes inv: "sched_inv s" and r: "NextPendingJob s c m = (Some a, s')"
  shows "settles s s' (job_Id (ss_jobHeap s a))" "claimed s' a" "stage_of s (job_Id (ss_jobHeap s a)) = Some Waiting"
proof -
  note n = NextPendingJob_Some [OF inv r] and k = job_Id_kept(4) [of s c m] jobs_kept(3) [of s c m]
  show "settles s s' (job_Id (ss_jobHeap s a))" "claimed s' a"
    using n k NextPendingJob_inv [OF inv r] r by (simp_all add: settles_def claimed_def)
  show "stage_of s (job_Id (ss_jobHeap s a)) = Some Waiting" by (rule n(1))
qed

text \<open>Reserving capacity leaves the jobs alone.\<close>

definition same_jobs :: "CentralState \<Rightarrow> CentralState \<Rightarrow> bool" where
  "same_jobs s s' \<longleftrightarrow> ss_jobHeap s' = ss_jobHeap s \<and> ss_jobs s' = ss_jobs s \<and> ss_unassignedJobs s' = ss_unassignedJobs s \<and>
     ss_assignedJobs s' = ss_assignedJobs s \<and> ss_completedJobs s' = ss_completedJobs s"

lemma same_jobs_inv:
  assumes "same_jobs s s'"
  shows "stage_of s' = stage_of s" "sched_inv s' = sched_inv s" "claimed s' b = claimed s b"
proof -
  show st: "stage_of s' = stage_of s" using assms by (simp add: same_jobs_def fun_eq_iff stage_of_def)
  show "claimed s' b = claimed s b" using assms by (simp add: same_jobs_def claimed_def st)
  have "job_ok s' k a = job_ok s k a" for k a
    using assms by (cases "stage_of s k") (simp_all add: same_jobs_def job_ok_def st split: stage.split)
  then show "sched_inv s' = sched_inv s" using assms by (simp add: same_jobs_def sched_inv_def)
qed

lemma place_same_jobs: "place s cs i j = (t, s') \<Longrightarrow> same_jobs s s'"
  by (auto simp: place_def reserve_def SoftUpdateCluster_def same_jobs_def Let_def split: option.splits)

definition workers_ok :: "CentralState \<Rightarrow> (nat \<times> string) list \<Rightarrow> bool" where
  "workers_ok s ws \<longleftrightarrow> (\<forall>w\<in>set ws. claimed s (fst w)) \<and> distinct (map (\<lambda>w. job_Id (ss_jobHeap s (fst w))) ws)"

lemma pack_loop_workers:
  assumes "sched_inv s" "pack_loop red quota cs i n ceil s = (ws, s')"
  shows "sched_inv s' \<and> workers_ok s' ws \<and> (\<forall>b. job_Id (ss_jobHeap s' b) = job_Id (ss_jobHeap s b)) \<and>
    (\<forall>w\<in>set ws. stage_of s (job_Id (ss_jobHeap s (fst w))) = Some Waiting) \<and>
    (\<forall>k. stage_of s' k = (if k \<in> (\<lambda>w. job_Id (ss_jobHeap s (fst w))) ` set ws then Some Active else stage_of s k)) \<and>
    ss_jobs s' = ss_jobs s"
  using assms
proof (induction n arbitrary: i ceil s ws)
  case 0
  then show ?case by (simp add: workers_ok_def)
next
  case (Suc n)
  obtain cpu mem where lim: "(if red i < quota then (2 ^ 62, 2 ^ 62) else ceil) = (cpu, mem)" by fastforce
  show ?case
  proof (cases "NextPendingJob s cpu mem")
    case (Pair r s1)
    show ?thesis
    proof (cases r)
      case None
      then have "ws = []" "s' = s1" using Suc.prems(2) lim Pair by simp_all
      then show ?thesis using NextPendingJob_none [OF Suc.prems(1) Pair [unfolded None]] by (simp add: workers_ok_def)
    next
      case (Some a)
      note n = NextPendingJob_claimed [OF Suc.prems(1) Pair [unfolded Some]]
        NextPendingJob_Some(2) [OF Suc.prems(1) Pair [unfolded Some]]
      obtain t s2 where p: "place s1 cs i (ss_jobHeap s1 a) = (t, s2)" by fastforce
      obtain ceil' ws' where rest: "pack_loop red quota cs (Suc i) n ceil' s2 = (ws', s')" and ws: "ws = (a, case t of None \<Rightarrow> '''' | Some x \<Rightarrow> x) # ws'"
        using Suc.prems(2) lim Pair Some p by (auto simp: Let_def split: prod.splits)
      note same = same_jobs_inv [OF place_same_jobs [OF p]]
      have inv2: "sched_inv s2" and c2: "claimed s2 a" using n(1,2) same by (simp_all add: settles_def)
      have ids: "job_Id (ss_jobHeap s2 b) = job_Id (ss_jobHeap s b)" for b
        using n(1) place_same_jobs [OF p] by (simp add: settles_def same_jobs_def)
      have jobs: "ss_jobs s2 = ss_jobs s"
        using jobs_kept(3) [of s cpu mem] Pair place_same_jobs [OF p] by (simp add: same_jobs_def)
      note ih = Suc.IH [OF inv2 rest]
      have st2: "stage_of s2 = (stage_of s)(job_Id (ss_jobHeap s a) \<mapsto> Active)" using n(4) same(1) by simp
      have fresh: "\<forall>w\<in>set ws'. job_Id (ss_jobHeap s (fst w)) \<noteq> job_Id (ss_jobHeap s a)"
        using ih ids st2 by force
      have "claimed s' a" using c2 ih ids fresh jobs by (force simp: claimed_def)
      then show ?thesis using ih ids st2 fresh n(3) jobs ws by (fastforce simp: workers_ok_def)
    qed
  qed
qed


lemma settles_stage: "settles s s' k \<Longrightarrow> k' \<noteq> k \<Longrightarrow> stage_of s' k' = stage_of s k'"
  by (simp add: settles_def)

lemma workers_ok_step:
  assumes "workers_ok s (w # ws)" "settles s s' (job_Id (ss_jobHeap s (fst w)))"
  shows "workers_ok s' ws"
proof -
  have "claimed s' (fst v)" if "v \<in> set ws" for v
    using assms(1) that by (intro claimed_settles [OF assms(2)]) (auto simp: workers_ok_def image_iff)
  then show ?thesis using assms by (simp add: workers_ok_def settles_def)
qed

lemma execute_all_keeps:
  assumes "sched_inv s" "workers_ok s ws" "execute_all rm now quota ws (red, s) = Some (red', s')"
  shows "sched_inv s' \<and> keeps_jobs rm s s' \<and>
    (\<forall>k. k \<notin> (\<lambda>w. job_Id (ss_jobHeap s (fst w))) ` set ws \<longrightarrow> stage_of s' k = stage_of s k)"
  using assms
proof (induction ws arbitrary: s red)
  case Nil
  then show ?case by (simp add: keeps_jobs_def)
next
  case (Cons w ws)
  obtain red1 s1 where one: "executeJobAssignment rm now (fst w) (snd w) quota (red, s) = Some (red1, s1)"
    and rest: "execute_all rm now quota ws (red1, s1) = Some (red', s')"
    using Cons.prems(3) by (cases w) (auto split: option.splits)
  have "claimed s (fst w)" using Cons.prems(2) by (simp add: workers_ok_def)
  note e = execute_one [OF Cons.prems(1) this one]
  then have inv1: "sched_inv s1" and ids: "\<And>b. job_Id (ss_jobHeap s1 b) = job_Id (ss_jobHeap s b)"
    by (simp_all add: settles_def)
  note ih = Cons.IH [OF inv1 workers_ok_step [OF Cons.prems(2)] rest] 
  show ?case using e ih keeps_jobs_trans [of rm s s1 s'] settles_stage [OF conjunct1 [OF e]] by (simp add: ids)
qed

lemma workers_ok_perm: "mset ws' = mset ws \<Longrightarrow> workers_ok s ws' = workers_ok s ws"
  unfolding workers_ok_def by (metis mset_eq_setD mset_map mset_eq_imp_distinct_iff)

lemma pack_keeps_jobs:
  assumes "sched_inv s" "pack_loop red quota cs i n ceil s = (ws, s')"
  shows "keeps_jobs rm s s'"
  using pack_loop_workers [OF assms] by (auto simp: keeps_jobs_def)

lemma processPendingJobs_loses_no_job:
  assumes inv: "sched_inv s" and order: "\<And>ws. mset (order ws) = mset ws"
    and r: "processPendingJobs rm now red order limit s = Some s'"
  shows "sched_inv s' \<and> (\<forall>k. stage_of s k = Some Done \<longrightarrow> stage_of s' k = Some Done) \<and>
    (\<forall>k. stage_of s k \<noteq> None \<and> \<not> taken_over rm k \<longrightarrow> stage_of s' k \<noteq> None)"
proof (cases "PendingJobs s = []")
  case True
  then show ?thesis using r inv by (simp add: processPendingJobs_def)
next
  case False
  let ?quota = "calculateRedistributionQuota (int limit)"
  obtain ws s1 where p: "pack_loop red ?quota (LocalClusters s) 0 limit (ceilings (ss_clusterHeap s) (LocalClusters s)) s = (ws, s1)"
    by fastforce
  then obtain red' where e: "execute_all rm now ?quota (order ws) (0, s1) = Some (red', s')"
    using r False by (auto simp: processPendingJobs_def Let_def)
  note w = pack_loop_workers [OF inv p]
  have "sched_inv s' \<and> keeps_jobs rm s1 s'"
    using execute_all_keeps [OF _ _ e] w workers_ok_perm [OF order] by blast
  then show ?thesis using keeps_jobs_trans [OF pack_keeps_jobs [OF inv p]] unfolding keeps_jobs_def by blast
qed


definition demo_remote :: remote where
  "demo_remote = \<lparr>rm_commit = (\<lambda>_. None), rm_conns = [(''c'', \<lparr>cc_nodeID = ''c'', cc_connected = True\<rparr>)],
     rm_accept = (\<lambda>_ _. Some True), rm_peerRpc = (\<lambda>_ _. None), rm_peers = []\<rparr>"

definition demo_pack :: CentralState where
  "demo_pack = UpdateCluster 0 demo_sched ''c'' 0 0 8 16"

lemma demo_pack_inv: "sched_inv demo_pack"
proof -
  have "same_jobs demo_sched demo_pack" by (simp add: same_jobs_def demo_pack_def UpdateCluster_def new_cluster_def)
  then show ?thesis using same_jobs_inv(2) sched_reachable_inv [OF demo_sched_reachable] by blast
qed

subsection \<open>Monitoring\<close>

lemma unassign_heap:
  assumes "sched_inv s" "map_of (ss_jobs s) k = Some a" "k \<notin> set ks"
  shows "ss_jobHeap (fold (\<lambda>jobID s. UnassignJob s jobID) ks s) a = ss_jobHeap s a"
  using assms
proof (induction ks arbitrary: s)
  case (Cons k0 ks)
  have "map_of (ss_jobs s) k0 \<noteq> Some a" using Cons.prems addresses_distinct [OF Cons.prems(1)] by auto
  then have "ss_jobHeap (UnassignJob s k0) a = ss_jobHeap s a"
    by (auto simp: UnassignJob_def set_job_def Let_def split: option.split)
  then show ?case using Cons.IH [of "UnassignJob s k0"] Cons.prems UnassignJob_inv by simp
qed simp

lemma unassign_jobs: "ss_jobs (fold (\<lambda>jobID s. UnassignJob s jobID) ks s) = ss_jobs s"
  by (induction ks arbitrary: s) simp_all

definition in_stale :: "string list \<Rightarrow> CentralState \<Rightarrow> string \<Rightarrow> bool" where
  "in_stale cls s k \<longleftrightarrow> stage_of s k = Some Active \<and>
     (\<exists>a. map_of (ss_jobs s) k = Some a \<and> job_AssignedClusterId (ss_jobHeap s a) \<in> set cls)"

lemma reallocate_all:
  assumes "sched_inv s"
  defines "r \<equiv> \<lambda>cls s. fold (\<lambda>c s. fold (\<lambda>jobID s. UnassignJob s jobID) (JobsInCluster s c) s) cls s"
  shows "sched_inv (r cls s) \<and> (\<forall>k. stage_of (r cls s) k = (if in_stale cls s k then Some Waiting else stage_of s k))"
  using assms(1)
proof (induction cls arbitrary: s)
  case Nil
  then show ?case by (simp add: r_def in_stale_def)
next
  case (Cons c cls)
  let ?s1 = "fold (\<lambda>jobID s. UnassignJob s jobID) (JobsInCluster s c) s"
  have one: "sched_inv ?s1" "stage_of ?s1 k = (if k \<in> set (JobsInCluster s c) \<and> stage_of s k = Some Active then Some Waiting else stage_of s k)"
    "ss_jobs ?s1 = ss_jobs s" "map_of (ss_jobs s) k = Some a \<Longrightarrow> k \<notin> set (JobsInCluster s c) \<Longrightarrow> ss_jobHeap ?s1 a = ss_jobHeap s a" for k a
    using jt.unassign_all [OF Cons.prems] unassign_jobs unassign_heap [OF Cons.prems] by blast+
  have mem: "k \<in> set (JobsInCluster s c) \<longleftrightarrow>
    (\<exists>a. map_of (ss_jobs s) k = Some a \<and> k \<in> set (ss_assignedJobs s) \<and> job_AssignedClusterId (ss_jobHeap s a) = c)" for k
    by (auto simp: JobsInCluster_def split: option.splits)
  have act: "k \<in> set (ss_assignedJobs s)" if "stage_of s k = Some Active" for k
    using that by (auto simp: stage_of_def split: if_splits)
  have stale: "in_stale (c # cls) s k \<longleftrightarrow> k \<in> set (JobsInCluster s c) \<and> stage_of s k = Some Active \<or> in_stale cls ?s1 k" for k
    using one act [of k] unfolding in_stale_def mem by (auto split: if_splits)
  have r1: "r (c # cls) s = r cls ?s1" by (simp add: r_def)
  show ?case unfolding r1 using Cons.IH [of ?s1] one stale by auto
qed

text \<open>
  No job is lost by a tick of the packer. Whatever the consensus group, the clusters and the peers answer and in
  whatever order the workers run, a tick that ends keeps the invariant of the state, leaves completed jobs
  completed, and every job is still known to this scheduler unless a peer accepted it.
\<close>

lemma schedule_loses_no_job:
  assumes inv: "sched_inv s" and order: "\<And>ws. mset (order ws) = mset ws" and r: "schedule rm now red order s = Some s'"
  shows "sched_inv s' \<and> (\<forall>k. stage_of s k = Some Done \<longrightarrow> stage_of s' k = Some Done) \<and>
    (\<forall>k. stage_of s k \<noteq> None \<and> \<not> taken_over rm k \<longrightarrow> stage_of s' k \<noteq> None)"
proof -
  note re = reallocate_all [OF inv, of "StaleClusters now s 5000000000", folded reallocateDeadClusterJobs_def]
  then have "sched_inv s' \<and> (\<forall>k. stage_of (reallocateDeadClusterJobs now s) k = Some Done \<longrightarrow> stage_of s' k = Some Done) \<and>
      (\<forall>k. stage_of (reallocateDeadClusterJobs now s) k \<noteq> None \<and> \<not> taken_over rm k \<longrightarrow> stage_of s' k \<noteq> None)"
    using r unfolding schedule_def by (intro processPendingJobs_loses_no_job [OF _ order]) auto
  moreover have "stage_of s k = Some Done \<Longrightarrow> stage_of (reallocateDeadClusterJobs now s) k = Some Done"
    and "stage_of s k \<noteq> None \<Longrightarrow> stage_of (reallocateDeadClusterJobs now s) k \<noteq> None" for k
    using re by (auto simp: in_stale_def)
  ultimately show ?thesis by blast
qed

lemma schedule_loses_no_job_example:
  "\<exists>s'. schedule demo_remote 0 (\<lambda>_. 0) id demo_pack = Some s' \<and> sched_inv s' \<and>
     stage_of demo_pack ''j'' = Some Waiting \<and> stage_of s' ''j'' \<noteq> None \<and> job_AssignedClusterId (ss_jobHeap s' 0) = ''c''"
proof -
  have w: "\<not> taken_over demo_remote ''j''" by (simp add: taken_over_def demo_remote_def)
  have a: "stage_of demo_pack ''j'' = Some Waiting" by code_simp
  have "case schedule demo_remote 0 (\<lambda>_. 0) id demo_pack of None \<Rightarrow> False
     | Some s' \<Rightarrow> job_AssignedClusterId (ss_jobHeap s' 0) = ''c''" by code_simp
  then obtain s' where r: "schedule demo_remote 0 (\<lambda>_. 0) id demo_pack = Some s'" "job_AssignedClusterId (ss_jobHeap s' 0) = ''c''"
    by (auto split: option.splits)
  show ?thesis using schedule_loses_no_job [OF demo_pack_inv _ r(1)] r w a by auto
qed

text \<open>
  C20 (jobs of a dead cluster are queued again). After reallocateDeadClusterJobs exactly the jobs that were active in a
  cluster without an update for five seconds are waiting again; every other job is where it was, and the state is
  well-formed.
\<close>

theorem dead_cluster_jobs_requeued:
  assumes "sched_inv s"
  shows "sched_inv (reallocateDeadClusterJobs now s) \<and>
    (\<forall>k. stage_of (reallocateDeadClusterJobs now s) k =
      (if stage_of s k = Some Active \<and> (\<exists>a. map_of (ss_jobs s) k = Some a \<and>
            job_AssignedClusterId (ss_jobHeap s a) \<in> set (StaleClusters now s 5000000000))
       then Some Waiting else stage_of s k))"
  using reallocate_all [OF assms, of "StaleClusters now s 5000000000"]
  unfolding reallocateDeadClusterJobs_def in_stale_def by simp

theorem dead_cluster_jobs_requeued_witness:
  "\<exists>s. stage_of s ''j'' = Some Active \<and> stage_of (reallocateDeadClusterJobs 5000000001 s) ''j'' = Some Waiting"
proof -
  let ?s1 = "snd (NextPendingJob demo_pack 8 16)"
  let ?s = "snd (AssignJob ?s1 ''j'' ''c'')"
  have n: "NextPendingJob demo_pack 8 16 = (fst (NextPendingJob demo_pack 8 16), ?s1)" by simp
  have a1: "stage_of ?s1 ''j'' = Some Active" by code_simp
  have inv: "sched_inv ?s" by (rule AssignJob_inv [OF NextPendingJob_inv [OF demo_pack_inv n] a1])
  have a: "stage_of ?s ''j'' = Some Active" by code_simp
  have m: "map_of (ss_jobs ?s) ''j'' = Some 0" by code_simp
  have c: "job_AssignedClusterId (ss_jobHeap ?s 0) \<in> set (StaleClusters 5000000001 ?s 5000000000)" by code_simp
  show ?thesis using dead_cluster_jobs_requeued [OF inv, of 5000000001] a m c by auto
qed


lemma sets_of_round_robin:
  assumes "round_robin heap cs i job = Some c"
  shows "c \<in> set cs \<and> has_room heap job c"
proof -
  from assms have "cs \<noteq> []" and f: "List.find (has_room heap job) (map (\<lambda>j. cs ! ((i + j) mod length cs)) [0..<length cs]) = Some c"
    by (auto simp: round_robin_def split: if_splits)
  then show ?thesis by (auto simp: find_Some_iff)
qed

lemma round_robin_none:
  assumes "round_robin heap cs i job = None" "c \<in> set cs"
  shows "\<not> has_room heap job c"
proof -
  obtain n where n: "n < length cs" "cs ! n = c" using assms(2) by (auto simp: in_set_conv_nth)
  let ?m = "length cs" and ?j = "(n + (length cs - i mod length cs)) mod length cs"
  have "(i + ?j) mod ?m = (i mod ?m + (n + (?m - i mod ?m))) mod ?m" by (metis mod_add_eq mod_mod_trivial)
  also have "i mod ?m + (n + (?m - i mod ?m)) = n + ?m" using n(1) mod_le_divisor [of ?m i] by linarith
  finally have "(i + ?j) mod ?m = n" using n(1) by simp
  moreover have "?j < ?m" by (rule mod_less_divisor) (use n(1) in linarith)
  moreover have "c' \<in> (\<lambda>j. cs ! ((i + j) mod ?m)) ` {0..<?m} \<Longrightarrow> \<not> has_room heap job c'" for c'
    using assms(1) n(1) by (auto simp: round_robin_def find_None_iff split: if_splits)
  ultimately show ?thesis using n by (metis (no_types, lifting) atLeastLessThan_iff image_iff le0)
qed

text \<open>
  Placement respects capacity: A job is placed only in a local cluster whose free CPU and memory cover its
  requirements at that moment, and it is left for redistribution exactly when no local cluster has room.
\<close>

lemma placement_has_room:
  "case place s cs i job of
     (None, s') \<Rightarrow> s' = s \<and> (\<forall>c. c \<in> set cs \<longrightarrow>
        freeCpu (ss_clusterHeap s c) < job_CPURequirement job \<or> freeMem (ss_clusterHeap s c) < job_MemoryRequirement job)
   | (Some target, s') \<Rightarrow> \<exists>c\<in>set cs. target = cs_ID (ss_clusterHeap s c) \<and> s' = reserve s c job \<and>
        freeCpu (ss_clusterHeap s c) \<ge> job_CPURequirement job \<and> freeMem (ss_clusterHeap s c) \<ge> job_MemoryRequirement job"
proof (cases "round_robin (ss_clusterHeap s) cs i job")
  case None
  then show ?thesis using round_robin_none [OF None] by (force simp: place_def has_room_def)
next
  case (Some c)
  then show ?thesis using sets_of_round_robin [OF Some] by (auto simp: place_def has_room_def)
qed

lemma placement_has_room_example:
  "fst (place demo_pack (LocalClusters demo_pack) 0 demo_job) = Some ''c'' \<and>
   (\<exists>c\<in>set (LocalClusters demo_pack). freeCpu (ss_clusterHeap demo_pack c) \<ge> job_CPURequirement demo_job)"
proof -
  have p: "fst (place demo_pack (LocalClusters demo_pack) 0 demo_job) = Some ''c''" by code_simp
  then show ?thesis
    using placement_has_room [where s = demo_pack and cs = "LocalClusters demo_pack" and i = 0 and job = demo_job]
    by (cases "place demo_pack (LocalClusters demo_pack) 0 demo_job") auto
qed

text \<open>
  Reserving writes the same cluster record twice while the loop's pointer is still the one in the map: the
  usage grows by twice the requirement of the job.
\<close>

lemma reserve_counts_twice:
  assumes "map_of (ss_clusters s) (cs_ID (ss_clusterHeap s c)) = Some c"
    and "0 \<le> cs_UsedCpu (ss_clusterHeap s c)" "0 \<le> job_CPURequirement job"
    and "cs_UsedCpu (ss_clusterHeap s c) + 2 * job_CPURequirement job < 2 ^ 63"
  shows "cs_UsedCpu (ss_clusterHeap (reserve s c job) c) = cs_UsedCpu (ss_clusterHeap s c) + 2 * job_CPURequirement job"
  using assms by (simp add: reserve_def SoftUpdateCluster_def Let_def wrap64_id in_int64_def)

lemma OpConn_missing: "schedulerId \<notin> pc_nodeID ` set conns \<Longrightarrow> OpConn conns schedulerId op s = (True, s)"
  by (induction conns) auto

text \<open>
  A job can be stranded. When the best peer for a job that does not fit locally has no connection, the
  redistribution counts as a success although nothing was sent: the job stays active with this scheduler, in no cluster and
  not in the queue.
\<close>

lemma unconnected_peer_strands_job:
  assumes c: "claimed s a" and q: "red < quota"
    and peers: "TopFreePeers now s 5 5000000000 (job_CPURequirement (ss_jobHeap s a)) (job_MemoryRequirement (ss_jobHeap s a)) = p # ps"
    and conn: "p \<notin> pc_nodeID ` set (rm_peers rm)"
  shows "executeJobAssignment rm now a '''' quota (red, s) = Some (wrap32 (red + 1), s) \<and>
    stage_of s (job_Id (ss_jobHeap s a)) = Some Active"
  using c q by (simp add: executeJobAssignment_def Packer_Redistribute_def peers OpConn_missing [OF conn] claimed_def)

definition demo_peer :: SchedulerState where
  "demo_peer = \<lparr>sd_ID = ''p'', sd_ClusterStates = [(''c2'', demo_cstate)], sd_LastUpdated = 0\<rparr>"

definition demo_claimed :: CentralState where
  "demo_claimed = (snd (NextPendingJob demo_sched 8 16))\<lparr>ss_peers := [demo_peer]\<rparr>"

lemma unconnected_peer_strands_job_example:
  "executeJobAssignment demo_remote 0 0 '''' 5 (0, demo_claimed) = Some (1, demo_claimed) \<and>
   job_AssignedClusterId (ss_jobHeap demo_claimed 0) = ''packing-in-progress''"
proof -
  have c: "claimed demo_claimed 0" unfolding claimed_def by code_simp
  have p: "TopFreePeers 0 demo_claimed 5 5000000000 (job_CPURequirement (ss_jobHeap demo_claimed 0))
      (job_MemoryRequirement (ss_jobHeap demo_claimed 0)) = [''p'']" by code_simp
  have n: "''p'' \<notin> pc_nodeID ` set (rm_peers demo_remote)" by (simp add: demo_remote_def)
  have "job_AssignedClusterId (ss_jobHeap demo_claimed 0) = ''packing-in-progress''" by code_simp
  then show ?thesis using unconnected_peer_strands_job [OF c _ p n, of 0 5] by (simp add: wrap32_def)
qed

text \<open>
  Events are committed only by takeovers, with the committing scheduler as origin; whichever live scheduler wrote the
  most recent event about the dead one, the takeover stops after its first event.
\<close>

lemma takeover_never_redistributes:
  assumes "ss_id s' \<noteq> schedulerID"
  shows "attemptSchedulerTakeover s schedulerID t1 t2 commit1 ctxDone (Some (takeover_event s' schedulerID ev t)) =
    [takeover_event s schedulerID HeartbeatFailed t1]"
  using assms by (simp add: attemptSchedulerTakeover_def takeover_event_def Let_def)

end
