(* ===== verification/SchedConns.thy ===== *)
theory SchedConns
  imports SchedPacker
begin

section \<open>Connections and loops of the scheduler (scheduler/service, scheduler/packer)\<close>

text \<open>
  The life of the scheduler's connections, the goroutines that watch them, and the loops that Packer.Start runs. A loop over a
  connection is a function on the list of what happened in its rounds; that a loop has returned is part of its result.
\<close>

subsection \<open>Cluster connections (service/cluster/client.go)\<close>

text \<open>A connection with its context and socket; \<open>ln_conn\<close> is what the operations of the client look at.\<close>

record ClusterLink =
  ln_conn :: ClusterConn
  ln_address :: string
  ln_cancelled :: bool
  ln_closed :: bool

definition Cluster_NewConn :: "(string \<Rightarrow> bool) \<Rightarrow> string \<Rightarrow> string \<Rightarrow> ClusterLink option" where
  "Cluster_NewConn dial nodeID address =
     (if \<not> dial address then None
      else Some \<lparr>ln_conn = \<lparr>cc_nodeID = nodeID, cc_connected = False\<rparr>, ln_address = address, ln_cancelled = False, ln_closed = False\<rparr>)"

definition Cluster_Close :: "ClusterLink \<Rightarrow> ClusterLink" where
  "Cluster_Close c = c\<lparr>ln_cancelled := True, ln_closed := True\<rparr>"

text \<open>monitorConnection ends when its context does; otherwise every state change is a step of \<open>cluster_monitor\<close>.\<close>

fun monitorConnection :: "connectivity list \<Rightarrow> ClusterLink \<Rightarrow> ClusterLink" where
  "monitorConnection [] c = c"
| "monitorConnection (newState # changes) c =
     (if ln_cancelled c then c else monitorConnection changes (c\<lparr>ln_conn := cluster_monitor newState (ln_conn c)\<rparr>))"

text \<open>
  One round of monitorJobStatuses: whether the connection was up, whether the stream could be opened, what Recv gave until it failed
  (a nil message is skipped), and whether the context was done when the round ended.
\<close>

record stream_round =
  sr_connected :: bool
  sr_opened :: bool
  sr_received :: "JobStatusResponse option list"
  sr_cancelled :: bool

definition recv_events :: "JobStatusResponse option list \<Rightarrow> CentralState \<Rightarrow> CentralState" where
  "recv_events resps s = fold (\<lambda>resp s. case resp of None \<Rightarrow> s | Some r \<Rightarrow> job_event r s) resps s"

definition stream_round_events :: "stream_round \<Rightarrow> CentralState \<Rightarrow> CentralState" where
  "stream_round_events r s =
     (if \<not> sr_connected r then s else if \<not> sr_opened r then s else recv_events (sr_received r) s)"

fun monitorJobStatuses :: "stream_round list \<Rightarrow> CentralState \<Rightarrow> bool \<times> CentralState" where
  "monitorJobStatuses [] s = (False, s)"
| "monitorJobStatuses (r # rounds) s =
     (let s1 = stream_round_events r s in if sr_cancelled r then (True, s1) else monitorJobStatuses rounds s1)"

subsection \<open>Cluster status (service/cluster/models.go, packer/monitor.go)\<close>

record ClusterReport =
  st_NodeID :: string
  st_Address :: string
  st_TotalCPU :: int
  st_TotalMemory :: int
  st_AvailableCPU :: int
  st_AvailableMemory :: int
  st_ActiveJobIDs :: "string list"
  st_LastUpdated :: time

definition ParseClusterStatus :: "time \<Rightarrow> ClusterStatusResponse option \<Rightarrow> ClusterReport option" where
  "ParseClusterStatus now resp =
     map_option (\<lambda>r. \<lparr>st_NodeID = csr_NodeId r, st_Address = csr_NodeAddress r, st_TotalCPU = csr_TotalNanoCpu r,
       st_TotalMemory = csr_TotalMemoryBytes r, st_AvailableCPU = csr_AvailableNanoCpu r, st_AvailableMemory = csr_AvailableMemoryBytes r,
       st_ActiveJobIDs = csr_ActiveJobIds r, st_LastUpdated = now\<rparr>) resp"

text \<open>requestClusterState with the connections it asks: a cluster without a connection is a nil pointer, and asking it panics (\<open>None\<close>).\<close>

fun request_conns :: "time \<Rightarrow> (string, ClusterConn) gomap \<Rightarrow> (string \<Rightarrow> ClusterStatusResponse option) \<Rightarrow> nat list \<Rightarrow> CentralState \<Rightarrow> CentralState option" where
  "request_conns now conns rpc [] s = Some s"
| "request_conns now conns rpc (c # cs) s =
     (let key = cs_ID (ss_clusterHeap s c) in
      case Cluster conns key of
        None \<Rightarrow> None
      | Some conn \<Rightarrow>
          (case ParseClusterStatus now (FetchClusterStatus (rpc key) conn) of
             None \<Rightarrow> Some s
           | Some r \<Rightarrow> request_conns now conns rpc cs
               (UpdateCluster now s key (wrap64 (st_TotalCPU r - st_AvailableCPU r)) (wrap64 (st_TotalMemory r - st_AvailableMemory r))
                  (st_TotalCPU r) (st_TotalMemory r))))"

subsection \<open>The consensus client (service/consensus)\<close>

text \<open>
  A round of RaftClient.monitorConnection: \<open>changed\<close> says whether the state changed before the wait ended, \<open>ctxErr\<close> whether
  the main context is done. No code starts this loop.
\<close>

datatype monitor_outcome = MonitorAgain | MonitorStop | MonitorHeal

definition raft_monitor_round :: "connectivity \<Rightarrow> bool \<Rightarrow> bool \<Rightarrow> RaftClient \<Rightarrow> monitor_outcome" where
  "raft_monitor_round st changed ctxErr c =
     (if \<not> rc_conn c then MonitorAgain
      else if st = Ready then (if changed then MonitorAgain else MonitorStop)
      else if changed then MonitorAgain
      else if ctxErr then MonitorStop
      else MonitorHeal)"

text \<open>FetchData: the answer of GetData, that is origin, exists flag and payloads.\<close>

definition FetchData :: "(string \<times> bool \<times> bytes list) option \<Rightarrow> (bytes list \<times> bool) option" where
  "FetchData resp = map_option (\<lambda>(_, exists, payloads). (payloads, exists)) resp"

subsection \<open>Peer connections (service/coordinate)\<close>

record PeerLink =
  pl_conn :: PeerConn
  pl_address :: string
  pl_cancelled :: bool
  pl_closed :: bool

definition Peer_NewConn :: "(string \<Rightarrow> bool) \<Rightarrow> string \<Rightarrow> string \<Rightarrow> PeerLink option" where
  "Peer_NewConn dial nodeID address =
     (if \<not> dial address then None
      else Some \<lparr>pl_conn = \<lparr>pc_nodeID = nodeID, pc_connected = False\<rparr>, pl_address = address, pl_cancelled = False, pl_closed = False\<rparr>)"

definition Peer_Close :: "PeerLink \<Rightarrow> PeerLink" where
  "Peer_Close c = c\<lparr>pl_cancelled := True, pl_closed := True\<rparr>"

definition IsConnected :: "PeerLink \<Rightarrow> bool" where
  "IsConnected c = pc_connected (pl_conn c)"

definition Conn_RequestJobStatus :: "(string \<Rightarrow> 'r option) \<Rightarrow> string \<Rightarrow> PeerConn \<Rightarrow> 'r option" where
  "Conn_RequestJobStatus rpc jobID c = (if \<not> pc_connected c then None else rpc jobID)"

text \<open>ForEach applies an operation to every connection; a failed one is logged and the loop goes on.\<close>

fun Handler_ForEach :: "(PeerConn \<Rightarrow> 's \<Rightarrow> bool \<times> 's) \<Rightarrow> PeerConn list \<Rightarrow> 's \<Rightarrow> 's" where
  "Handler_ForEach op [] s = s"
| "Handler_ForEach op (conn # conns) s = Handler_ForEach op conns (snd (op conn s))"

subsection \<open>The loops of the packer (packer/pack.go, packer/operations.go)\<close>

text \<open>A tick of SendHeartbeats: the messages it sends, with their receivers.\<close>

type_synonym heartbeat = "string \<times> (string \<times> int \<times> int \<times> int \<times> int) list"

definition SendHeartbeats :: "CentralState \<Rightarrow> PeerConn list \<Rightarrow> (string \<times> heartbeat) list" where
  "SendHeartbeats s conns =
     Handler_ForEach (\<lambda>co sent. case SendHeartbeat s co of None \<Rightarrow> (False, sent) | Some msg \<Rightarrow> (True, sent @ [(pc_nodeID co, msg)])) conns []"

text \<open>A tick of requestStates: the new state, and the schedulers for which a takeover starts.\<close>

definition requestStates :: "time \<Rightarrow> (string, ClusterConn) gomap \<Rightarrow> (string \<Rightarrow> ClusterStatusResponse option) \<Rightarrow> goset \<Rightarrow> CentralState \<Rightarrow>
    (CentralState \<times> string list) option" where
  "requestStates now conns rpc activeEvictions s =
     map_option (\<lambda>s1. (s1, checkSchedulers now activeEvictions s1)) (request_conns now conns rpc (LocalClusters s) s)"

text \<open>The ticks of the loops Start runs, in any order, each with what the remote parties answered.\<close>

datatype packer_tick =
    TickSchedule remote time "nat \<Rightarrow> int" "(nat \<times> string) list \<Rightarrow> (nat \<times> string) list"
  | TickStates time "string \<Rightarrow> ClusterStatusResponse option" goset
  | TickHeartbeats

definition packer_tick_step :: "(string, ClusterConn) gomap \<Rightarrow> packer_tick \<Rightarrow> CentralState \<Rightarrow> CentralState option" where
  "packer_tick_step conns t s =
     (case t of
        TickSchedule rm now red order \<Rightarrow> schedule rm now red order s
      | TickStates now rpc activeEvictions \<Rightarrow> map_option fst (requestStates now conns rpc activeEvictions s)
      | TickHeartbeats \<Rightarrow> Some s)"

subsection \<open>The scheduler as a server\<close>

text \<open>
  A step of a running scheduler: a tick of the packer, a round of the stream of a cluster, a call of one of the handlers, or a tick of
  ClearCompletedJobs. The set holds the jobs that the step may release: those that a peer accepted in this tick, or that a client
  has read and ClearCompletedJobs selected. New jobs come with a new identifier and a new address.
\<close>

definition new_to :: "CentralState \<Rightarrow> string \<Rightarrow> nat \<Rightarrow> bool" where
  "new_to s k a \<longleftrightarrow> k \<notin> fst ` set (ss_jobs s) \<and> queue_fresh (state_ac s) (ss_unassignedJobs s) k \<and>
     a \<notin> ran (map_of (ss_jobs s)) \<and> a \<notin> set (q_order (ss_unassignedJobs s))"

inductive serve_step :: "CentralState \<Rightarrow> string set \<Rightarrow> CentralState \<Rightarrow> bool" where
  serve_schedule: "(\<And>ws. mset (order ws) = mset ws) \<Longrightarrow> packer_tick_step conns (TickSchedule rm now red order) s = Some s' \<Longrightarrow>
    serve_step s {k. taken_over rm k} s'"
| serve_states: "packer_tick_step conns (TickStates now rpc ev) s = Some s' \<Longrightarrow> serve_step s {} s'"
| serve_heartbeats: "packer_tick_step conns TickHeartbeats s = Some s' \<Longrightarrow> serve_step s {} s'"
| serve_stream: "serve_step s {} (stream_round_events r s)"
| serve_request: "new_to s k a \<Longrightarrow> RequestJob a k cpu mem alias prio payload s = (resp, s') \<Longrightarrow> serve_step s {} s'"
| serve_status: "RequestJobStatus now k s = (resp, s') \<Longrightarrow> serve_step s {} s'"
| serve_redistribute: "new_to s (rr_JobId req) a \<Longrightarrow> Redistribute a req s = Some (ok, s') \<Longrightarrow> serve_step s {} s'"
| serve_heartbeat: "serve_step s {} (Heartbeat now key usages s)"
| serve_clear: "serve_step s (set (clear_list now s)) (ClearCompletedJobs now s)"

inductive_cases serve_step_elim: "serve_step s R s'"

text \<open>What every step keeps: the invariant, completed jobs, and the knowledge of every job it does not release.\<close>

definition keeps_known :: "string set \<Rightarrow> CentralState \<Rightarrow> CentralState \<Rightarrow> bool" where
  "keeps_known R s s' \<longleftrightarrow> sched_inv s' \<and> (\<forall>k. k \<notin> R \<longrightarrow> (stage_of s k = Some Done \<longrightarrow> stage_of s' k = Some Done) \<and>
     (stage_of s k \<noteq> None \<longrightarrow> stage_of s' k \<noteq> None))"

lemma keeps_known_same: "sched_inv s \<Longrightarrow> same_jobs s s' \<Longrightarrow> keeps_known R s s'"
  using same_jobs_inv by (simp add: keeps_known_def)

lemma keeps_known_refl: "sched_inv s \<Longrightarrow> keeps_known R s s"
  by (simp add: keeps_known_def)

lemma keeps_known_trans: "keeps_known R s s1 \<Longrightarrow> keeps_known R' s1 s2 \<Longrightarrow> keeps_known (R \<union> R') s s2"
  by (auto simp: keeps_known_def)

lemma stage_append:
  assumes "job_Id j \<notin> fst ` set (ss_jobs s)" "x \<noteq> job_Id j"
  shows "stage_of (AppendJob (set_job a j s) a) x = stage_of s x"
  using assms by (auto simp: stage_of_def AppendJob_def set_job_def Let_def Push_def job_ac_def split: option.splits)

lemma append_waiting:
  assumes inv: "sched_inv s" and j: "job_Id j \<notin> fst ` set (ss_jobs s)" "queue_fresh (state_ac s) (ss_unassignedJobs s) (job_Id j)"
  shows "stage_of (AppendJob (set_job a j s) a) (job_Id j) = Some Waiting"
proof -
  have "job_Id j \<notin> set (ss_completedJobs s)" "job_Id j \<notin> set (ss_assignedJobs s)" using inv j(1) by (auto simp: sched_inv_def)
  then show ?thesis
    using j by (auto simp: stage_of_def AppendJob_def set_job_def Let_def Push_def job_ac_def queue_fresh_def split: option.splits)
qed

lemma append_keeps:
  assumes inv: "sched_inv s" and new: "new_to s (job_Id j) a"
  shows "keeps_known {} s (AppendJob (set_job a j s) a)"
proof -
  have "stage_of s (job_Id j) = None" using new by (auto simp: new_to_def stage_of_def map_of_eq_None_iff)
  then have "stage_of s k \<noteq> None \<Longrightarrow> stage_of (AppendJob (set_job a j s) a) k = stage_of s k" for k
    using new stage_append [of j s k a] by (cases "k = job_Id j") (auto simp: new_to_def)
  moreover have "sched_inv (AppendJob (set_job a j s) a)" using AppendJob_inv [OF inv] new by (simp add: new_to_def)
  ultimately show ?thesis by (auto simp: keeps_known_def)
qed

lemma event_keeps: "sched_inv s \<Longrightarrow> keeps_known {} s (job_event resp s)"
  by (auto simp: keeps_known_def job_event_def Let_def CompleteJob_stage intro: CompleteJob_inv)

lemma recv_keeps: "sched_inv s \<Longrightarrow> keeps_known {} s (recv_events resps s)"
proof (induction resps arbitrary: s)
  case (Cons r resps)
  let ?s = "case r of None \<Rightarrow> s | Some e \<Rightarrow> job_event e s"
  have one: "keeps_known {} s ?s" using Cons.prems by (cases r) (auto simp: event_keeps keeps_known_refl)
  then have "keeps_known {} ?s (recv_events resps ?s)" using Cons.IH by (simp add: keeps_known_def)
  moreover have "recv_events (r # resps) s = recv_events resps ?s" by (simp add: recv_events_def)
  ultimately show ?case using keeps_known_trans [OF one] by simp
qed (simp add: recv_events_def keeps_known_refl)

lemma request_conns_same: "request_conns now conns rpc cs s = Some s' \<Longrightarrow> same_jobs s s'"
proof (induction cs arbitrary: s)
  case (Cons c cs)
  then show ?case
    by (fastforce simp: same_jobs_def UpdateCluster_def new_cluster_def Let_def split: option.splits)
qed (simp add: same_jobs_def)

lemma serve_keeps:
  assumes "serve_step s R s'" "sched_inv s"
  shows "keeps_known R s s'"
  using assms(1)
proof cases
  case (serve_schedule order conns rm now red)
  have "schedule rm now red order s = Some s'" using serve_schedule(3) by (simp add: packer_tick_step_def)
  from schedule_loses_no_job [OF assms(2) serve_schedule(2) this] show ?thesis
    unfolding keeps_known_def serve_schedule(1) by auto
next
  case (serve_states conns now rpc ev)
  then show ?thesis
    using assms(2) request_conns_same by (auto simp: packer_tick_step_def requestStates_def intro!: keeps_known_same)
next
  case (serve_heartbeats conns)
  then show ?thesis using assms(2) by (simp add: packer_tick_step_def keeps_known_refl)
next
  case (serve_stream r)
  then show ?thesis using assms(2) recv_keeps by (simp add: stream_round_events_def keeps_known_refl)
next
  case (serve_request k a cpu mem al prio payload resp)
  then show ?thesis using append_keeps [OF assms(2)] by (auto simp: RequestJob_def new_job_def)
next
  case (serve_status now k resp)
  then have "same_jobs s s'"
    by (auto simp: RequestJobStatus_def QueueFreeCompletedJob_def same_jobs_def Let_def split: option.splits if_splits)
  then show ?thesis using keeps_known_same assms(2) by blast
next
  case (serve_redistribute req a ok)
  then show ?thesis
    using append_keeps [OF assms(2)] assms(2)
    by (auto simp: Redistribute_def new_job_def keeps_known_refl split: if_splits option.splits)
next
  case (serve_heartbeat now key usages)
  then have "same_jobs s s'" by (auto simp: Heartbeat_def UpdateSchedulerState_def same_jobs_def split: prod.splits)
  then show ?thesis using keeps_known_same assms(2) by blast
next
  case (serve_clear now)
  then show ?thesis
    using assms(2) jt.purge_all(2) ClearCompletedJobs_inv by (auto simp: keeps_known_def ClearCompletedJobs_def)
qed

inductive serve_run :: "CentralState \<Rightarrow> string set \<Rightarrow> CentralState \<Rightarrow> bool" where
  run_start: "serve_run s {} s"
| run_step: "serve_run s R s1 \<Longrightarrow> serve_step s1 R1 s2 \<Longrightarrow> serve_run s (R \<union> R1) s2"

lemma serve_run_keeps: "serve_run s R s' \<Longrightarrow> sched_inv s \<Longrightarrow> keeps_known R s s'"
proof (induction rule: serve_run.induct)
  case (run_step s R s1 R1 s2)
  then have one: "keeps_known R s s1" by blast
  then have "keeps_known R1 s1 s2" using serve_keeps [OF run_step.hyps(2)] by (simp add: keeps_known_def)
  then show ?case by (rule keeps_known_trans [OF one])
qed (simp add: keeps_known_refl)



subsection \<open>The stream of a cluster completes exactly what it reports\<close>

definition terminal_id :: "JobStatusResponse option \<Rightarrow> string option" where
  "terminal_id resp =
     (case resp of None \<Rightarrow> None
      | Some r \<Rightarrow> if je_Status (ParseJobEvent r) = Completed \<or> je_Status (ParseJobEvent r) = Failed then Some (jsr_JobId r) else None)"

definition round_ids :: "stream_round \<Rightarrow> string set" where
  "round_ids r = (if sr_connected r \<and> sr_opened r then {k. Some k \<in> terminal_id ` set (sr_received r)} else {})"

fun heard_ids :: "stream_round list \<Rightarrow> string set" where
  "heard_ids [] = {}"
| "heard_ids (r # rounds) = round_ids r \<union> (if sr_cancelled r then {} else heard_ids rounds)"

lemma event_stage:
  "stage_of (case resp of None \<Rightarrow> s | Some r \<Rightarrow> job_event r s) k = (if terminal_id resp = Some k \<and> stage_of s k \<noteq> None then Some Done else stage_of s k)"
proof (cases resp)
  case (Some r)
  have none: "map_of (ss_jobs s) x = None \<longleftrightarrow> stage_of s x = None" for x by (simp add: stage_of_def)
  show ?thesis
    using Some by (simp add: terminal_id_def job_event_def Let_def CompleteJob_stage none) (auto simp: ParseJobEvent_def)
qed (simp add: terminal_id_def)

lemma recv_stage:
  "stage_of (recv_events resps s) k = (if Some k \<in> terminal_id ` set resps \<and> stage_of s k \<noteq> None then Some Done else stage_of s k)"
proof (induction resps arbitrary: s)
  case (Cons r resps)
  let ?s = "case r of None \<Rightarrow> s | Some e \<Rightarrow> job_event e s"
  have "recv_events (r # resps) s = recv_events resps ?s" by (simp add: recv_events_def)
  then show ?case using Cons.IH [of ?s] event_stage [of s r k] by auto
qed (simp add: recv_events_def)

lemma round_stage: "stage_of (stream_round_events r s) k = (if k \<in> round_ids r \<and> stage_of s k \<noteq> None then Some Done else stage_of s k)"
  by (simp add: stream_round_events_def round_ids_def recv_stage)

text \<open>
  C14 (the status stream). However often the stream of a cluster breaks and is opened again, monitorJobStatuses makes exactly those known
  jobs done that a completed or failed event names in a round before it stopped; every other job stays where it was, and the state
  stays consistent. It returns exactly when its context was done at the end of a round.
\<close>

theorem monitorJobStatuses_spec:
  assumes "sched_inv s"
  shows "sched_inv (snd (monitorJobStatuses rounds s)) \<and>
    (\<forall>k. stage_of (snd (monitorJobStatuses rounds s)) k = (if k \<in> heard_ids rounds \<and> stage_of s k \<noteq> None then Some Done else stage_of s k)) \<and>
    (fst (monitorJobStatuses rounds s) \<longleftrightarrow> (\<exists>r\<in>set rounds. sr_cancelled r))"
  using assms
proof (induction rounds arbitrary: s)
  case (Cons r rounds)
  let ?s = "stream_round_events r s"
  have "sched_inv ?s" using recv_keeps [OF Cons.prems] Cons.prems by (simp add: stream_round_events_def keeps_known_def)
  from Cons.IH [OF this] show ?case
    using \<open>sched_inv ?s\<close> by (auto simp: Let_def round_stage)
qed simp

theorem monitorJobStatuses_spec_witness:
  "stage_of (snd (monitorJobStatuses
     [\<lparr>sr_connected = True, sr_opened = False, sr_received = [], sr_cancelled = False\<rparr>,
      \<lparr>sr_connected = True, sr_opened = True, sr_received = [None, Some \<lparr>jsr_JobId = ''j'', jsr_Status = JOB_STATUS_FAILED, jsr_Priority = 0,
         jsr_ImageAlias = '''', jsr_Payload = None\<rparr>], sr_cancelled = True\<rparr>] demo_pack)) ''j'' = Some Done"
  (is "stage_of (snd (monitorJobStatuses ?rounds demo_pack)) ''j'' = Some Done")
proof -
  have "''j'' \<in> heard_ids ?rounds" by (simp add: round_ids_def terminal_id_def ParseJobEvent_def)
  moreover have "stage_of demo_pack ''j'' \<noteq> None" by code_simp
  ultimately show ?thesis using monitorJobStatuses_spec [OF demo_pack_inv, of ?rounds] by simp
qed

text \<open>With a connection for every cluster, the requests are those of requestClusterState.\<close>

lemma request_conns_requests:
  "request_conns now conns rpc cs s = Some s' \<Longrightarrow>
   s' = request_loop now (\<lambda>key. case Cluster conns key of None \<Rightarrow> None | Some conn \<Rightarrow> FetchClusterStatus (rpc key) conn) cs s"
  by (induction cs arbitrary: s) (auto simp: Let_def ParseClusterStatus_def split: option.splits)

subsection \<open>Heartbeats\<close>

lemma SendHeartbeats_connected:
  "SendHeartbeats s conns = map (\<lambda>co. (pc_nodeID co, the (SendHeartbeat s co))) (filter pc_connected conns)"
proof -
  have "Handler_ForEach (\<lambda>co sent. case SendHeartbeat s co of None \<Rightarrow> (False, sent) | Some msg \<Rightarrow> (True, sent @ [(pc_nodeID co, msg)])) conns out =
      out @ map (\<lambda>co. (pc_nodeID co, the (SendHeartbeat s co))) (filter pc_connected conns)" for out
    by (induction conns arbitrary: out) (simp_all add: SendHeartbeat_def)
  from this [of "[]"] show ?thesis by (simp add: SendHeartbeats_def)
qed

definition usage_state :: "time \<Rightarrow> string \<times> int \<times> int \<times> int \<times> int \<Rightarrow> string \<times> ClusterState" where
  "usage_state now u = (case u of (key, ucpu, umem, tcpu, tmem) \<Rightarrow> (key, \<lparr>cs_ID = key, cs_UsedCpu = ucpu, cs_UsedMem = umem,
     cs_MaxCpu = tcpu, cs_MaxMem = tmem, cs_OptimisticUpdates = 0, cs_LastUpdated = now\<rparr>))"

lemma fold_usages: "map_of (fold (\<lambda>u m. AList.update (fst (f u)) (snd (f u)) m) us m) = map_of m ++ map_of (rev (map f us))"
  by (induction us arbitrary: m) (simp_all add: map_add_assoc)

lemma update_first_found:
  "p \<in> set ps \<Longrightarrow> sd_ID p = key \<Longrightarrow>
   \<exists>pre q post. ps = pre @ q # post \<and> sd_ID q = key \<and> update_first now key cs ps = (True, pre @ q\<lparr>sd_LastUpdated := now, sd_ClusterStates := cs\<rparr> # post)"
proof (induction ps)
  case (Cons x ps)
  show ?case
  proof (cases "sd_ID x = key")
    case True
    then show ?thesis by (intro exI [of _ "[]"]) auto
  next
    case False
    then obtain pre q post where "ps = pre @ q # post" "sd_ID q = key"
      "update_first now key cs ps = (True, pre @ q\<lparr>sd_LastUpdated := now, sd_ClusterStates := cs\<rparr> # post)"
      using Cons by auto
    then show ?thesis using False by (intro exI [of _ "x # pre"]) auto
  qed
qed simp

text \<open>
  After a heartbeat the receiver's entry of the sender has, for every cluster of the sender and no other, the usage and the limits that the
  sender holds of it, and it is as fresh as the heartbeat.
\<close>

lemma heartbeat_shares_load:
  assumes wf: "gm_wf (ss_clusters s)" "\<And>key a. (key, a) \<in> set (ss_clusters s) \<Longrightarrow> cs_ID (ss_clusterHeap s a) = key"
    and peer: "p \<in> set (ss_peers t)" "sd_ID p = ss_id s" and hb: "SendHeartbeat s co = Some (sid, us)"
  shows "\<exists>pre q post. ss_peers (Heartbeat now sid us t) = pre @ q # post \<and> sd_ID q = ss_id s \<and> sd_LastUpdated q = now \<and>
    (\<forall>key. map_of (sd_ClusterStates q) key =
      map_option (\<lambda>a. (ss_clusterHeap s a)\<lparr>cs_OptimisticUpdates := 0, cs_LastUpdated := now\<rparr>) (map_of (ss_clusters s) key))"
proof -
  let ?g = "\<lambda>a. (ss_clusterHeap s a)\<lparr>cs_OptimisticUpdates := 0, cs_LastUpdated := now\<rparr>"
  let ?cs = "fold (\<lambda>u m. AList.update (fst (usage_state now u)) (snd (usage_state now u)) m) us []"
  have sid: "sid = ss_id s" and us: "map (usage_state now) us = map (\<lambda>(key, a). (key, ?g a)) (ss_clusters s)"
    using hb wf(2) by (auto simp: SendHeartbeat_def usage_state_def LocalClusters_def Let_def split: if_splits)
  have dist: "distinct (map fst (map (usage_state now) us))" using wf(1) unfolding us by (simp add: comp_def case_prod_unfold)
  have "map_of ?cs = map_of (rev (map (usage_state now) us))" by (simp add: fold_usages)
  also have "\<dots> = map_of (map (usage_state now) us)" using dist by (intro map_of_inject_set [THEN iffD2]) (simp_all add: rev_map [symmetric])
  also have "\<dots> = (\<lambda>key. map_option ?g (map_of (ss_clusters s) key))" unfolding us by (simp add: map_of_map comp_def)
  finally have cs: "map_of ?cs = (\<lambda>key. map_option ?g (map_of (ss_clusters s) key))" .
  have hbt: "Heartbeat now sid us t = snd (UpdateSchedulerState now t sid ?cs)"
    by (simp add: Heartbeat_def usage_state_def case_prod_unfold)
  from update_first_found [OF peer(1), of sid now ?cs] obtain pre q post where "sd_ID q = sid"
    "update_first now sid ?cs (ss_peers t) = (True, pre @ q\<lparr>sd_LastUpdated := now, sd_ClusterStates := ?cs\<rparr> # post)"
    using peer(2) sid by blast
  then show ?thesis unfolding hbt by (intro exI [of _ pre] exI [of _ "q\<lparr>sd_LastUpdated := now, sd_ClusterStates := ?cs\<rparr>"] exI [of _ post])
      (simp add: UpdateSchedulerState_def cs sid)
qed

subsection \<open>A job recovered from the log\<close>

text \<open>
  The payload that CommitJob writes has no requirements. So when the most recent entry of a job in the log of a consensus node is such a
  payload, the job that FetchJob makes of it can never be dispatched.
\<close>

lemma fetched_job_not_dispatchable:
  assumes "h_entries (n_FileHandler n) = pre @ e # post" "map_option gp_ID (u (le_Payload e)) = Some k"
    and "\<forall>x\<in>set post. map_option gp_ID (u (le_Payload x)) \<noteq> Some k"
    and "unmarshal (le_Payload e) = Some (job_payload job)"
  shows "\<exists>j. FetchJob unmarshal (FetchData (Some (GetData u n None (Some k)))) = Some j \<and> job_Id j = job_Id job \<and>
    DispatchJob conn accept j s = (None, s)"
  using QueryEntries_latest [OF assms(1-3)] assms(4)
  by (simp add: FetchJob_def FetchData_def GetData_def DispatchJob_def dispatchable_def CastFromGlobalModel_def job_payload_def)

subsection \<open>Redistribution between two schedulers\<close>

text \<open>The answer of a peer in state \<open>t\<close> to a Redistribute call; a panic there is an error of the call.\<close>

definition peer_answer :: "nat \<Rightarrow> CentralState \<Rightarrow> RedistributeRequest \<Rightarrow> bool option" where
  "peer_answer b t req = map_option fst (Redistribute b req t)"

text \<open>
  C13 (redistribution). A scheduler hands an active job to a connected peer. When the peer accepts, the job leaves the sender and
  waits at the peer, under the same identifier and with the same image, requirements, priority and payload; every other job of both stays where it
  was. When the answer of an accepting peer is lost, the sender keeps the job, and both schedulers have it.
\<close>

theorem redistribution_moves_job:
  fixes s t :: CentralState
  defines "req a \<equiv> redistribute_request (ss_id s) (ss_jobHeap s a) False"
  assumes inv: "sched_inv s" "sched_inv t" and c: "claimed s a" and co: "pc_connected co"
    and new: "new_to t (job_Id (ss_jobHeap s a)) b"
    and acc: "Redistribute b (req a) t = Some (True, t')"
  shows "redistribute_op (\<lambda>_. peer_answer b t) a co s = (True, PurgeJob s (job_Id (ss_jobHeap s a))) \<and>
    stage_of (PurgeJob s (job_Id (ss_jobHeap s a))) = (stage_of s)(job_Id (ss_jobHeap s a) := None) \<and>
    sched_inv t' \<and> stage_of t' = (stage_of t)(job_Id (ss_jobHeap s a) \<mapsto> Waiting) \<and>
    ss_jobHeap t' b = (ss_jobHeap s a)\<lparr>job_AssignedClusterId := '''', job_Status := Pending, job_Response := None\<rparr> \<and>
    redistribute_op (\<lambda>_ _. None) a co s = (False, s)"
proof -
  let ?k = "job_Id (ss_jobHeap s a)" and ?j = "ss_jobHeap s a"
  let ?n = "new_job ?k (job_ImageAlias ?j) (job_CPURequirement ?j) (job_MemoryRequirement ?j) (job_Priority ?j) (job_Payload ?j)"
  have t': "t' = AppendJob (set_job b ?n t) b"
    using acc by (auto simp: req_def Redistribute_def redistribute_request_def split: if_splits)
  have key: "job_Id ?n = ?k" by (simp add: new_job_def)
  have ti: "sched_inv t'" unfolding t' using AppendJob_inv [OF inv(2), of ?n b] new by (simp add: new_to_def key)
  have "stage_of t' ?k = Some Waiting" using append_waiting [OF inv(2), of ?n b] new by (simp add: t' new_to_def key)
  moreover have "stage_of t' x = stage_of t x" if "x \<noteq> ?k" for x
    unfolding t' using stage_append [of ?n t x b] new that by (simp add: new_to_def key)
  ultimately have st: "stage_of t' = (stage_of t)(?k \<mapsto> Waiting)" by (auto simp: fun_eq_iff)
  have heap: "ss_jobHeap t' b = ?j\<lparr>job_AssignedClusterId := '''', job_Status := Pending, job_Response := None\<rparr>"
    by (simp add: t' AppendJob_def set_job_def new_job_def Let_def)
  show ?thesis
    using st heap ti co acc
    by (simp add: redistribute_op_def Conn_Redistribute_def peer_answer_def req_def PurgeJob_stage)
qed

definition demo_peer_sched :: CentralState where
  "demo_peer_sched = UpdateCluster 0 (NewState (\<lambda>_. demo_job) (\<lambda>_. demo_cstate) ''t'' ''addr'') ''d'' 0 0 8 16"

theorem redistribution_moves_job_witness:
  "\<exists>s t'. stage_of s ''j'' = Some Active \<and> Redistribute 0 (redistribute_request (ss_id s) (ss_jobHeap s 0) False) demo_peer_sched = Some (True, t') \<and>
     stage_of (snd (redistribute_op (\<lambda>_. peer_answer 0 demo_peer_sched) 0 \<lparr>pc_nodeID = ''t'', pc_connected = True\<rparr> s)) ''j'' = None \<and>
     stage_of t' ''j'' = Some Waiting"
proof -
  let ?s = "snd (NextPendingJob demo_pack 8 16)"
  have inv: "sched_inv ?s" by (rule NextPendingJob_inv [OF demo_pack_inv]) (rule surjective_pairing)
  have inv': "sched_inv demo_peer_sched"
    using NewState_inv same_jobs_inv(2) [of "NewState (\<lambda>_. demo_job) (\<lambda>_. demo_cstate) ''t'' ''addr''" demo_peer_sched]
    by (simp add: demo_peer_sched_def same_jobs_def UpdateCluster_def new_cluster_def)
  have c: "claimed ?s 0" unfolding claimed_def by code_simp
  have key: "job_Id (ss_jobHeap ?s 0) = ''j''" by code_simp
  have new: "new_to demo_peer_sched (job_Id (ss_jobHeap ?s 0)) 0"
    by (simp add: new_to_def demo_peer_sched_def UpdateCluster_def new_cluster_def NewState_def NewQueue_def queue_fresh_def)
  have "case Redistribute 0 (redistribute_request (ss_id ?s) (ss_jobHeap ?s 0) False) demo_peer_sched of Some (b, _) \<Rightarrow> b | None \<Rightarrow> False" by code_simp
  then obtain t' where acc: "Redistribute 0 (redistribute_request (ss_id ?s) (ss_jobHeap ?s 0) False) demo_peer_sched = Some (True, t')"
    by (auto split: option.splits)
  have act: "stage_of ?s ''j'' = Some Active" using c key by (simp add: claimed_def)
  note moved = redistribution_moves_job [OF inv inv' c _ new acc, of "\<lparr>pc_nodeID = ''t'', pc_connected = True\<rparr>", unfolded key]
  show ?thesis using moved acc act by (intro exI [of _ ?s] exI [of _ t']) simp
qed

end
