(* ===== verification/ClusterJobs.thy ===== *)
theory ClusterJobs
  imports Arbiter Models
begin

section \<open>The job queue of a cluster node (internal/cluster/scheduler/queue.go, internal/cluster/core/models.go)\<close>

text \<open>
  A cluster node keeps the jobs it accepted in \<^verbatim>\<open>Jobs\<close>: a packing queue of pending jobs, a map of active ones and the
  channel \<^verbatim>\<open>Completed\<close>. A job pointer is in one of them at a time and its identifier, image and priority never change,
  so jobs are values here. The channel holds 1000 jobs; a sender that finds it full waits its turn, so channel
  and waiting senders together are one FIFO list. Sending on the closed channel panics (\<open>None\<close>).
\<close>

record Volume =
  vo_Type :: string
  vo_Source :: string
  vo_Target :: string

record Image =
  im_Alias :: string
  im_ImageName :: string
  im_Volumes :: "Volume list"
  im_Args :: "string list"
  im_NanoCPULimit :: int
  im_MemoryBytesLimit :: int
  im_Persistent :: bool
  im_Ports :: "(string, string) gomap"
  im_MaxJobs :: int
  im_Timeout :: int

record ClusterJob =
  cj_Id :: string
  cj_Image :: Image
  cj_AssignedContainerID :: string
  cj_Priority :: int
  cj_Payload :: "bytes option"
  cj_Response :: "bytes option"
  cj_Succeeded :: bool

definition NewJob :: "string \<Rightarrow> Image \<Rightarrow> int \<Rightarrow> bytes option \<Rightarrow> ClusterJob" where
  "NewJob key img priority payload =
     \<lparr>cj_Id = key, cj_Image = img, cj_AssignedContainerID = '''', cj_Priority = priority, cj_Payload = payload,
      cj_Response = None, cj_Succeeded = False\<rparr>"

record Jobs =
  jq_pending :: "ClusterJob queue"
  jq_active :: "(string, ClusterJob) gomap"
  jq_Completed :: "ClusterJob list"
  jq_closed :: bool

definition cjob_ac :: "ClusterJob accessors" where
  "cjob_ac = \<lparr>idFn = cj_Id, prioFn = cj_Priority, cpuFn = (\<lambda>j. im_NanoCPULimit (cj_Image j)),
     memFn = (\<lambda>j. im_MemoryBytesLimit (cj_Image j))\<rparr>"

lemma cjob_ac_simps [simp]:
  "idFn cjob_ac = cj_Id" "prioFn cjob_ac = cj_Priority" "cpuFn cjob_ac j = im_NanoCPULimit (cj_Image j)"
  "memFn cjob_ac j = im_MemoryBytesLimit (cj_Image j)"
  by (simp_all add: cjob_ac_def)

definition CreateJobsQueue :: Jobs where
  "CreateJobsQueue = \<lparr>jq_pending = NewQueue, jq_active = [], jq_Completed = [], jq_closed = False\<rparr>"

datatype jobs_error = ErrAlreadyRunning | ErrAlreadyPending | JobRunning string | JobNotFound string | JobNotActive string

subsection \<open>Adding, removing, finding\<close>

definition AddJob :: "Jobs \<Rightarrow> ClusterJob \<Rightarrow> jobs_error option \<times> Jobs" where
  "AddJob j job =
     (if map_of (jq_active j) (cj_Id job) \<noteq> None then (Some ErrAlreadyRunning, j)
      else (None, j\<lparr>jq_pending := Push cjob_ac (jq_pending j) job\<rparr>))"

definition RemoveJob :: "Jobs \<Rightarrow> string \<Rightarrow> jobs_error option \<times> Jobs" where
  "RemoveJob j key =
     (if map_of (jq_active j) key \<noteq> None then (Some (JobRunning key), j)
      else (None, j\<lparr>jq_pending := RemoveByID (jq_pending j) key\<rparr>))"

definition FindJob :: "Jobs \<Rightarrow> string \<Rightarrow> jobs_error + ClusterJob" where
  "FindJob j key =
     (case PeekForHeuristic (jq_pending j) (\<lambda>job. cj_Id job = key) of
        job # _ \<Rightarrow> Inr job
      | [] \<Rightarrow> (case map_of (jq_active j) key of Some job \<Rightarrow> Inr job | None \<Rightarrow> Inl (JobNotFound key)))"

definition Jobs_PendingJobs :: "Jobs \<Rightarrow> ClusterJob list" where
  "Jobs_PendingJobs j = Items (jq_pending j)"

definition Jobs_ActiveJobs :: "Jobs \<Rightarrow> ClusterJob list" where
  "Jobs_ActiveJobs j = map snd (jq_active j)"

definition LenPending :: "Jobs \<Rightarrow> int" where
  "LenPending j = Size (jq_pending j)"

definition LenActive :: "Jobs \<Rightarrow> int" where
  "LenActive j = wrap32 (int (length (jq_active j)))"

subsection \<open>The states of a job\<close>

definition MarkRunning :: "Jobs \<Rightarrow> string \<Rightarrow> string \<Rightarrow> jobs_error option \<times> Jobs" where
  "MarkRunning j key containerID =
     (case map_of (jq_active j) key of
        Some job \<Rightarrow> (None, j\<lparr>jq_active := AList.update key (job\<lparr>cj_AssignedContainerID := containerID\<rparr>) (jq_active j)\<rparr>)
      | None \<Rightarrow> (Some (JobNotActive key), j))"

text \<open>MarkCompleted: the part under the lock, then the send without it.\<close>

definition mark_take :: "Jobs \<Rightarrow> string \<Rightarrow> bytes option \<Rightarrow> bool \<Rightarrow> ClusterJob option \<times> Jobs" where
  "mark_take j key payload success =
     (case map_of (jq_active j) key of
        None \<Rightarrow> (None, j)
      | Some job \<Rightarrow> (Some (job\<lparr>cj_Payload := payload, cj_Succeeded := success\<rparr>), j\<lparr>jq_active := AList.delete key (jq_active j)\<rparr>))"

definition send_completed :: "Jobs \<Rightarrow> ClusterJob list \<Rightarrow> Jobs option" where
  "send_completed j jobs =
     (if jq_closed j \<and> jobs \<noteq> [] then None else Some (j\<lparr>jq_Completed := jq_Completed j @ jobs\<rparr>))"

definition MarkCompleted :: "Jobs \<Rightarrow> string \<Rightarrow> bytes option \<Rightarrow> bool \<Rightarrow> (jobs_error option \<times> Jobs) option" where
  "MarkCompleted j key payload success =
     (case mark_take j key payload success of
        (None, j1) \<Rightarrow> Some (Some (JobNotActive key), j1)
      | (Some job, j1) \<Rightarrow> map_option (Pair None) (send_completed j1 [job]))"

definition RollbackJob :: "Jobs \<Rightarrow> string \<Rightarrow> jobs_error option \<times> Jobs" where
  "RollbackJob j key =
     (case map_of (jq_active j) key of
        Some job \<Rightarrow> (None, j\<lparr>jq_active := AList.delete key (jq_active j),
          jq_pending := Push cjob_ac (jq_pending j) (job\<lparr>cj_AssignedContainerID := ''''\<rparr>)\<rparr>)
      | None \<Rightarrow> (Some (JobNotActive key), j))"

definition ClearAllJobs :: "Jobs \<Rightarrow> Jobs option" where
  "ClearAllJobs j =
     (let toComplete = Jobs_ActiveJobs j @ Items (jq_pending j)
      in send_completed (j\<lparr>jq_active := [], jq_pending := Clear (jq_pending j)\<rparr>) toComplete)"

text \<open>StreamCompleted hands the oldest completed job on.\<close>

definition StreamCompleted :: "Jobs \<Rightarrow> (ClusterJob \<times> Jobs) option" where
  "StreamCompleted j =
     (case jq_Completed j of [] \<Rightarrow> None | job # rest \<Rightarrow> Some (job, j\<lparr>jq_Completed := rest\<rparr>))"

definition Jobs_Close :: "Jobs \<Rightarrow> Jobs option" where
  "Jobs_Close j =
     (case ClearAllJobs j of
        None \<Rightarrow> None
      | Some j1 \<Rightarrow> if jq_closed j1 then None else Some (j1\<lparr>jq_closed := True\<rparr>))"

subsection \<open>Utilisation and choice\<close>

definition usage :: "ClusterJob list \<Rightarrow> int \<times> int" where
  "usage jobs = (wsum (map (\<lambda>j. im_NanoCPULimit (cj_Image j)) jobs), wsum (map (\<lambda>j. im_MemoryBytesLimit (cj_Image j)) jobs))"

definition QueueUtilization :: "Jobs \<Rightarrow> int \<times> int" where
  "QueueUtilization j = usage (Jobs_ActiveJobs j @ Items (jq_pending j))"

definition ActiveUtilization :: "Jobs \<Rightarrow> int \<times> int" where
  "ActiveUtilization j = usage (Jobs_ActiveJobs j)"

definition PendingJobTypes :: "Jobs \<Rightarrow> (string, int) gomap" where
  "PendingJobTypes j =
     fold (\<lambda>job m. let alias = im_Alias (cj_Image job) in
         AList.update alias (wrap64 ((case map_of m alias of None \<Rightarrow> 0 | Some n \<Rightarrow> n) + 1)) m)
       (Items (jq_pending j)) []"

definition activate :: "ClusterJob \<Rightarrow> Jobs \<Rightarrow> Jobs" where
  "activate job j = j\<lparr>jq_active := AList.update (cj_Id job) (job\<lparr>cj_AssignedContainerID := ''packing-in-progress''\<rparr>) (jq_active j)\<rparr>"

definition NextBestJob :: "Jobs \<Rightarrow> string list \<Rightarrow> int \<Rightarrow> int \<Rightarrow> ClusterJob option \<times> Jobs" where
  "NextBestJob j freeContainerImageNames freeCpus freeMem =
     (let (homo, q1) = PopBestFitHeuristic cjob_ac (jq_pending j) freeCpus freeMem
            (\<lambda>job. im_Alias (cj_Image job) \<in> set freeContainerImageNames);
          (high, q2) = PopBestFit cjob_ac q1 freeCpus freeMem
      in case high of
           Some highestPriorityJob \<Rightarrow>
             (case homo of
                None \<Rightarrow> (high, activate highestPriorityJob (j\<lparr>jq_pending := q2\<rparr>))
              | Some homogenousJob \<Rightarrow>
                  if cj_Priority highestPriorityJob > cj_Priority homogenousJob
                  then (high, activate highestPriorityJob (j\<lparr>jq_pending := Push cjob_ac q2 homogenousJob\<rparr>))
                  else (homo, activate homogenousJob (j\<lparr>jq_pending := Push cjob_ac q2 highestPriorityJob\<rparr>)))
         | None \<Rightarrow>
             (case homo of
                None \<Rightarrow> (None, j\<lparr>jq_pending := q2\<rparr>)
              | Some homogenousJob \<Rightarrow> (homo, activate homogenousJob (j\<lparr>jq_pending := q2\<rparr>))))"

subsection \<open>Invariant\<close>

text \<open>
  The queue is in its contract, active jobs are stored under their identifiers, and an active job has left the
  queue for good, so it can be rolled back into it.
\<close>

definition jobs_inv :: "Jobs \<Rightarrow> bool" where
  "jobs_inv j \<longleftrightarrow> queue_inv cjob_ac (jq_pending j) \<and> gm_wf (jq_active j) \<and>
     (\<forall>k job. map_of (jq_active j) k = Some job \<longrightarrow> cj_Id job = k \<and> queue_fresh cjob_ac (jq_pending j) k)"

declare jobs_inv_def [inv_simps] map_of_eq_Some_iff [simp del]

abbreviation pending_job :: "Jobs \<Rightarrow> string \<Rightarrow> ClusterJob option" where
  "pending_job j \<equiv> map_of (q_items (jq_pending j))"

abbreviation active_job :: "Jobs \<Rightarrow> string \<Rightarrow> ClusterJob option" where
  "active_job j \<equiv> map_of (jq_active j)"

lemma fresh_not_stored: "queue_inv ac q \<Longrightarrow> queue_fresh ac q k \<Longrightarrow> map_of (q_items q) k = None"
  by (auto simp: queue_inv_def queue_weak_def queue_fresh_def map_of_None_keys)

lemma active_not_pending: "jobs_inv j \<Longrightarrow> active_job j k = Some job \<Longrightarrow> pending_job j k = None"
  unfolding jobs_inv_def by (blast intro: fresh_not_stored)

lemma jobs_inv_Create: "jobs_inv CreateJobsQueue"
  by (simp add: jobs_inv_def CreateJobsQueue_def queue_inv_New)

lemma jobs_inv_AddJob:
  assumes inv: "jobs_inv j"
    and ok: "active_job j (cj_Id job) \<noteq> None \<or> queue_fresh cjob_ac (jq_pending j) (cj_Id job) \<or> pending_job j (cj_Id job) = Some job"
  shows "jobs_inv (snd (AddJob j job))"
proof (cases "active_job j (cj_Id job)")
  case None
  then have "queue_inv cjob_ac (Push cjob_ac (jq_pending j) job)"
    using inv ok pq.push_inv [of cjob_ac "jq_pending j" job] by (auto simp: jobs_inv_def)
  moreover have "cj_Id job \<noteq> k" if "active_job j k = Some job'" for k job' using that None by auto
  ultimately show ?thesis using None inv by (simp add: AddJob_def jobs_inv_def fresh_Push)
qed (use inv in \<open>simp add: AddJob_def\<close>)

lemma jobs_inv_RemoveJob: "jobs_inv j \<Longrightarrow> jobs_inv (snd (RemoveJob j k))"
  by (auto simp: RemoveJob_def jobs_inv_def queue_inv_RemoveByID fresh_RemoveByID)

lemma jobs_inv_MarkRunning: "jobs_inv j \<Longrightarrow> jobs_inv (snd (MarkRunning j k c))"
  by (auto simp: MarkRunning_def jobs_inv_def split: option.split)

lemma jobs_inv_mark_take: "jobs_inv j \<Longrightarrow> jobs_inv (snd (mark_take j k p b))"
  by (auto simp: mark_take_def jobs_inv_def split: option.split)

lemma jobs_inv_send: "jobs_inv j \<Longrightarrow> send_completed j js = Some j' \<Longrightarrow> jobs_inv j'"
  by (auto simp: send_completed_def jobs_inv_def split: if_splits)

lemma jobs_inv_RollbackJob: "jobs_inv j \<Longrightarrow> jobs_inv (snd (RollbackJob j k))"
  by (auto simp: RollbackJob_def jobs_inv_def fresh_Push intro: queue_inv_Push_fresh split: option.split)

lemma jobs_inv_ClearAllJobs: "jobs_inv j \<Longrightarrow> ClearAllJobs j = Some j' \<Longrightarrow> jobs_inv j'"
  unfolding ClearAllJobs_def Let_def by (erule jobs_inv_send [rotated]) (simp add: jobs_inv_def queue_inv_Clear)

subsection \<open>The choice of the next job\<close>

lemma prio_le: "\<not> packs_before cjob_ac x y \<Longrightarrow> cj_Priority x \<le> cj_Priority y"
  by (auto simp: packs_before_def split: if_splits)

text \<open>What NextBestJob promises of the job it takes: a fitting job of the highest priority, for a free container if possible.\<close>

definition best_job :: "Jobs \<Rightarrow> string list \<Rightarrow> int \<Rightarrow> int \<Rightarrow> ClusterJob \<Rightarrow> bool" where
  "best_job j imgs c m job \<longleftrightarrow> pending_job j (cj_Id job) = Some job \<and> fits cjob_ac c m job \<and>
     (\<forall>k x. pending_job j k = Some x \<and> fits cjob_ac c m x \<longrightarrow> cj_Priority x \<le> cj_Priority job \<and>
        (cj_Priority x = cj_Priority job \<and> im_Alias (cj_Image x) \<in> set imgs \<longrightarrow> im_Alias (cj_Image job) \<in> set imgs))"

text \<open>What is left of the queue when the job \<open>k\<close> was taken out (or none).\<close>

definition left_queue :: "Jobs \<Rightarrow> string option \<Rightarrow> ClusterJob queue \<Rightarrow> bool" where
  "left_queue j ko q \<longleftrightarrow> queue_inv cjob_ac q \<and>
     map_of (q_items q) = (case ko of None \<Rightarrow> pending_job j | Some k \<Rightarrow> (pending_job j)(k := None)) \<and>
     (\<forall>k. queue_fresh cjob_ac (jq_pending j) k \<or> ko = Some k \<longrightarrow> queue_fresh cjob_ac q k)"

lemma best_jobI:
  assumes "pending_job j (cj_Id job) = Some job" "fits cjob_ac c m job"
    and "\<And>k x. pending_job j k = Some x \<Longrightarrow> fits cjob_ac c m x \<Longrightarrow> cj_Priority x \<le> cj_Priority job"
    and "\<And>k x. pending_job j k = Some x \<Longrightarrow> fits cjob_ac c m x \<Longrightarrow> cj_Priority x = cj_Priority job \<Longrightarrow>
      im_Alias (cj_Image x) \<in> set imgs \<Longrightarrow> im_Alias (cj_Image job) \<in> set imgs"
  shows "best_job j imgs c m job"
  using assms unfolding best_job_def by blast

abbreviation hpop :: "Jobs \<Rightarrow> string list \<Rightarrow> int \<Rightarrow> int \<Rightarrow> ClusterJob option \<times> ClusterJob queue" where
  "hpop j imgs c m \<equiv> PopBestFitHeuristic cjob_ac (jq_pending j) c m (\<lambda>job. im_Alias (cj_Image job) \<in> set imgs)"

lemma next_none:
  assumes inv: "jobs_inv j" and h: "hpop j imgs c m = (None, q1)" and p: "PopBestFit cjob_ac q1 c m = (None, q2)"
  shows "left_queue j None q2" "pending_job j k = Some x \<Longrightarrow> \<not> fits cjob_ac c m x"
proof -
  have qi: "queue_inv cjob_ac (jq_pending j)" using inv by (simp add: jobs_inv_def)
  note q1 = pqh.hpop_inv [OF qi h] pqh.hpop_nothing [OF qi h]
  note q2 = pq.pop_inv [OF q1(1) p] pq.pop_nothing [OF q1(1) p]
  show "left_queue j None q2"
    using q1 q2 fresh_hpop [OF h] fresh_pop [OF p] by (simp add: left_queue_def)
  show "pending_job j k = Some x \<Longrightarrow> \<not> fits cjob_ac c m x" using q1 q2 by simp
qed

lemma next_high:
  assumes inv: "jobs_inv j" and h: "hpop j imgs c m = (None, q1)" and p: "PopBestFit cjob_ac q1 c m = (Some y, q2)"
  shows "best_job j imgs c m y" "left_queue j (Some (cj_Id y)) q2"
proof -
  have qi: "queue_inv cjob_ac (jq_pending j)" using inv by (simp add: jobs_inv_def)
  note q1 = pqh.hpop_inv [OF qi h] pqh.hpop_nothing [OF qi h]
  show "best_job j imgs c m y"
  proof (rule best_jobI)
    show "pending_job j (cj_Id y) = Some y" "fits cjob_ac c m y" using pq.pop_stored [OF q1(1) p] q1(2) by simp_all
    fix k x assume x: "pending_job j k = Some x" "fits cjob_ac c m x"
    then show "cj_Priority x \<le> cj_Priority y" using pq.pop_best [OF q1(1) p, of k x] q1(2) prio_le by simp
    show "im_Alias (cj_Image x) \<in> set imgs \<Longrightarrow> im_Alias (cj_Image y) \<in> set imgs" using q1(2) x by blast
  qed
  show "left_queue j (Some (cj_Id y)) q2"
    using pq.pop_inv [OF q1(1) p] pq.pop_lookup [OF q1(1) p] pq.pop_fresh [OF q1(1) p] fresh_hpop [OF h] fresh_pop [OF p] q1(2)
    by (auto simp: left_queue_def)
qed

lemma next_homo:
  assumes inv: "jobs_inv j" and h: "hpop j imgs c m = (Some x, q1)" and p: "PopBestFit cjob_ac q1 c m = (None, q2)"
  shows "best_job j imgs c m x" "left_queue j (Some (cj_Id x)) q2"
proof -
  have qi: "queue_inv cjob_ac (jq_pending j)" using inv by (simp add: jobs_inv_def)
  note q1 = pqh.hpop_inv [OF qi h] pqh.hpop_lookup [OF qi h] pqh.hpop_fresh [OF qi h] pqh.hpop_stored [OF qi h]
  note q2 = pq.pop_inv [OF q1(1) p] pq.pop_nothing [OF q1(1) p]
  show "best_job j imgs c m x"
  proof (rule best_jobI)
    show "pending_job j (cj_Id x) = Some x" "fits cjob_ac c m x" using q1(4) by simp_all
    show "im_Alias (cj_Image x) \<in> set imgs" using q1(4) by simp
    fix k z assume z: "pending_job j k = Some z" "fits cjob_ac c m z"
    have "k = cj_Id x"
    proof (rule ccontr)
      assume "k \<noteq> cj_Id x"
      then have "map_of (q_items q1) k = Some z" using q1(2) z(1) by simp
      then show False using q2(2) z(2) by blast
    qed
    then show "cj_Priority z \<le> cj_Priority x" using q1(4) z(1) by simp
  qed
  show "left_queue j (Some (cj_Id x)) q2"
    using q1 q2 fresh_hpop [OF h] fresh_pop [OF p] by (auto simp: left_queue_def)
qed

lemma next_both:
  assumes inv: "jobs_inv j" and h: "hpop j imgs c m = (Some x, q1)" and p: "PopBestFit cjob_ac q1 c m = (Some y, q2)"
  shows "cj_Priority y > cj_Priority x \<Longrightarrow> best_job j imgs c m y" "left_queue j (Some (cj_Id y)) (Push cjob_ac q2 x)"
    "\<not> cj_Priority y > cj_Priority x \<Longrightarrow> best_job j imgs c m x" "left_queue j (Some (cj_Id x)) (Push cjob_ac q2 y)"
proof -
  have qi: "queue_inv cjob_ac (jq_pending j)" using inv by (simp add: jobs_inv_def)
  note t = pqh.two_pops [OF qi h p] and b = pqh.put_back [OF qi h p] and hs = pqh.hpop_stored [OF qi h]
  have best: "z = x \<or> cj_Priority z \<le> cj_Priority y" if "pending_job j k = Some z" "fits cjob_ac c m z" for k z
    using t(5) [OF that] prio_le by blast
  have f3: "queue_fresh cjob_ac (Push cjob_ac q2 x) k" "queue_fresh cjob_ac (Push cjob_ac q2 y) k"
    if "queue_fresh cjob_ac (jq_pending j) k" for k
  proof -
    have "k \<noteq> cj_Id x" "k \<noteq> cj_Id y" using fresh_not_stored [OF qi that] hs t(2) by auto
    then show "queue_fresh cjob_ac (Push cjob_ac q2 x) k" "queue_fresh cjob_ac (Push cjob_ac q2 y) k"
      using fresh_pop [OF p fresh_hpop [OF h that]] by (simp_all add: fresh_Push)
  qed
  show "left_queue j (Some (cj_Id y)) (Push cjob_ac q2 x)" "left_queue j (Some (cj_Id x)) (Push cjob_ac q2 y)"
    using b f3 by (auto simp: left_queue_def simp del: lookup_Push)
  show "best_job j imgs c m y" if gt: "cj_Priority y > cj_Priority x"
  proof (rule best_jobI)
    fix k z assume z: "pending_job j k = Some z" "fits cjob_ac c m z"
    show "cj_Priority z \<le> cj_Priority y" using best [OF z] gt by auto
    assume "cj_Priority z = cj_Priority y" "im_Alias (cj_Image z) \<in> set imgs"
    then show "im_Alias (cj_Image y) \<in> set imgs" using prio_le [OF pqh.hpop_best [OF qi h z]] gt by simp
  qed (use t(2,3) in simp_all)
  show "best_job j imgs c m x" if ge: "\<not> cj_Priority y > cj_Priority x"
  proof (rule best_jobI)
    fix k z assume z: "pending_job j k = Some z" "fits cjob_ac c m z"
    show "cj_Priority z \<le> cj_Priority x" using best [OF z] ge by auto
  qed (use hs in simp_all)
qed

lemma NextBestJob_cases:
  assumes inv: "jobs_inv j" and n: "NextBestJob j imgs c m = (r, j')"
  obtains (nothing_fits) q where "r = None" "j' = j\<lparr>jq_pending := q\<rparr>" "left_queue j None q"
      "\<And>k x. pending_job j k = Some x \<Longrightarrow> \<not> fits cjob_ac c m x"
  | (chosen) job q where "r = Some job" "j' = activate job (j\<lparr>jq_pending := q\<rparr>)" "best_job j imgs c m job"
      "left_queue j (Some (cj_Id job)) q"
proof -
  obtain homo q1 where h: "hpop j imgs c m = (homo, q1)" by fastforce
  obtain high q2 where p: "PopBestFit cjob_ac q1 c m = (high, q2)" by fastforce
  note def = NextBestJob_def Let_def h p
  show thesis
  proof (cases homo)
    case None
    note h0 = h [unfolded None]
    show thesis
    proof (cases high)
      case None': None
      show thesis using next_none [OF inv h0 p [unfolded None']] n None None' by (intro nothing_fits) (auto simp: def)
    next
      case (Some y)
      show thesis using next_high [OF inv h0 p [unfolded Some]] n None Some by (intro chosen) (auto simp: def)
    qed
  next
    case (Some x)
    note hx = h [unfolded Some]
    show thesis
    proof (cases high)
      case None
      show thesis using next_homo [OF inv hx p [unfolded None]] n None Some by (intro chosen) (auto simp: def)
    next
      case (Some y)
      note b = next_both [OF inv hx p [unfolded Some]]
      show thesis
      proof (cases "cj_Priority y > cj_Priority x")
        case True
        show thesis using b(1,2) n True \<open>homo = Some x\<close> Some by (intro chosen) (auto simp: def)
      next
        case False
        show thesis using b(3,4) n False \<open>homo = Some x\<close> Some by (intro chosen) (auto simp: def)
      qed
    qed
  qed
qed

lemma left_queue_inv:
  assumes "jobs_inv j" "left_queue j ko q" "map_of (jq_active j') = active_job j \<or>
      (\<exists>job. ko = Some (cj_Id job) \<and> map_of (jq_active j') = (active_job j)(cj_Id job \<mapsto> job))"
    and "jq_pending j' = q" "gm_wf (jq_active j')"
  shows "jobs_inv j'"
proof -
  have "cj_Id job = k \<and> queue_fresh cjob_ac q k" if "active_job j' k = Some job" for k job
    using that assms(1,2,3) by (auto simp: jobs_inv_def left_queue_def split: if_splits)
  then show ?thesis using assms(2,4,5) by (simp add: jobs_inv_def left_queue_def)
qed

lemma NextBestJob_spec:
  assumes "jobs_inv j" and n: "NextBestJob j imgs c m = (r, j')"
  shows "jobs_inv j' \<and> jq_Completed j' = jq_Completed j \<and> jq_closed j' = jq_closed j \<and>
    (case r of
       None \<Rightarrow> pending_job j' = pending_job j \<and> active_job j' = active_job j \<and> (\<forall>k x. pending_job j k = Some x \<longrightarrow> \<not> fits cjob_ac c m x)
     | Some job \<Rightarrow> best_job j imgs c m job \<and> pending_job j' = (pending_job j)(cj_Id job := None) \<and>
         active_job j' = (active_job j)(cj_Id job \<mapsto> job\<lparr>cj_AssignedContainerID := ''packing-in-progress''\<rparr>))"
  using assms(1) n
proof (cases rule: NextBestJob_cases)
  case (nothing_fits q)
  have "jobs_inv j'" by (rule left_queue_inv [OF assms(1) nothing_fits(3)]) (use nothing_fits(2) assms(1) in \<open>simp_all add: jobs_inv_def\<close>)
  then show ?thesis using nothing_fits by (simp add: left_queue_def)
next
  case (chosen job q)
  have act: "active_job j' = (active_job j)(cj_Id job \<mapsto> job\<lparr>cj_AssignedContainerID := ''packing-in-progress''\<rparr>)"
    "gm_wf (jq_active j')" "jq_pending j' = q"
    using chosen(2) assms(1) by (simp_all add: activate_def jobs_inv_def)
  have "jobs_inv j'"
    by (rule left_queue_inv [OF assms(1) chosen(4)])
      (use act in \<open>auto intro!: exI [of _ "job\<lparr>cj_AssignedContainerID := ''packing-in-progress''\<rparr>"]\<close>)
  then show ?thesis using chosen act by (simp add: left_queue_def activate_def)
qed

definition demo_image :: Image where
  "demo_image = \<lparr>im_Alias = ''py'', im_ImageName = ''py:1'', im_Volumes = [], im_Args = [], im_NanoCPULimit = 2, im_MemoryBytesLimit = 4,
     im_Persistent = False, im_Ports = [], im_MaxJobs = 3, im_Timeout = 10\<rparr>"

definition demo_jobs :: Jobs where
  "demo_jobs = snd (AddJob (snd (AddJob CreateJobsQueue (NewJob ''a'' demo_image 1 None)))
     (NewJob ''b'' (demo_image\<lparr>im_Alias := ''go''\<rparr>) 1 None))"

lemma demo_jobs_inv: "jobs_inv demo_jobs"
  unfolding demo_jobs_def
  by (intro jobs_inv_AddJob jobs_inv_Create; (simp; fail)?)
    (simp_all add: queue_fresh_def CreateJobsQueue_def NewQueue_def AddJob_def NewJob_def Push_def)

text \<open>
  C21 (the choice of the next job). NextBestJob takes a pending job that fits the free CPU and memory and that no
  fitting pending job outranks in priority; among the highest priority it prefers an image with a free container. Exactly
  that job moves from pending to active; it takes none only if no pending job fits.
\<close>

theorem NextBestJob_best:
  assumes "jobs_inv j" and "NextBestJob j imgs c m = (r, j')"
  shows "jobs_inv j' \<and>
    (case r of
       None \<Rightarrow> pending_job j' = pending_job j \<and> active_job j' = active_job j \<and>
         (\<forall>k x. pending_job j k = Some x \<longrightarrow> im_NanoCPULimit (cj_Image x) > c \<or> im_MemoryBytesLimit (cj_Image x) > m)
     | Some job \<Rightarrow>
         pending_job j (cj_Id job) = Some job \<and> im_NanoCPULimit (cj_Image job) \<le> c \<and> im_MemoryBytesLimit (cj_Image job) \<le> m \<and>
         (\<forall>k x. pending_job j k = Some x \<and> im_NanoCPULimit (cj_Image x) \<le> c \<and> im_MemoryBytesLimit (cj_Image x) \<le> m \<longrightarrow>
            cj_Priority x \<le> cj_Priority job \<and>
            (cj_Priority x = cj_Priority job \<and> im_Alias (cj_Image x) \<in> set imgs \<longrightarrow> im_Alias (cj_Image job) \<in> set imgs)) \<and>
         pending_job j' = (pending_job j)(cj_Id job := None) \<and>
         active_job j' = (active_job j)(cj_Id job \<mapsto> job\<lparr>cj_AssignedContainerID := ''packing-in-progress''\<rparr>))"
  using NextBestJob_spec [OF assms] by (cases r) (auto simp: best_job_def fits_def not_le)

theorem NextBestJob_best_witness:
  "\<exists>job j'. NextBestJob demo_jobs [''go''] 2 4 = (Some job, j') \<and> jobs_inv j' \<and> cj_Id job = ''b'' \<and> pending_job j' ''b'' = None"
proof -
  obtain r j' where n: "NextBestJob demo_jobs [''go''] 2 4 = (r, j')" by fastforce
  have "map_option cj_Id (fst (NextBestJob demo_jobs [''go''] 2 4)) = Some ''b''" by code_simp
  then obtain job where "r = Some job" "cj_Id job = ''b''" using n by auto
  then show ?thesis using NextBestJob_best [OF demo_jobs_inv n] n by auto
qed

subsection \<open>No job is lost\<close>

text \<open>
  Runs of the queue with what went in and what came out: \<open>ins\<close> are the identifiers AddJob newly accepted, \<open>outs\<close> those
  removed or streamed to the scheduler. A job may be added when the queue's contract allows it: no stale entry of the
  same identifier, or the same job again.
\<close>

inductive jobs_run :: "Jobs \<Rightarrow> string multiset \<Rightarrow> string multiset \<Rightarrow> bool" where
  run_start: "jobs_run CreateJobsQueue {#} {#}"
| run_add: "jobs_run j ins outs \<Longrightarrow>
    active_job j (cj_Id job) \<noteq> None \<or> queue_fresh cjob_ac (jq_pending j) (cj_Id job) \<or> pending_job j (cj_Id job) = Some job \<Longrightarrow>
    AddJob j job = (e, j') \<Longrightarrow>
    jobs_run j' (if e = None \<and> pending_job j (cj_Id job) = None then add_mset (cj_Id job) ins else ins) outs"
| run_remove: "jobs_run j ins outs \<Longrightarrow> RemoveJob j k = (e, j') \<Longrightarrow>
    jobs_run j' ins (if e = None \<and> pending_job j k \<noteq> None then add_mset k outs else outs)"
| run_running: "jobs_run j ins outs \<Longrightarrow> MarkRunning j k con = (e, j') \<Longrightarrow> jobs_run j' ins outs"
| run_completed: "jobs_run j ins outs \<Longrightarrow> MarkCompleted j k payload b = Some (e, j') \<Longrightarrow> jobs_run j' ins outs"
| run_rollback: "jobs_run j ins outs \<Longrightarrow> RollbackJob j k = (e, j') \<Longrightarrow> jobs_run j' ins outs"
| run_next: "jobs_run j ins outs \<Longrightarrow> NextBestJob j imgs c m = (r, j') \<Longrightarrow> jobs_run j' ins outs"
| run_clear: "jobs_run j ins outs \<Longrightarrow> ClearAllJobs j = Some j' \<Longrightarrow> jobs_run j' ins outs"
| run_stream: "jobs_run j ins outs \<Longrightarrow> StreamCompleted j = Some (job, j') \<Longrightarrow> jobs_run j' ins (add_mset (cj_Id job) outs)"

definition held :: "Jobs \<Rightarrow> string multiset" where
  "held j = mset_set (dom (pending_job j)) + mset_set (dom (active_job j)) + mset (map cj_Id (jq_Completed j))"

lemma held_move:
  assumes "dom (pending_job j') = A'" "dom (active_job j') = B'" "dom (pending_job j) = A" "dom (active_job j) = B"
    "jq_Completed j' = jq_Completed j" "k \<in> A \<and> k \<notin> B \<and> A' = A - {k} \<and> B' = insert k B \<or> k \<in> B \<and> k \<notin> A \<and> A' = insert k A \<and> B' = B - {k}"
  shows "held j' = held j"
proof -
  have fin: "finite A" "finite B" using assms(3,4) finite_dom_map_of by blast+
  have "mset_set A' + mset_set B' = mset_set A + mset_set B"
    using assms(6) fin by (auto simp: mset_set.remove)
  then show ?thesis using assms by (simp add: held_def)
qed

lemma jobs_key: "jobs_inv j \<Longrightarrow> active_job j k = Some job \<Longrightarrow> cj_Id job = k"
  by (simp add: jobs_inv_def)

lemma held_AddJob:
  assumes "AddJob j job = (e, j')"
  shows "held j' = (if e = None \<and> pending_job j (cj_Id job) = None then add_mset (cj_Id job) (held j) else held j)"
  using assms by (cases "pending_job j (cj_Id job)")
    (auto simp: AddJob_def held_def insert_absorb domIff finite_dom_map_of split: if_splits)

lemma held_RemoveJob:
  assumes "RemoveJob j k = (e, j')"
  shows "held j = (if e = None \<and> pending_job j k \<noteq> None then add_mset k (held j') else held j')"
  using assms by (cases "pending_job j k")
    (auto simp: RemoveJob_def held_def domIff finite_dom_map_of mset_set.remove [of _ k] split: if_splits)

lemma held_MarkRunning: "MarkRunning j k con = (e, j') \<Longrightarrow> held j' = held j"
  by (auto simp: MarkRunning_def held_def insert_absorb domIff split: option.splits)

lemma held_MarkCompleted:
  assumes "jobs_inv j" "MarkCompleted j k p b = Some (e, j')"
  shows "held j' = held j"
  using assms
  by (cases "active_job j k")
    (auto simp: MarkCompleted_def mark_take_def send_completed_def held_def domIff finite_dom_map_of jobs_key mset_set.remove [of _ k]
      split: if_splits)

lemma held_RollbackJob:
  assumes "jobs_inv j" "RollbackJob j k = (e, j')"
  shows "held j' = held j"
proof (cases "active_job j k")
  case None
  then show ?thesis using assms by (simp add: RollbackJob_def)
next
  case (Some job)
  have "k \<in> dom (active_job j) \<and> k \<notin> dom (pending_job j)" using Some active_not_pending [OF assms(1) Some] by auto
  then show ?thesis
    using assms Some jobs_key [OF assms(1) Some]
    by (intro held_move [OF refl refl refl refl, of j' j k]) (auto simp: RollbackJob_def split: if_splits)
qed

lemma held_NextBestJob:
  assumes "jobs_inv j" "NextBestJob j imgs c m = (r, j')"
  shows "held j' = held j"
proof (cases r)
  case None
  then show ?thesis using NextBestJob_spec [OF assms] by (simp add: held_def)
next
  case (Some job)
  then have s: "pending_job j (cj_Id job) = Some job" "pending_job j' = (pending_job j)(cj_Id job := None)" "jq_Completed j' = jq_Completed j"
    "active_job j' = (active_job j)(cj_Id job \<mapsto> job\<lparr>cj_AssignedContainerID := ''packing-in-progress''\<rparr>)"
    using NextBestJob_spec [OF assms] by (simp_all add: best_job_def)
  then have "cj_Id job \<in> dom (pending_job j) \<and> cj_Id job \<notin> dom (active_job j)"
    using active_not_pending [OF assms(1), of "cj_Id job"] by fastforce
  then show ?thesis using s by (intro held_move [OF refl refl refl refl, of j' j "cj_Id job"]) auto
qed

lemma mset_values:
  assumes "gm_wf m" "\<And>k v. map_of m k = Some v \<Longrightarrow> f v = k"
  shows "mset (map f (map snd m)) = mset_set (dom (map_of m))"
proof -
  have "map f (map snd m) = map fst m"
    using assms by (auto intro!: assms(2) map_of_is_SomeI)
  then have "mset (map f (map snd m)) = mset (map fst m)" by (rule arg_cong)
  also have "\<dots> = mset_set (set (map fst m))" by (rule mset_set_set [OF assms(1), symmetric])
  finally show ?thesis by (simp add: dom_map_of_conv_image_fst)
qed

lemma held_ClearAllJobs:
  assumes inv: "jobs_inv j" and c: "ClearAllJobs j = Some j'"
  shows "held j' = held j"
proof -
  have "mset (map cj_Id (Items (jq_pending j))) = mset_set (dom (pending_job j))" unfolding Items_def
    by (rule mset_values) (use inv in \<open>auto simp: jobs_inv_def queue_inv_def queue_weak_def dest!: map_of_SomeD\<close>)
  moreover have "mset (map cj_Id (Jobs_ActiveJobs j)) = mset_set (dom (active_job j))" unfolding Jobs_ActiveJobs_def
    by (rule mset_values) (use inv in \<open>simp_all add: jobs_inv_def\<close>)
  ultimately show ?thesis
    using c by (auto simp: ClearAllJobs_def Let_def send_completed_def held_def Clear_def split: if_splits)
qed

lemma held_StreamCompleted: "StreamCompleted j = Some (job, j') \<Longrightarrow> held j = add_mset (cj_Id job) (held j')"
  by (auto simp: StreamCompleted_def held_def split: list.splits)

lemma jobs_inv_MarkCompleted: "jobs_inv j \<Longrightarrow> MarkCompleted j k p b = Some (e, j') \<Longrightarrow> jobs_inv j'"
  using jobs_inv_mark_take [of j k p b] by (auto simp: MarkCompleted_def intro: jobs_inv_send split: prod.splits option.splits)

lemma jobs_inv_StreamCompleted: "jobs_inv j \<Longrightarrow> StreamCompleted j = Some (job, j') \<Longrightarrow> jobs_inv j'"
  by (auto simp: StreamCompleted_def jobs_inv_def split: list.splits)

lemma jobs_run_inv: "jobs_run j ins outs \<Longrightarrow> jobs_inv j \<and> ins = outs + held j"
proof (induction rule: jobs_run.induct)
  case run_start
  show ?case using jobs_inv_Create by (simp add: held_def CreateJobsQueue_def NewQueue_def)
next
  case (run_add j ins outs job e j')
  then show ?case using jobs_inv_AddJob [of j job] held_AddJob [of j job e j'] by simp
next
  case (run_remove j ins outs k e j')
  then show ?case using jobs_inv_RemoveJob [of j k] held_RemoveJob [of j k e j'] by (simp split: if_splits)
next
  case (run_running j ins outs k con e j')
  then show ?case using jobs_inv_MarkRunning [of j k con] held_MarkRunning [of j k con e j'] by simp
next
  case (run_completed j ins outs k payload b e j')
  then show ?case using jobs_inv_MarkCompleted held_MarkCompleted by metis
next
  case (run_rollback j ins outs k e j')
  then show ?case using jobs_inv_RollbackJob [of j k] held_RollbackJob [of j k e j'] by simp
next
  case (run_next j ins outs imgs c m r j')
  then show ?case using NextBestJob_spec [of j imgs c m r j'] held_NextBestJob [of j imgs c m r j'] by simp
next
  case (run_clear j ins outs j')
  then show ?case using jobs_inv_ClearAllJobs held_ClearAllJobs by metis
next
  case (run_stream j ins outs job j')
  then show ?case using jobs_inv_StreamCompleted held_StreamCompleted [of j job j'] by auto
qed

text \<open>What went in is what came out and what is held.\<close>

lemma queue_jobs_conserved:
  assumes "jobs_run j ins outs"
  shows "ins = outs + mset_set (dom (pending_job j)) + mset_set (dom (active_job j)) + mset (map cj_Id (jq_Completed j)) \<and>
    dom (pending_job j) \<inter> dom (active_job j) = {}"
proof -
  note inv = jobs_run_inv [OF assms]
  then have "dom (pending_job j) \<inter> dom (active_job j) = {}" using active_not_pending [of j] by fastforce
  then show ?thesis using inv by (simp add: held_def add.assoc)
qed

subsection \<open>The interface core.JobQueue\<close>

text \<open>
  What the packer and the health rules rely on: the pending and the active jobs by identifier, the completed ones in
  order, and how the operations of core.JobQueue move a job between the three.
\<close>

locale job_queue =
  fixes inv :: "'q \<Rightarrow> bool"
    and pending active :: "'q \<Rightarrow> string \<Rightarrow> ClusterJob option"
    and completed :: "'q \<Rightarrow> ClusterJob list"
    and open_for :: "'q \<Rightarrow> bool"
    and next_best :: "'q \<Rightarrow> string list \<Rightarrow> int \<Rightarrow> int \<Rightarrow> ClusterJob option \<times> 'q"
    and mark_running :: "'q \<Rightarrow> string \<Rightarrow> string \<Rightarrow> 'x option \<times> 'q"
    and mark_completed :: "'q \<Rightarrow> string \<Rightarrow> bytes option \<Rightarrow> bool \<Rightarrow> ('x option \<times> 'q) option"
    and rollback :: "'q \<Rightarrow> string \<Rightarrow> 'x option \<times> 'q"
  assumes active_key: "inv q \<Longrightarrow> active q k = Some job \<Longrightarrow> cj_Id job = k \<and> pending q k = None"
    and next_some: "inv q \<Longrightarrow> next_best q imgs c m = (Some job, q') \<Longrightarrow>
      inv q' \<and> open_for q' = open_for q \<and> completed q' = completed q \<and> pending q (cj_Id job) = Some job \<and>
      pending q' = (pending q)(cj_Id job := None) \<and>
      active q' = (active q)(cj_Id job \<mapsto> job\<lparr>cj_AssignedContainerID := ''packing-in-progress''\<rparr>)"
    and running_active: "inv q \<Longrightarrow> active q k = Some job \<Longrightarrow> mark_running q k con = (e, q') \<Longrightarrow>
      e = None \<and> inv q' \<and> open_for q' = open_for q \<and> completed q' = completed q \<and> pending q' = pending q \<and>
      active q' = (active q)(k \<mapsto> job\<lparr>cj_AssignedContainerID := con\<rparr>)"
    and rollback_active: "inv q \<Longrightarrow> active q k = Some job \<Longrightarrow> rollback q k = (e, q') \<Longrightarrow>
      e = None \<and> inv q' \<and> open_for q' = open_for q \<and> completed q' = completed q \<and>
      pending q' = (pending q)(k \<mapsto> job\<lparr>cj_AssignedContainerID := ''''\<rparr>) \<and> active q' = (active q)(k := None)"
    and completed_active: "inv q \<Longrightarrow> active q k = Some job \<Longrightarrow> open_for q \<Longrightarrow>
      \<exists>q'. mark_completed q k payload ok = Some (None, q') \<and> inv q' \<and> open_for q' \<and> pending q' = pending q \<and>
        active q' = (active q)(k := None) \<and>
        completed q' = completed q @ [job\<lparr>cj_Payload := payload, cj_Succeeded := ok\<rparr>]"
begin

lemma next_not_active:
  assumes "inv q" "next_best q imgs c m = (Some job, q')"
  shows "active q (cj_Id job) = None"
  using active_key [OF assms(1), of "cj_Id job"] next_some [OF assms] by (cases "active q (cj_Id job)") auto

text \<open>Two calls in a row choose different jobs, also when the first is marked running in between.\<close>

lemma next_twice_distinct:
  assumes "inv q" "next_best q imgs c m = (Some job, q1)" "mark_running q1 (cj_Id job) con = (e, q2)"
    and "next_best q2 imgs' c' m' = (Some job', q3)"
  shows "cj_Id job \<noteq> cj_Id job'"
proof -
  note n = next_some [OF assms(1,2)]
  have r: "inv q2" "pending q2 = pending q1" using running_active [OF _ _ assms(3)] n by auto
  have "pending q2 (cj_Id job') = Some job'" using next_some [OF r(1) assms(4)] by simp
  then show ?thesis using n r(2) by auto
qed

text \<open>A job whose placement fails: the queue is as it was, up to the container of that job.\<close>

lemma place_rollback:
  assumes inv: "inv q" and n: "next_best q imgs c m = (Some job, q1)" and m: "mark_running q1 (cj_Id job) con = (e1, q2)"
    and r: "rollback q2 (cj_Id job) = (e2, q3)"
  shows "inv q3 \<and> e2 = None \<and> active q3 = active q \<and> completed q3 = completed q \<and>
    pending q3 = (pending q)(cj_Id job \<mapsto> job\<lparr>cj_AssignedContainerID := ''''\<rparr>)"
proof -
  note n1 = next_some [OF inv n] next_not_active [OF inv n]
  have q2: "inv q2" "pending q2 = pending q1" "completed q2 = completed q1"
    "active q2 = (active q1)(cj_Id job \<mapsto> job\<lparr>cj_AssignedContainerID := con\<rparr>)"
    using running_active [OF _ _ m] n1 by auto
  then show ?thesis using rollback_active [OF q2(1) _ r] n1 by (auto simp: fun_upd_idem_iff)
qed

text \<open>A job that is placed and gets its result: it alone has moved, from pending to the end of the completed jobs.\<close>

lemma place_complete:
  assumes inv: "inv q" and n: "next_best q imgs c m = (Some job, q1)" and m: "mark_running q1 (cj_Id job) con = (e1, q2)"
    and m2: "mark_running q2 (cj_Id job) con = (e2, q3)" and op: "open_for q"
  shows "e1 = None \<and> e2 = None \<and> inv q3 \<and> pending q3 (cj_Id job) = None \<and>
    active q3 (cj_Id job) = Some (job\<lparr>cj_AssignedContainerID := con\<rparr>) \<and>
    (\<exists>q4. mark_completed q3 (cj_Id job) payload ok = Some (None, q4) \<and> inv q4 \<and>
      pending q4 = (pending q)(cj_Id job := None) \<and> active q4 = active q \<and>
      completed q4 = completed q @ [job\<lparr>cj_AssignedContainerID := con, cj_Payload := payload, cj_Succeeded := ok\<rparr>])"
proof -
  note n1 = next_some [OF inv n] next_not_active [OF inv n]
  have q2: "e1 = None" "inv q2" "pending q2 = pending q1" "completed q2 = completed q1" "open_for q2"
    "active q2 = (active q1)(cj_Id job \<mapsto> job\<lparr>cj_AssignedContainerID := con\<rparr>)"
    using running_active [OF _ _ m] n1 op by auto
  have q3: "e2 = None" "inv q3" "pending q3 = pending q1" "completed q3 = completed q1" "open_for q3"
    "active q3 = (active q1)(cj_Id job \<mapsto> job\<lparr>cj_AssignedContainerID := con\<rparr>)"
    using running_active [OF q2(2) _ m2] q2 by auto
  have "active q3 (cj_Id job) = Some (job\<lparr>cj_AssignedContainerID := con\<rparr>)" using q3(6) by simp
  from completed_active [OF q3(2) this q3(5), of payload ok]
  obtain q4 where "mark_completed q3 (cj_Id job) payload ok = Some (None, q4)" "inv q4" "pending q4 = pending q3"
    "active q4 = (active q3)(cj_Id job := None)"
    "completed q4 = completed q3 @ [job\<lparr>cj_AssignedContainerID := con, cj_Payload := payload, cj_Succeeded := ok\<rparr>]"
    by auto
  then show ?thesis using q2(1) q3 n1 by (auto simp: fun_upd_idem_iff)
qed

end

interpretation jq: job_queue jobs_inv "\<lambda>j. pending_job j" "\<lambda>j. active_job j" jq_Completed "\<lambda>j. \<not> jq_closed j"
  NextBestJob MarkRunning MarkCompleted RollbackJob
proof (unfold_locales, goal_cases)
  case (1 j k job)
  then show ?case using jobs_key active_not_pending by blast
next
  case (2 j imgs c m job j')
  then show ?case using NextBestJob_spec [OF 2] by (simp add: best_job_def)
next
  case (3 j k job con e j')
  then show ?case using jobs_inv_MarkRunning [OF 3(1), of k con] by (auto simp: MarkRunning_def)
next
  case (4 j k job e j')
  then show ?case using jobs_inv_RollbackJob [OF 4(1), of k] jobs_key [OF 4(1,2)] by (auto simp: RollbackJob_def pq.push_lookup)
next
  case (5 j k job payload ok)
  then show ?case using jobs_inv_mark_take [OF 5(1), of k payload ok]
    by (auto simp: MarkCompleted_def mark_take_def send_completed_def jobs_inv_def)
qed

end
