(* ===== verification/FileHandler.thy ===== *)
theory FileHandler
  imports LogStore
begin

section \<open>Files and the container logs (internal/filehandler)\<close>

text \<open>
  file_handler.go and json_handler.go over the directory of the log store theory: a file is its name, a content is bytes, and the
  environment says which calls fail. logger.go: the writer of the container logs, with the channel of its entries
  (buffer and waiting senders together) and the map of its open files.
\<close>

datatype file_error = EmptyName | StatFailed | OpenFailed | ReadFailed | WriteFailed | RemoveFailed | JSONFailed

record File =
  fl_Name :: string
  fl_Permissions :: int

definition SetUpFile :: "disk_env \<Rightarrow> disk \<Rightarrow> string \<Rightarrow> int \<Rightarrow> (file_error + File) \<times> disk" where
  "SetUpFile env d fileName permissions =
     (let f = \<lparr>fl_Name = fileName, fl_Permissions = permissions\<rparr> in
      if fileName = '''' then (Inl EmptyName, d)
      else if \<not> de_stat env then (Inl StatFailed, d)
      else if map_of d fileName = None
      then (if \<not> de_open env 0 then (Inl OpenFailed, d) else (Inr f, AList.update fileName [] d))
      else (Inr f, d))"

definition ReadLines :: "disk_env \<Rightarrow> disk \<Rightarrow> File \<Rightarrow> file_error + bytes" where
  "ReadLines env d f =
     (case map_of d (fl_Name f) of
        None \<Rightarrow> Inl ReadFailed
      | Some data \<Rightarrow> if de_open env 0 then Inr data else Inl ReadFailed)"

text \<open>The loop of WriteLines and AppendLines; the \<open>k\<close>-th write may fail after a prefix.\<close>

fun write_lines :: "disk_env \<Rightarrow> nat \<Rightarrow> string \<Rightarrow> bytes list \<Rightarrow> disk \<Rightarrow> file_error option \<times> disk" where
  "write_lines env k f [] d = (None, d)"
| "write_lines env k f (line # lines) d =
     (case de_write env k of
        Some n \<Rightarrow> (Some WriteFailed, append_file f (take n (line @ [10])) d)
      | None \<Rightarrow> write_lines env (Suc k) f lines (append_file f (line @ [10]) d))"

definition WriteLines :: "disk_env \<Rightarrow> disk \<Rightarrow> File \<Rightarrow> bytes list \<Rightarrow> file_error option \<times> disk" where
  "WriteLines env d f lines =
     (if map_of d (fl_Name f) = None \<or> \<not> de_open env 0 then (Some OpenFailed, d)
      else write_lines env 0 (fl_Name f) lines (AList.update (fl_Name f) [] d))"

definition AppendLines :: "disk_env \<Rightarrow> disk \<Rightarrow> File \<Rightarrow> bytes list \<Rightarrow> file_error option \<times> disk" where
  "AppendLines env d f lines =
     (if map_of d (fl_Name f) = None \<or> \<not> de_open env 0 then (Some OpenFailed, d)
      else write_lines env 0 (fl_Name f) lines d)"

text \<open>\<open>removed\<close>: os.Remove succeeds on a file that exists.\<close>

definition File_Delete :: "bool \<Rightarrow> disk \<Rightarrow> File \<Rightarrow> file_error option \<times> disk \<times> File" where
  "File_Delete removed d f =
     (if map_of d (fl_Name f) = None \<or> \<not> removed then (Some RemoveFailed, d, f)
      else (None, AList.delete (fl_Name f) d, f\<lparr>fl_Name := '''', fl_Permissions := 0\<rparr>))"

text \<open>\<open>unmarshal\<close> and \<open>marshal\<close> are those of encoding/json for the type of the argument.\<close>

definition ReadJSON :: "(bytes \<Rightarrow> 'a option) \<Rightarrow> disk_env \<Rightarrow> disk \<Rightarrow> File \<Rightarrow> file_error + 'a" where
  "ReadJSON unmarshal env d f =
     (case ReadLines env d f of
        Inl err \<Rightarrow> Inl err
      | Inr data \<Rightarrow> (case unmarshal data of None \<Rightarrow> Inl JSONFailed | Some x \<Rightarrow> Inr x))"

definition WriteJSON :: "('a \<Rightarrow> bytes option) \<Rightarrow> disk_env \<Rightarrow> disk \<Rightarrow> File \<Rightarrow> 'a \<Rightarrow> file_error option \<times> disk" where
  "WriteJSON marshal env d f x =
     (case marshal x of
        None \<Rightarrow> (Some JSONFailed, d)
      | Some data \<Rightarrow>
          if map_of d (fl_Name f) = None \<or> \<not> de_open env 0 then (Some OpenFailed, d)
          else case de_write env 0 of
            Some n \<Rightarrow> (Some WriteFailed, AList.update (fl_Name f) (take n data) d)
          | None \<Rightarrow> (None, AList.update (fl_Name f) data d))"

subsection \<open>Groups of files (files_manager.go)\<close>

text \<open>The map holds pointers, so the files are in a heap and the map has their addresses.\<close>

type_synonym FileCluster = "(string, nat) gomap"

definition ContainsFile :: "FileCluster \<Rightarrow> string \<Rightarrow> bool" where
  "ContainsFile files fileName \<longleftrightarrow> fileName \<noteq> '''' \<and> map_of files fileName \<noteq> None"

definition GetFile :: "FileCluster \<Rightarrow> string \<Rightarrow> nat option" where
  "GetFile files fileName = (if ContainsFile files fileName then map_of files fileName else None)"

definition AddFile :: "(nat \<Rightarrow> File) \<Rightarrow> FileCluster \<Rightarrow> nat \<Rightarrow> FileCluster" where
  "AddFile heap files a =
     (if \<not> ContainsFile files (fl_Name (heap a)) then AList.update (fl_Name (heap a)) a files else files)"

definition RemoveFile :: "FileCluster \<Rightarrow> string \<Rightarrow> FileCluster" where
  "RemoveFile files fileName = (if ContainsFile files fileName then AList.delete fileName files else files)"

subsection \<open>Paths\<close>

text \<open>\<^verbatim>\<open>path.Join\<close> of two elements, with \<^verbatim>\<open>path.Clean\<close>: empty elements and dots are dropped, a double dot removes its parent.\<close>

fun split_path :: "string \<Rightarrow> string \<Rightarrow> string list" where
  "split_path cur [] = [cur]"
| "split_path cur (c # cs) = (if c = CHR ''/'' then cur # split_path '''' cs else split_path (cur @ [c]) cs)"

fun clean_elems :: "bool \<Rightarrow> string list \<Rightarrow> string list \<Rightarrow> string list" where
  "clean_elems rooted out [] = rev out"
| "clean_elems rooted out (e # es) =
     (if e = '''' \<or> e = ''.'' then clean_elems rooted out es
      else if e = ''..''
      then (case out of
              parent # rest \<Rightarrow> if parent = ''..'' then clean_elems rooted (e # out) es else clean_elems rooted rest es
            | [] \<Rightarrow> if rooted then clean_elems rooted out es else clean_elems rooted [e] es)
      else clean_elems rooted (e # out) es)"

fun join_elems :: "string list \<Rightarrow> string" where
  "join_elems [] = ''''"
| "join_elems [e] = e"
| "join_elems (e # es) = e @ ''/'' @ join_elems es"

definition path_Clean :: "string \<Rightarrow> string" where
  "path_Clean p =
     (let rooted = (take 1 p = ''/'');
          r = (if rooted then ''/'' else '''') @ join_elems (clean_elems rooted [] (split_path '''' p))
      in if r = '''' then ''.'' else r)"

definition path_Join :: "string \<Rightarrow> string \<Rightarrow> string" where
  "path_Join a b =
     (if a = '''' \<and> b = '''' then '''' else if a = '''' then path_Clean b else if b = '''' then path_Clean a
      else path_Clean (a @ ''/'' @ b))"

subsection \<open>The log writer (logger.go)\<close>

text \<open>What the map of open files holds: an open file of a path, a closed one, or the nil a failed open leaves.\<close>

datatype handle = Opened string | HandleClosed | NilFile

record Log =
  lg_FileName :: string
  lg_Entries :: "bytes list"

record LogWriter =
  lw_folderPath :: string
  lw_permissions :: int
  lw_dataQueue :: "Log list"
  lw_closed :: bool
  lw_files :: "(string, handle) gomap"
  lw_disk :: disk

definition NewLogWriter :: "bool \<Rightarrow> disk \<Rightarrow> string \<Rightarrow> int \<Rightarrow> LogWriter option" where
  "NewLogWriter made d logFolderPath permissions =
     (if \<not> made then None
      else Some \<lparr>lw_folderPath = logFolderPath, lw_permissions = permissions, lw_dataQueue = [], lw_closed = False,
        lw_files = [], lw_disk = d\<rparr>)"

text \<open>Add: \<open>None\<close> is the panic of a send on the closed channel. When the file cannot be opened the entry is skipped.\<close>

definition LogWriter_Add :: "bool \<Rightarrow> bytes list \<Rightarrow> string \<Rightarrow> LogWriter \<Rightarrow> LogWriter option" where
  "LogWriter_Add opens entry filename w =
     (if map_of (lw_files w) filename = None \<and> \<not> opens then Some w
      else
        let filePath = path_Join (lw_folderPath w) filename;
            w1 = (if map_of (lw_files w) filename = None
                  then w\<lparr>lw_files := AList.update filename (Opened filePath) (lw_files w), lw_disk := append_file filePath [] (lw_disk w)\<rparr>
                  else w)
        in if lw_closed w1 then None
           else Some (w1\<lparr>lw_dataQueue := lw_dataQueue w1 @ [\<lparr>lg_FileName = filename, lg_Entries = entry\<rparr>]\<rparr>))"

definition FreeFile :: "string \<Rightarrow> LogWriter \<Rightarrow> LogWriter" where
  "FreeFile filename w =
     (if map_of (lw_files w) filename = None then w else w\<lparr>lw_files := AList.delete filename (lw_files w)\<rparr>)"

definition LogWriter_Close :: "LogWriter \<Rightarrow> LogWriter option" where
  "LogWriter_Close w =
     (if lw_closed w then None
      else Some (w\<lparr>lw_closed := True,
        lw_files := map (\<lambda>(k, h). (k, case h of Opened _ \<Rightarrow> HandleClosed | _ \<Rightarrow> h)) (lw_files w)\<rparr>))"

text \<open>
  AsyncWrite: one entry, \<open>None\<close> when none waits. \<open>opens\<close> says whether a missing file can be opened, \<open>wr\<close> how much of the
  entry reached the file (\<open>None\<close>: all of it); writing to a closed or nil file is an error that is only logged.
\<close>

definition write_log :: "bool \<Rightarrow> nat option \<Rightarrow> Log \<Rightarrow> LogWriter \<Rightarrow> LogWriter" where
  "write_log opens wr val w =
     (let filePath = lw_folderPath w @ lg_FileName val;
          w1 = (if map_of (lw_files w) (lg_FileName val) = None
                then w\<lparr>lw_files := AList.update (lg_FileName val) (if opens then Opened filePath else NilFile) (lw_files w),
                       lw_disk := (if opens then append_file filePath [] (lw_disk w) else lw_disk w)\<rparr>
                else w);
          data = concat (map (\<lambda>line. line @ [10]) (lg_Entries val))
      in case map_of (lw_files w1) (lg_FileName val) of
           Some (Opened p) \<Rightarrow> w1\<lparr>lw_disk := append_file p (case wr of None \<Rightarrow> data | Some n \<Rightarrow> take n data) (lw_disk w1)\<rparr>
         | _ \<Rightarrow> w1)"

definition AsyncWrite :: "bool \<Rightarrow> nat option \<Rightarrow> LogWriter \<Rightarrow> LogWriter option" where
  "AsyncWrite opens wr w =
     (case lw_dataQueue w of [] \<Rightarrow> None | val # rest \<Rightarrow> Some (write_log opens wr val (w\<lparr>lw_dataQueue := rest\<rparr>)))"

subsection \<open>Properties of files\<close>

lemma write_lines_ok:
  "(\<And>i. de_write env i = None) \<Longrightarrow> write_lines env k f lines d = (r, d') \<Longrightarrow>
     r = None \<and> content d' g = (if g = f then content d f @ concat (map (\<lambda>l. l @ [10]) lines) else content d g)"
  by (induction lines arbitrary: k d) auto

text \<open>Whatever fails, AppendLines keeps what was in the file, and no other file changes.\<close>

lemma write_lines_prefix:
  "write_lines env k f lines d = (r, d') \<Longrightarrow>
     (\<exists>rest. content d' f = content d f @ rest) \<and> (\<forall>g. g \<noteq> f \<longrightarrow> content d' g = content d g)"
proof (induction lines arbitrary: k d)
  case (Cons line lines)
  show ?case
  proof (cases "de_write env k")
    case None
    then show ?thesis using Cons.IH [of "Suc k" "append_file f (line @ [10]) d"] Cons.prems by auto
  next
    case (Some n)
    then show ?thesis using Cons.prems by auto
  qed
qed simp

lemma AppendLines_keeps:
  "AppendLines env d f lines = (r, d') \<Longrightarrow>
     (\<exists>rest. content d' (fl_Name f) = content d (fl_Name f) @ rest) \<and> (\<forall>g. g \<noteq> fl_Name f \<longrightarrow> content d' g = content d g)"
  using write_lines_prefix [of env 0 "fl_Name f" lines d] by (auto simp: AppendLines_def split: if_splits)

lemma write_lines_files: "write_lines env k f lines d = (r, d') \<Longrightarrow> x \<in> fst ` set d \<Longrightarrow> x \<in> fst ` set d'"
proof (induction lines arbitrary: k d)
  case (Cons line lines)
  have sub: "x \<in> fst ` set (append_file f bs d)" for bs using Cons.prems(2) by (simp add: append_file_def dom_update)
  show ?case
  proof (cases "de_write env k")
    case None
    then show ?thesis using Cons.IH [OF _ sub] Cons.prems(1) by simp
  next
    case (Some n)
    then have "d' = append_file f (take n (line @ [10])) d" using Cons.prems(1) by simp
    then show ?thesis using sub by (simp only:)
  qed
qed simp

lemma WriteLines_ReadLines:
  assumes "WriteLines disk_ok d f lines = (None, d')"
  shows "ReadLines disk_ok d' f = Inr (concat (map (\<lambda>l. l @ [10]) lines))"
proof -
  from assms have w: "write_lines disk_ok 0 (fl_Name f) lines (AList.update (fl_Name f) [] d) = (None, d')"
    by (simp add: WriteLines_def split: if_splits)
  have "fl_Name f \<in> fst ` set d'" by (rule write_lines_files [OF w]) (simp add: dom_update)
  then obtain data where "map_of d' (fl_Name f) = Some data" by (metis map_of_eq_None_iff not_None_eq)
  moreover have "content d' (fl_Name f) = concat (map (\<lambda>l. l @ [10]) lines)"
    using write_lines_ok [OF _ w, of "fl_Name f"] by (simp add: disk_ok_def content_def)
  ultimately show ?thesis by (simp add: ReadLines_def content_def disk_ok_def)
qed

text \<open>JSON written to a file is read back, if the decoder undoes the encoder.\<close>

lemma WriteJSON_ReadJSON:
  assumes "WriteJSON marshal disk_ok d f x = (None, d')" "marshal x = Some data" "unmarshal data = Some x"
  shows "ReadJSON unmarshal disk_ok d' f = Inr x"
  using assms by (auto simp: WriteJSON_def ReadJSON_def ReadLines_def disk_ok_def split: if_splits)

lemma AddFile_GetFile:
  "fl_Name (heap a) \<noteq> '''' \<Longrightarrow> GetFile files (fl_Name (heap a)) = None \<Longrightarrow>
     GetFile (AddFile heap files a) (fl_Name (heap a)) = Some a \<and>
     GetFile (RemoveFile (AddFile heap files a) (fl_Name (heap a))) (fl_Name (heap a)) = None"
  by (auto simp: GetFile_def AddFile_def RemoveFile_def ContainsFile_def split: if_splits)

subsection \<open>Properties of the log writer\<close>

text \<open>Entries of open files are written in the order in which they were added, each to its own file.\<close>

lemma write_log_open:
  assumes "map_of (lw_files w) (lg_FileName val) = Some (Opened p)"
  shows "write_log opens None val w = w\<lparr>lw_disk := append_file p (concat (map (\<lambda>line. line @ [10]) (lg_Entries val))) (lw_disk w)\<rparr>"
  using assms by (simp add: write_log_def Let_def)

fun drain :: "nat \<Rightarrow> LogWriter \<Rightarrow> LogWriter" where
  "drain 0 w = w"
| "drain (Suc n) w = (case AsyncWrite True None w of None \<Rightarrow> w | Some w1 \<Rightarrow> drain n w1)"

lemma log_writer_fifo:
  assumes "\<forall>val\<in>set (lw_dataQueue w). map_of (lw_files w) (lg_FileName val) = Some (Opened (path (lg_FileName val)))"
    and "inj path"
  shows "lw_dataQueue (drain (length (lw_dataQueue w)) w) = [] \<and>
    content (lw_disk (drain (length (lw_dataQueue w)) w)) (path name) = content (lw_disk w) (path name) @
      concat (map (\<lambda>line. line @ [10]) (concat (map lg_Entries (filter (\<lambda>val. lg_FileName val = name) (lw_dataQueue w)))))"
  using assms(1)
proof (induction "lw_dataQueue w" arbitrary: w)
  case (Cons val rest)
  note q = Cons.hyps(2) [symmetric]
  let ?w = "w\<lparr>lw_dataQueue := rest,
      lw_disk := append_file (path (lg_FileName val)) (concat (map (\<lambda>line. line @ [10]) (lg_Entries val))) (lw_disk w)\<rparr>"
  have "write_log True None val (w\<lparr>lw_dataQueue := rest\<rparr>) = ?w"
    using Cons.prems q by (subst write_log_open) auto
  then have step: "AsyncWrite True None w = Some ?w" by (simp add: AsyncWrite_def q)
  have "\<forall>val\<in>set (lw_dataQueue ?w). map_of (lw_files ?w) (lg_FileName val) = Some (Opened (path (lg_FileName val)))"
    using Cons.prems q by simp
  note ih = Cons.hyps(1) [OF _ this]
  have "path (lg_FileName val) = path name \<longleftrightarrow> lg_FileName val = name" using assms(2) by (auto dest: injD)
  then show ?case using ih step by (auto simp: q)
qed simp

text \<open>
  AsyncWrite glues folder and file name together without a slash: entries that are still queued when their file is freed
  (streamContainerLogs frees it when the container ends) land in another file.
\<close>

lemma freed_lines_misplaced:
  assumes "lw_dataQueue w = [val]" and "path_Join (lw_folderPath w) (lg_FileName val) \<noteq> lw_folderPath w @ lg_FileName val"
  shows "\<exists>w'. AsyncWrite True None (FreeFile (lg_FileName val) w) = Some w' \<and>
    content (lw_disk w') (path_Join (lw_folderPath w) (lg_FileName val)) = content (lw_disk w) (path_Join (lw_folderPath w) (lg_FileName val)) \<and>
    content (lw_disk w') (lw_folderPath w @ lg_FileName val) =
      content (lw_disk w) (lw_folderPath w @ lg_FileName val) @ concat (map (\<lambda>line. line @ [10]) (lg_Entries val))"
  using assms by (auto simp: AsyncWrite_def write_log_def FreeFile_def Let_def)

lemma freed_lines_example:
  "path_Join ''logs/containers'' ''c1.log'' = ''logs/containers/c1.log''"
  "path_Join ''logs/containers'' ''c1.log'' \<noteq> ''logs/containers'' @ ''c1.log''"
  by code_simp+

text \<open>Close closes the files before AsyncWrite has written what is queued: those entries are lost.\<close>

lemma closed_lines_lost:
  assumes "lw_dataQueue w = val # rest" "map_of (lw_files w) (lg_FileName val) = Some (Opened p)" "LogWriter_Close w = Some w1"
  shows "\<exists>w2. AsyncWrite opens wr w1 = Some w2 \<and> lw_disk w2 = lw_disk w \<and> lw_dataQueue w2 = rest"
proof -
  have "map_of (map (\<lambda>(k, h). (k, f h)) m) k = map_option f (map_of m k)" for m :: "(string, handle) gomap" and f :: "handle \<Rightarrow> handle" and k
    by (induction m) auto
  then show ?thesis using assms by (auto simp: LogWriter_Close_def AsyncWrite_def write_log_def Let_def split: if_splits)
qed

end
