(* ===== verification/ClusterContainer.thy ===== *)
theory ClusterContainer
  imports ClusterJobs FileHandler
begin

section \<open>Containers (internal/cluster/container: container.go, container_state.go, monitor.go)\<close>

text \<open>
  One container of a cluster node. Docker and the file system are outside the program: what ContainerCreate, ContainerInspect and the
  other calls return is an argument of the operation. A panic is the result \<open>None\<close>. The channel JobsResultsChan holds one
  result; a sender that finds it full waits, so buffer and waiting senders together are the list \<open>ct_results\<close>.
\<close>

datatype ContainerState = CReserved | CRunning | CFree

record Container =
  ct_id :: string
  ct_nanoCPULimit :: int
  ct_memBytesLimit :: int
  ct_localPort :: string
  ct_image :: Image
  ct_dockerID :: string
  ct_payloadLocation :: string
  ct_args :: "string list"
  ct_results :: "bytes list"
  ct_resultsClosed :: bool
  ct_totalJobs :: int
  ct_state :: ContainerState
  ct_lastStateChange :: time
  ct_assignedJobID :: string
  ct_volumes :: "Volume list"

datatype container_error =
    AlreadyCreated | NotCreated | Occupied | PathError | DirError | CreateError | StartError | StopError | BadTimeout
  | RunError | LogError | RemoveError | FolderError | PayloadError | InspectError | NoHealthcheck | UnexpectedHealth | WaitTimeout | ResultError | StatsError | DecodeError

definition normalizeHTTPPort :: "string \<Rightarrow> string" where
  "normalizeHTTPPort port =
     (if port = '''' then '''' else if CHR '':'' \<in> set port then port else ''localhost:'' @ port)"

definition NewContainer :: "string \<Rightarrow> time \<Rightarrow> Image \<Rightarrow> string \<Rightarrow> string \<Rightarrow> Container" where
  "NewContainer uuid now img payloadVolumeLocation port =
     \<lparr>ct_id = NewContainerID uuid, ct_nanoCPULimit = im_NanoCPULimit img, ct_memBytesLimit = im_MemoryBytesLimit img,
      ct_localPort = normalizeHTTPPort port, ct_image = img, ct_dockerID = '''', ct_payloadLocation = payloadVolumeLocation,
      ct_args = [], ct_results = [], ct_resultsClosed = False, ct_totalJobs = 0, ct_state = CReserved,
      ct_lastStateChange = now, ct_assignedJobID = '''', ct_volumes = im_Volumes img\<rparr>"

subsection \<open>Life cycle\<close>

text \<open>The mounts and the request Init hands to Docker. \<open>replaceAll\<close> is \<^verbatim>\<open>strings.ReplaceAll(s, pat, "")\<close>.\<close>

function replaceAll :: "string \<Rightarrow> string \<Rightarrow> string" where
  "replaceAll pat [] = []"
| "replaceAll pat (c # cs) =
     (if pat \<noteq> [] \<and> take (length pat) (c # cs) = pat then replaceAll pat (drop (length pat) (c # cs)) else c # replaceAll pat cs)"
  by pat_completeness auto
termination by (relation "measure (length \<circ> snd)") auto

record CreateRequest =
  cr_Image :: string
  cr_Cmd :: "string list"
  cr_Env :: "string list"
  cr_Mounts :: "(string \<times> string \<times> string) list"
  cr_NanoCPUs :: int
  cr_Memory :: int
  cr_HostPort :: string
  cr_Name :: string

definition mounts :: "string \<Rightarrow> Volume list \<Rightarrow> (string \<times> string \<times> string) list" where
  "mounts jobsDir volumes = (''bind'', jobsDir, ''/job/'') #
     map (\<lambda>v. (if vo_Type v = ''volume'' then ''volume'' else ''bind'', vo_Source v, vo_Target v)) volumes"

definition create_request :: "string \<Rightarrow> Container \<Rightarrow> CreateRequest" where
  "create_request jobsDir c =
     \<lparr>cr_Image = im_ImageName (ct_image c), cr_Cmd = ct_args c,
      cr_Env = [''CONTAINER_NAME='' @ ct_id c, ''PORT='' @ ct_localPort c, ''PYTHONUNBUFFERED=1''],
      cr_Mounts = mounts jobsDir (ct_volumes c), cr_NanoCPUs = ct_nanoCPULimit c, cr_Memory = ct_memBytesLimit c,
      cr_HostPort = replaceAll ''localhost:'' (ct_localPort c), cr_Name = ct_id c\<rparr>"

text \<open>\<open>absDir\<close>: the absolute path of the jobs directory; \<open>mkdirs\<close>: the three directories could be made; \<open>create\<close>: ContainerCreate.\<close>

record init_env =
  ie_absDir :: "string \<Rightarrow> string \<Rightarrow> string option"
  ie_mkdirs :: bool
  ie_create :: "CreateRequest \<Rightarrow> string option"

definition Init :: "init_env \<Rightarrow> time \<Rightarrow> string list \<Rightarrow> Container \<Rightarrow> (container_error + string) \<times> Container" where
  "Init env now args c =
     (if ct_dockerID c \<noteq> '''' then (Inl AlreadyCreated, c)
      else
        let c = c\<lparr>ct_args := args\<rparr> in
        case ie_absDir env (ct_payloadLocation c) (ct_id c) of
          None \<Rightarrow> (Inl PathError, c)
        | Some jobsDir \<Rightarrow>
            if \<not> ie_mkdirs env then (Inl DirError, c)
            else case ie_create env (create_request jobsDir c) of
              None \<Rightarrow> (Inl CreateError, c)
            | Some docker \<Rightarrow>
                (Inr docker, c\<lparr>ct_dockerID := docker, ct_state := CReserved, ct_lastStateChange := now\<rparr>))"

text \<open>Delete: ContainerRemove (\<open>removed\<close>), then the folder (\<open>folder\<close>). Closing the closed result channel panics.\<close>

definition Container_Delete :: "bool \<Rightarrow> bool \<Rightarrow> Container \<Rightarrow> (container_error option \<times> Container) option" where
  "Container_Delete removed folder c =
     (if ct_dockerID c = '''' then Some (Some NotCreated, c)
      else if \<not> removed then Some (Some RemoveError, c)
      else if ct_resultsClosed c then None
      else
        let c = c\<lparr>ct_dockerID := '''', ct_resultsClosed := True\<rparr> in
        if \<not> folder then Some (Some FolderError, c)
        else Some (None, c\<lparr>ct_payloadLocation := ''''\<rparr>))"

definition Cleanup :: "time \<Rightarrow> bool \<Rightarrow> bool \<Rightarrow> Container \<Rightarrow> (container_error option \<times> Container) option" where
  "Cleanup now removed folder c = Container_Delete removed folder (c\<lparr>ct_state := CReserved, ct_lastStateChange := now\<rparr>)"

text \<open>Launch up to the point where the container runs; a failed start deletes it (the error of Delete is dropped).\<close>

definition Launch :: "bool \<Rightarrow> bool \<Rightarrow> bool \<Rightarrow> Container \<Rightarrow> (container_error option \<times> Container) option" where
  "Launch started removed folder c =
     (if ct_dockerID c = '''' then Some (Some NotCreated, c)
      else if \<not> started then map_option (\<lambda>(_, c1). (Some StartError, c1)) (Container_Delete removed folder c)
      else Some (None, c))"

text \<open>
  Launch from there on returns when the container has stopped: \<open>waitErr\<close> says that ContainerWait failed, \<open>groupErr\<close> that the
  log stream or monitorForResults did. What monitorForResults does meanwhile is \<open>results_tick\<close> below.
\<close>

definition launch_wait :: "bool \<Rightarrow> bool \<Rightarrow> container_error option" where
  "launch_wait waitErr groupErr = (if waitErr then Some RunError else if groupErr then Some RunError else None)"

definition Stop :: "bool \<Rightarrow> int \<Rightarrow> Container \<Rightarrow> container_error option" where
  "Stop stopped timeout c =
     (if ct_dockerID c = '''' then Some NotCreated
      else if timeout < 0 then Some BadTimeout
      else if \<not> stopped then Some StopError else None)"

definition Container_Rebuild :: "init_env \<Rightarrow> time \<Rightarrow> int \<Rightarrow> bool \<Rightarrow> bool \<Rightarrow> string \<Rightarrow> Container \<Rightarrow>
    (container_error option \<times> Container) option" where
  "Container_Rebuild env now unixNano removed folder newPort c =
     (if ct_dockerID c = '''' then Some (Some NotCreated, c)
      else
        let c = c\<lparr>ct_id := im_Alias (ct_image c) @ ''-'' @ show_int unixNano, ct_localPort := normalizeHTTPPort newPort\<rparr> in
        case Container_Delete removed folder c of
          None \<Rightarrow> None
        | Some (Some err, c1) \<Rightarrow> Some (Some err, c1)
        | Some (None, c1) \<Rightarrow>
            (case Init env now (ct_args c1) c1 of
               (Inl err, c2) \<Rightarrow> Some (Some err, c2)
             | (Inr _, c2) \<Rightarrow> Some (None, c2)))"

subsection \<open>Jobs\<close>

definition Reserve :: "Container \<Rightarrow> bool \<times> Container" where
  "Reserve c = (if ct_state c \<noteq> CFree then (False, c) else (True, c\<lparr>ct_state := CReserved\<rparr>))"

definition Release :: "Container \<Rightarrow> Container" where
  "Release c = c\<lparr>ct_state := CFree\<rparr>"

text \<open>AssignJob writes the payload file; \<open>written\<close> says whether the directory could be prepared and the file written and renamed.\<close>

definition Container_AssignJob :: "bool \<Rightarrow> time \<Rightarrow> string \<Rightarrow> Container \<Rightarrow> container_error option \<times> Container" where
  "Container_AssignJob written now jobId c =
     (if ct_dockerID c = '''' then (Some NotCreated, c)
      else if ct_state c = CRunning then (Some Occupied, c)
      else if \<not> written then (Some PayloadError, c)
      else (None, c\<lparr>ct_state := CRunning, ct_assignedJobID := jobId, ct_totalJobs := wrap64 (ct_totalJobs c + 1),
        ct_lastStateChange := now\<rparr>))"

text \<open>WaitForJobResult: \<open>None\<close> while it waits; \<open>cancelled\<close> says that the select takes the branch of the context.\<close>

definition WaitForJobResult :: "bool \<Rightarrow> Container \<Rightarrow> (bytes option \<times> Container) option" where
  "WaitForJobResult cancelled c =
     (if cancelled then Some (None, c)
      else case ct_results c of
        result # rest \<Rightarrow> Some (Some result, c\<lparr>ct_results := rest\<rparr>)
      | [] \<Rightarrow> if ct_resultsClosed c then Some (None, c) else None)"

definition FreeJob :: "time \<Rightarrow> Container \<Rightarrow> container_error option \<times> Container" where
  "FreeJob now c =
     (if ct_dockerID c = '''' then (Some NotCreated, c)
      else (None, c\<lparr>ct_state := CFree, ct_assignedJobID := '''', ct_lastStateChange := now\<rparr>))"

subsection \<open>Health\<close>

text \<open>What ContainerInspect reports: whether the container runs, and its health status if it has a healthcheck.\<close>

record inspection =
  in_Running :: bool
  in_Health :: "string option"

definition Health :: "inspection option \<Rightarrow> Container \<Rightarrow> container_error + int" where
  "Health inspect c =
     (if ct_dockerID c = '''' then Inl NotCreated
      else case inspect of
        None \<Rightarrow> Inl InspectError
      | Some data \<Rightarrow>
          if \<not> in_Running data then Inr 3
          else case in_Health data of
            None \<Rightarrow> Inl NoHealthcheck
          | Some st \<Rightarrow>
              if st = ''healthy'' then Inr 0 else if st = ''starting'' then Inr 1
              else if st = ''unhealthy'' then Inr 2 else if st = ''none'' then Inr 3 else Inl UnexpectedHealth)"

definition Container_Running :: "inspection option \<Rightarrow> Container \<Rightarrow> container_error + bool" where
  "Container_Running inspect c =
     (if ct_dockerID c = '''' then Inl NotCreated
      else case inspect of None \<Rightarrow> Inl InspectError | Some data \<Rightarrow> Inr (in_Running data))"

text \<open>
  Usage: the figures of ContainerStats, unsigned numbers, and what the code computes of them in \<^verbatim>\<open>float64\<close>. The operations of that type are an
  argument. \<open>stats\<close>: \<open>None\<close> if the call failed, \<open>Some None\<close> if the body could not be decoded.
\<close>

record 'f float_ops =
  fo_of :: "nat \<Rightarrow> 'f"
  fo_sub :: "'f \<Rightarrow> 'f \<Rightarrow> 'f"
  fo_mul :: "'f \<Rightarrow> 'f \<Rightarrow> 'f"
  fo_div :: "'f \<Rightarrow> 'f \<Rightarrow> 'f"
  fo_less :: "'f \<Rightarrow> 'f \<Rightarrow> bool"

record StatsResponse =
  sx_MemoryUsage :: nat
  sx_TotalUsage :: nat
  sx_PreTotalUsage :: nat
  sx_SystemUsage :: nat
  sx_PreSystemUsage :: nat
  sx_PercpuUsage :: "nat list"

definition Usage :: "'f float_ops \<Rightarrow> StatsResponse option option \<Rightarrow> Container \<Rightarrow> container_error + 'f \<times> nat" where
  "Usage fl stats c =
     (if ct_dockerID c = '''' then Inl NotCreated
      else case stats of
        None \<Rightarrow> Inl StatsError
      | Some None \<Rightarrow> Inl DecodeError
      | Some (Some v) \<Rightarrow>
          let currentMem = sx_MemoryUsage v;
              cpuDelta = fo_sub fl (fo_of fl (sx_TotalUsage v)) (fo_of fl (sx_PreTotalUsage v));
              systemDelta = fo_sub fl (fo_of fl (sx_SystemUsage v)) (fo_of fl (sx_PreSystemUsage v))
          in if fo_less fl (fo_of fl 0) systemDelta \<and> fo_less fl (fo_of fl 0) cpuDelta
             then Inr (fo_mul fl (fo_mul fl (fo_div fl cpuDelta systemDelta) (fo_of fl (length (sx_PercpuUsage v)))) (fo_of fl 100), currentMem)
             else Inr (fo_of fl 0, currentMem))"

definition is_ready :: "inspection \<Rightarrow> bool" where
  "is_ready data \<longleftrightarrow> in_Running data \<and> (case in_Health data of None \<Rightarrow> True | Some st \<Rightarrow> st = ''healthy'')"

text \<open>
  WaitUntilReady polls until the container is ready or the deadline has passed. \<open>polls i\<close> is the i-th answer of Docker and the time
  after it; the loop is bounded by fuel, and \<open>None\<close> means that the fuel ran out.
\<close>

fun WaitUntilReady :: "nat \<Rightarrow> (nat \<Rightarrow> inspection option \<times> time) \<Rightarrow> time \<Rightarrow> nat \<Rightarrow> container_error option option" where
  "WaitUntilReady 0 polls deadline i = None"
| "WaitUntilReady (Suc fuel) polls deadline i =
     (case polls i of
        (None, _) \<Rightarrow> Some (Some InspectError)
      | (Some data, now) \<Rightarrow>
          if is_ready data then Some None
          else if now > deadline then Some (Some WaitTimeout)
          else WaitUntilReady fuel polls deadline (Suc i))"

subsection \<open>Results\<close>

text \<open>An attempt to read a result file: whether it could be opened, what was read, whether it could be closed.\<close>

fun retry :: "(bool \<times> bytes option \<times> bool) list \<Rightarrow> bytes option" where
  "retry [] = None"
| "retry ((opened, data, closed) # rest) = (if opened \<and> closed \<and> data \<noteq> None then data else retry rest)"

definition readWithRetry :: "(nat \<Rightarrow> bool \<times> bytes option \<times> bool) \<Rightarrow> bytes option" where
  "readWithRetry attempt = retry (map attempt [0..<5])"

definition processAndDeleteFile :: "(bytes \<Rightarrow> bool) \<Rightarrow> (nat \<Rightarrow> bool \<times> bytes option \<times> bool) \<Rightarrow> bool \<Rightarrow> bytes option" where
  "processAndDeleteFile json_Valid attempt removed =
     (case readWithRetry attempt of
        None \<Rightarrow> None
      | Some fileBytes \<Rightarrow> if \<not> json_Valid fileBytes then None else if \<not> removed then None else Some fileBytes)"

record dir_entry =
  de_regular :: bool
  de_json :: bool
  de_attempt :: "nat \<Rightarrow> bool \<times> bytes option \<times> bool"
  de_removed :: bool

text \<open>One tick of monitorForResults over the entries of the results directory; sending on the closed channel panics.\<close>

fun results_tick :: "(bytes \<Rightarrow> bool) \<Rightarrow> dir_entry list \<Rightarrow> Container \<Rightarrow> (container_error option \<times> Container) option" where
  "results_tick valid [] c = Some (None, c)"
| "results_tick valid (e # es) c =
     (if \<not> de_regular e \<or> \<not> de_json e then results_tick valid es c
      else case processAndDeleteFile valid (de_attempt e) (de_removed e) of
        None \<Rightarrow> Some (Some ResultError, c)
      | Some msg \<Rightarrow>
          if ct_resultsClosed c then None else results_tick valid es (c\<lparr>ct_results := ct_results c @ [msg]\<rparr>))"

subsection \<open>The log stream\<close>

text \<open>
  streamContainerLogs: what Docker's stream gave until it ended (\<open>chunks\<close>), and how it ended. ContainerLogs itself may fail.
  A cancelled context is no error. \<open>opens\<close> and \<open>None\<close> are those of the log writer's Add.
\<close>

datatype stream_end = StreamEOF | StreamCancelled | StreamBroken

definition logBridge_Write :: "bool \<Rightarrow> string \<Rightarrow> bytes \<Rightarrow> LogWriter \<Rightarrow> (nat \<times> LogWriter) option" where
  "logBridge_Write opens logName p w =
     (if p = [] then Some (0, w) else map_option (Pair (length p)) (LogWriter_Add opens [p] logName w))"

fun bridge_chunks :: "bool \<Rightarrow> string \<Rightarrow> bytes list \<Rightarrow> LogWriter \<Rightarrow> LogWriter option" where
  "bridge_chunks opens logName [] w = Some w"
| "bridge_chunks opens logName (p # ps) w =
     (case logBridge_Write opens logName p w of None \<Rightarrow> None | Some (_, w1) \<Rightarrow> bridge_chunks opens logName ps w1)"

definition log_header :: "string \<Rightarrow> Container \<Rightarrow> bytes" where
  "log_header started c =
     bytes_of_string (''-----Log Data for ['' @ ct_id c @ ''] Image ['' @ im_Alias (ct_image c) @ ''] Started ['' @ started @ '']-----'')"

definition streamContainerLogs :: "bool \<Rightarrow> string \<Rightarrow> stream_end + bytes list \<times> stream_end \<Rightarrow> Container \<Rightarrow> LogWriter \<Rightarrow>
    (container_error option \<times> LogWriter) option" where
  "streamContainerLogs opens started stream c w =
     (let result = (\<lambda>e. if e = StreamBroken then Some LogError else None) in
      case stream of
        Inl e \<Rightarrow> Some (if e = StreamCancelled then None else Some LogError, w)
      | Inr (chunks, e) \<Rightarrow>
          let logName = ct_id c @ ''.log'' in
          case LogWriter_Add opens [log_header started c] logName w of
            None \<Rightarrow> None
          | Some w1 \<Rightarrow> map_option (\<lambda>w2. (result e, FreeFile logName w2)) (bridge_chunks opens logName chunks w1))"

lemma Add_open_file:
  "map_of (lw_files w) name = Some h \<Longrightarrow> \<not> lw_closed w \<Longrightarrow>
   LogWriter_Add opens entry name w = Some (w\<lparr>lw_dataQueue := lw_dataQueue w @ [\<lparr>lg_FileName = name, lg_Entries = entry\<rparr>]\<rparr>)"
  by (simp add: LogWriter_Add_def)

text \<open>What the container wrote is queued behind the header in the order of the stream, and the file is freed.\<close>

lemma bridge_chunks_queue:
  "map_of (lw_files w) name = Some h \<Longrightarrow> \<not> lw_closed w \<Longrightarrow>
   bridge_chunks opens name chunks w =
     Some (w\<lparr>lw_dataQueue := lw_dataQueue w @ map (\<lambda>p. \<lparr>lg_FileName = name, lg_Entries = [p]\<rparr>) (filter (\<lambda>p. p \<noteq> []) chunks)\<rparr>)"
  by (induction chunks arbitrary: w) (auto simp: logBridge_Write_def Add_open_file)

lemma stream_queues_in_order:
  assumes "map_of (lw_files w) (ct_id c @ ''.log'') = Some h" "\<not> lw_closed w"
    and "streamContainerLogs opens started (Inr (chunks, e)) c w = Some (err, w')"
  shows "lw_dataQueue w' = lw_dataQueue w @ map (\<lambda>p. \<lparr>lg_FileName = ct_id c @ ''.log'', lg_Entries = [p]\<rparr>)
      (log_header started c # filter (\<lambda>p. p \<noteq> []) chunks) \<and>
    map_of (lw_files w') (ct_id c @ ''.log'') = None"
  using assms by (auto simp: streamContainerLogs_def Let_def Add_open_file bridge_chunks_queue FreeFile_def)

subsection \<open>Properties of containers\<close>

lemma results_tick_fifo:
  "results_tick valid es c = Some (None, c') \<Longrightarrow>
     ct_results c' = ct_results c @ map (\<lambda>e. the (processAndDeleteFile valid (de_attempt e) (de_removed e)))
       (filter (\<lambda>e. de_regular e \<and> de_json e) es)"
  by (induction es arbitrary: c) (auto split: if_splits option.splits)

lemma results_tick_docker: "results_tick valid es c = Some (err, c') \<Longrightarrow> ct_dockerID c' = ct_dockerID c"
  by (induction es arbitrary: c) (auto split: if_splits option.splits)

lemma retry_Some: "retry as = Some b \<Longrightarrow> (True, Some b, True) \<in> set as"
  by (induction "as" rule: retry.induct) (auto split: if_splits)

text \<open>A container runs at most one job: until it is freed or released, neither Reserve nor AssignJob gets through.\<close>

lemma occupied_container:
  assumes "Container_AssignJob w now k c = (None, c')"
  shows "ct_state c' = CRunning" "ct_assignedJobID c' = k" "Reserve c' = (False, c')" "Container_AssignJob w' now' k' c' = (Some Occupied, c')"
  using assms by (auto simp: Container_AssignJob_def Reserve_def split: if_splits)

lemma reserve_once: "Reserve c = (True, c') \<Longrightarrow> Reserve c' = (False, c')"
  by (auto simp: Reserve_def split: if_splits)

lemma Delete_closes: "Container_Delete removed folder c = Some (None, c') \<Longrightarrow> ct_resultsClosed c' \<and> ct_dockerID c' = '''' \<and> ct_payloadLocation c' = ''''"
  by (auto simp: Container_Delete_def Let_def split: if_splits)

lemma Init_channel: "Init env now args c = (r, c') \<Longrightarrow> ct_resultsClosed c' = ct_resultsClosed c \<and> ct_results c' = ct_results c"
  by (auto simp: Init_def Let_def split: if_splits option.splits)

lemma Init_created: "Init env now args c = (Inr docker, c') \<Longrightarrow> ct_dockerID c' = docker \<and> ct_state c' = CReserved"
  by (auto simp: Init_def Let_def split: if_splits option.splits)

text \<open>
  A rebuilt container is broken. Delete closes the result channel and Init does not make a new one: after a successful
  Rebuild the next Delete that reaches Docker panics, so does the first result a job writes, and a job that waits for
  its result gets an empty one at once.
\<close>

lemma rebuilt_container_panics:
  assumes r: "Container_Rebuild env now nano removed folder port c = Some (None, c')" and empty: "ct_results c = []"
    and create: "\<And>req docker. ie_create env req = Some docker \<Longrightarrow> docker \<noteq> ''''"
  shows "Container_Delete True folder' c' = None \<and>
    results_tick valid [\<lparr>de_regular = True, de_json = True, de_attempt = (\<lambda>_. (True, Some msg, True)), de_removed = True\<rparr>] c' =
      (if valid msg then None else Some (Some ResultError, c')) \<and>
    WaitForJobResult False c' = Some (None, c')"
proof -
  let ?c = "c\<lparr>ct_id := im_Alias (ct_image c) @ ''-'' @ show_int nano, ct_localPort := normalizeHTTPPort port\<rparr>"
  from r obtain c1 docker where d: "Container_Delete removed folder ?c = Some (None, c1)" and i: "Init env now (ct_args c1) c1 = (Inr docker, c')"
    by (auto simp: Container_Rebuild_def Let_def split: if_splits option.splits prod.splits sum.splits)
  have results: "ct_results c1 = []" using d empty by (auto simp: Container_Delete_def Let_def split: if_splits)
  have "docker \<noteq> ''''" using i create by (auto simp: Init_def Let_def split: if_splits option.splits)
  then have c': "ct_resultsClosed c'" "ct_dockerID c' \<noteq> ''''" "ct_results c' = []"
    using Delete_closes [OF d] Init_channel [OF i] Init_created [OF i] results by simp_all
  have "[0..<5] = [0, 1, 2, 3, 4 :: nat]" by code_simp
  then show ?thesis using c' by (simp add: Container_Delete_def WaitForJobResult_def processAndDeleteFile_def readWithRetry_def)
qed

definition demo_env :: init_env where
  "demo_env = \<lparr>ie_absDir = (\<lambda>loc key. Some (''/'' @ loc @ ''/'' @ key)), ie_mkdirs = True, ie_create = (\<lambda>_. Some ''docker'')\<rparr>"

definition demo_container :: Container where
  "demo_container = snd (Init demo_env 0 [] (NewContainer ''u'' 0 demo_image ''jobs'' ''8080''))"

lemma rebuilt_container_panics_example:
  "\<exists>c'. Container_Rebuild demo_env 1 7 True True ''9090'' demo_container = Some (None, c') \<and> Container_Delete True True c' = None"
proof -
  have "case Container_Rebuild demo_env 1 7 True True ''9090'' demo_container of Some (None, c') \<Rightarrow> True | _ \<Rightarrow> False" by code_simp
  then obtain c' where r: "Container_Rebuild demo_env 1 7 True True ''9090'' demo_container = Some (None, c')"
    by (auto split: option.splits prod.splits)
  have e: "ct_results demo_container = []" by code_simp
  have "docker \<noteq> ''''" if "ie_create demo_env req = Some docker" for req docker using that by (auto simp: demo_env_def)
  then have "Container_Delete True True c' = None" using rebuilt_container_panics [OF r e, where folder' = True] by blast
  with r show ?thesis by blast
qed

lemma WaitUntilReady_bound:
  assumes "\<And>k. snd (polls k) \<ge> start + 200000000 * int k"
    and "deadline < start + 200000000 * (int i + int fuel)"
  shows "WaitUntilReady (Suc fuel) polls deadline i \<noteq> None"
  using assms(2)
proof (induction fuel arbitrary: i)
  case 0
  then have "snd (polls i) > deadline" using assms(1) [of i] by simp
  then show ?case by (cases "polls i") (auto split: option.splits)
next
  case (Suc fuel)
  have "WaitUntilReady (Suc fuel) polls deadline (Suc i) \<noteq> None" using Suc by (intro Suc.IH) (simp add: algebra_simps)
  then show ?case by (cases "polls i") (auto simp del: WaitUntilReady.simps(2) simp: WaitUntilReady.simps(2) [of "Suc fuel"] split: option.splits)
qed

lemma WaitUntilReady_ready:
  "WaitUntilReady fuel polls deadline i = Some None \<Longrightarrow> \<exists>k data. fst (polls k) = Some data \<and> is_ready data"
proof (induction fuel polls deadline i rule: WaitUntilReady.induct)
  case (2 fuel polls deadline i)
  obtain answer now where p: "polls i = (answer, now)" by fastforce
  show ?case
  proof (cases "\<exists>data. answer = Some data \<and> is_ready data")
    case True
    then show ?thesis using p by (metis fst_conv)
  next
    case False
    then show ?thesis using 2 p by (auto split: option.splits if_splits)
  qed
qed simp

text \<open>
  C22 (waiting for a container ends). Polls are 200 milliseconds apart at least, so WaitUntilReady with the timeout of 15 seconds
  that assignJob uses returns after at most 77 polls, and it reports success only if Docker reported the container running
  and, where there is a healthcheck, healthy.
\<close>

theorem WaitUntilReady_terminates:
  assumes "\<And>k. snd (polls k) \<ge> start + 200000000 * int k"
  shows "\<exists>r. WaitUntilReady 77 polls (start + 15000000000) 0 = Some r \<and>
    (r = None \<longrightarrow> (\<exists>k data. fst (polls k) = Some data \<and> is_ready data))"
proof -
  have "WaitUntilReady (Suc 76) polls (start + 15000000000) 0 \<noteq> None" by (rule WaitUntilReady_bound [OF assms]) simp_all
  then obtain r where r: "WaitUntilReady (Suc 76) polls (start + 15000000000) 0 = Some r" by blast
  then show ?thesis using WaitUntilReady_ready [of "Suc 76" polls "start + 15000000000" 0] by auto
qed

theorem WaitUntilReady_terminates_witness:
  "\<exists>r. WaitUntilReady 77 (\<lambda>k. (Some \<lparr>in_Running = True, in_Health = Some ''starting''\<rparr>, 200000000 * int k)) 15000000000 0 = Some r \<and> r \<noteq> None"
  using WaitUntilReady_terminates [of 0 "\<lambda>k. (Some \<lparr>in_Running = True, in_Health = Some ''starting''\<rparr>, 200000000 * int k)"]
  by (auto simp: is_ready_def)

end
