(* ===== verification/ClusterPool.thy ===== *)
theory ClusterPool
  imports ClusterContainer
begin

section \<open>The container pool (internal/cluster/container/pool.go)\<close>

text \<open>
  The pool is a slice of container pointers; a packer or a health check keeps using a pointer after the container has left
  the pool. So the containers live in a heap and the pool is a list of addresses. \<open>inspect a\<close> is what Docker reports of
  container \<open>a\<close>. Every method holds the pool's mutex; what it starts in the background is a separate definition.
\<close>

record Containers =
  cp_heap :: "nat \<Rightarrow> Container"
  cp_next :: nat
  cp_Containers :: "nat list"
  cp_streamOpen :: bool
  cp_payloadDir :: string

datatype pool_error = ErrImageNotFound | ErrAllOccupied | NoContainer string | ContainerExists string | PortError
  | ContainerErr container_error | DestroyFailed | DirReadError

definition set_con :: "nat \<Rightarrow> Container \<Rightarrow> Containers \<Rightarrow> Containers" where
  "set_con a c p = p\<lparr>cp_heap := (cp_heap p)(a := c)\<rparr>"

definition CreateContainerHandler :: "(nat \<Rightarrow> Container) \<Rightarrow> string \<Rightarrow> Containers" where
  "CreateContainerHandler heap payloadDir =
     \<lparr>cp_heap = heap, cp_next = 0, cp_Containers = [], cp_streamOpen = True, cp_payloadDir = payloadDir\<rparr>"

subsection \<open>Tracking containers\<close>

definition Add :: "Containers \<Rightarrow> nat \<Rightarrow> pool_error option \<times> Containers" where
  "Add p a =
     (if \<exists>b\<in>set (cp_Containers p). ct_id (cp_heap p b) = ct_id (cp_heap p a)
      then (Some (ContainerExists (ct_id (cp_heap p a))), p)
      else (None, p\<lparr>cp_Containers := cp_Containers p @ [a]\<rparr>))"

text \<open>AddFromImage: the free port and the uuid are arguments; the new container gets the next address.\<close>

definition AddFromImage :: "init_env \<Rightarrow> time \<Rightarrow> string \<Rightarrow> int option \<Rightarrow> Image \<Rightarrow> Containers \<Rightarrow> (pool_error + nat) \<times> Containers" where
  "AddFromImage env now uuid port img p =
     (case port of
        None \<Rightarrow> (Inl PortError, p)
      | Some port \<Rightarrow>
          let c = NewContainer uuid now img (cp_payloadDir p) (''localhost:'' @ show_int port);
              a = cp_next p
          in case Init env now (im_Args img) c of
               (Inl err, _) \<Rightarrow> (Inl (ContainerErr err), p)
             | (Inr _, c1) \<Rightarrow>
                 (case Add (set_con a c1 (p\<lparr>cp_next := Suc a\<rparr>)) a of
                    (Some err, p1) \<Rightarrow> (Inl err, p1)
                  | (None, p1) \<Rightarrow> (Inr a, p1)))"

definition find_id :: "Containers \<Rightarrow> string \<Rightarrow> nat option" where
  "find_id p key = List.find (\<lambda>a. ct_id (cp_heap p a) = key) (cp_Containers p)"

definition Get :: "Containers \<Rightarrow> string \<Rightarrow> pool_error + nat" where
  "Get p key = (case find_id p key of None \<Rightarrow> Inl (NoContainer key) | Some a \<Rightarrow> Inr a)"

text \<open>Remove cuts the first container with the identifier out of the slice and deletes it.\<close>

definition Remove :: "(nat \<Rightarrow> bool \<times> bool) \<Rightarrow> Containers \<Rightarrow> string \<Rightarrow> (pool_error option \<times> Containers) option" where
  "Remove rm p key =
     (case List.extract (\<lambda>a. ct_id (cp_heap p a) = key) (cp_Containers p) of
        None \<Rightarrow> Some (Some (NoContainer key), p)
      | Some (before, a, after) \<Rightarrow>
          map_option (\<lambda>(err, c). (map_option ContainerErr err, set_con a c (p\<lparr>cp_Containers := before @ after\<rparr>)))
            (Container_Delete (fst (rm a)) (snd (rm a)) (cp_heap p a)))"

fun destroy_loop :: "(nat \<Rightarrow> bool \<times> bool) \<Rightarrow> nat list \<Rightarrow> Containers \<Rightarrow> (bool \<times> Containers) option" where
  "destroy_loop rm [] p = Some (True, p)"
| "destroy_loop rm (a # as) p =
     (if ct_id (cp_heap p a) = '''' then destroy_loop rm as p
      else case Container_Delete (fst (rm a)) (snd (rm a)) (cp_heap p a) of
        None \<Rightarrow> None
      | Some (err, c) \<Rightarrow>
          map_option (\<lambda>(ok, p1). (ok \<and> err = None, p1)) (destroy_loop rm as (set_con a c p)))"

definition DestroyAll :: "(nat \<Rightarrow> bool \<times> bool) \<Rightarrow> Containers \<Rightarrow> (pool_error option \<times> Containers) option" where
  "DestroyAll rm p =
     map_option (\<lambda>(ok, p1). (if ok then None else Some DestroyFailed, p1))
       (destroy_loop rm (cp_Containers p) (p\<lparr>cp_Containers := []\<rparr>))"

definition Pool_Close :: "(nat \<Rightarrow> bool \<times> bool) \<Rightarrow> bool \<Rightarrow> Containers \<Rightarrow> (pool_error option \<times> Containers) option" where
  "Pool_Close rm readable p =
     (case DestroyAll rm p of
        None \<Rightarrow> None
      | Some (Some err, p1) \<Rightarrow> Some (Some err, p1)
      | Some (None, p1) \<Rightarrow>
          if \<not> readable then Some (Some DirReadError, p1)
          else if cp_streamOpen p1 \<and> cp_Containers p1 = [] then Some (None, p1\<lparr>cp_streamOpen := False\<rparr>)
          else Some (None, p1))"

subsection \<open>Finding containers\<close>

fun find_free :: "(nat \<Rightarrow> inspection option) \<Rightarrow> string \<Rightarrow> nat list \<Rightarrow> bool \<Rightarrow> bool \<Rightarrow> Containers \<Rightarrow> (pool_error + nat) \<times> Containers" where
  "find_free inspect imageName [] matchingImage allOccupied p =
     (if \<not> matchingImage then (Inl ErrImageNotFound, p)
      else if allOccupied then (Inl ErrAllOccupied, p)
      else (Inl (NoContainer imageName), p))"
| "find_free inspect imageName (a # as) matchingImage allOccupied p =
     (let c = cp_heap p a in
      if Container_Running (inspect a) c \<noteq> Inr True then find_free inspect imageName as matchingImage allOccupied p
      else if ct_state c = CFree \<and> im_Alias (ct_image c) = imageName
      then (case Reserve c of
              (True, c1) \<Rightarrow> (Inr a, set_con a c1 p)
            | (False, _) \<Rightarrow> find_free inspect imageName as matchingImage allOccupied p)
      else find_free inspect imageName as (matchingImage \<or> im_Alias (ct_image c) = imageName)
             (allOccupied \<and> ct_state c \<noteq> CFree) p)"

definition FindFreeContainer :: "(nat \<Rightarrow> inspection option) \<Rightarrow> string \<Rightarrow> Containers \<Rightarrow> (pool_error + nat) \<times> Containers" where
  "FindFreeContainer inspect imageName p = find_free inspect imageName (cp_Containers p) False True p"

definition ActiveImageNames :: "Containers \<Rightarrow> string list" where
  "ActiveImageNames p = map (\<lambda>a. im_Alias (ct_image (cp_heap p a))) (cp_Containers p)"

definition AvailableImageNames :: "(nat \<Rightarrow> inspection option) \<Rightarrow> Containers \<Rightarrow> string list" where
  "AvailableImageNames inspect p =
     map (\<lambda>a. im_Alias (ct_image (cp_heap p a)))
       (filter (\<lambda>a. ct_state (cp_heap p a) = CFree \<and> Health (inspect a) (cp_heap p a) = Inr 0) (cp_Containers p))"

definition Len :: "Containers \<Rightarrow> nat" where
  "Len p = length (cp_Containers p)"

text \<open>ForEach stops at the first error; the action works on the container and a state of the caller.\<close>

fun each_container :: "(nat \<Rightarrow> 's \<times> Containers \<Rightarrow> (bool \<times> 's \<times> Containers) option) \<Rightarrow> nat list \<Rightarrow> 's \<times> Containers \<Rightarrow>
    (bool \<times> 's \<times> Containers) option" where
  "each_container action [] sp = Some (True, sp)"
| "each_container action (a # as) sp =
     (case action a sp of
        None \<Rightarrow> None
      | Some (False, sp1) \<Rightarrow> Some (False, sp1)
      | Some (True, sp1) \<Rightarrow> each_container action as sp1)"

definition ForEach :: "(nat \<Rightarrow> 's \<times> Containers \<Rightarrow> (bool \<times> 's \<times> Containers) option) \<Rightarrow> 's \<times> Containers \<Rightarrow> (bool \<times> 's \<times> Containers) option" where
  "ForEach action sp = each_container action (cp_Containers (snd sp)) sp"

definition UsedSpace :: "Containers \<Rightarrow> int \<times> int" where
  "UsedSpace p = (wsum (map (\<lambda>a. ct_nanoCPULimit (cp_heap p a)) (cp_Containers p)),
     wsum (map (\<lambda>a. ct_memBytesLimit (cp_heap p a)) (cp_Containers p)))"

subsection \<open>Rebuilding and launching\<close>

text \<open>The containers Rebuild starts a worker for; the error of Running is overwritten by that of Health.\<close>

definition rebuild_targets :: "(nat \<Rightarrow> inspection option) \<Rightarrow> Containers \<Rightarrow> nat list" where
  "rebuild_targets inspect p =
     filter (\<lambda>a. let c = cp_heap p a;
                     status = (case Container_Running (inspect a) c of Inr b \<Rightarrow> b | Inl _ \<Rightarrow> False)
                 in case Health (inspect a) c of Inl _ \<Rightarrow> True | Inr healthCode \<Rightarrow> \<not> status \<or> \<not> (healthCode = 0 \<or> healthCode = 1))
       (cp_Containers p)"

text \<open>The worker of one target: whether it streamed an error.\<close>

definition rebuild_worker :: "init_env \<Rightarrow> time \<Rightarrow> int \<Rightarrow> bool \<times> bool \<Rightarrow> bool \<Rightarrow> int \<Rightarrow> nat \<Rightarrow> Containers \<Rightarrow> (bool \<times> Containers) option" where
  "rebuild_worker env now nano rm started port a p =
     (case Container_Rebuild env now nano (fst rm) (snd rm) (show_int port) (cp_heap p a) of
        None \<Rightarrow> None
      | Some (Some _, c) \<Rightarrow> Some (True, set_con a c p)
      | Some (None, c) \<Rightarrow> map_option (\<lambda>(err, c1). (err \<noteq> None, set_con a c1 p)) (Launch started (fst rm) (snd rm) c))"

text \<open>TrackedLaunch: the container whose Launch it starts; \<open>None\<close> when it streams an error instead.\<close>

definition TrackedLaunch :: "Containers \<Rightarrow> string \<Rightarrow> nat option" where
  "TrackedLaunch p key = find_id p key"

definition launch_worker :: "bool \<Rightarrow> bool \<times> bool \<Rightarrow> nat \<Rightarrow> Containers \<Rightarrow> (bool \<times> Containers) option" where
  "launch_worker started rm a p =
     map_option (\<lambda>(err, c). (err \<noteq> None, set_con a c p)) (Launch started (fst rm) (snd rm) (cp_heap p a))"

subsection \<open>The pool's invariant\<close>

text \<open>No container is tracked twice, and no two tracked containers share an identifier.\<close>

definition pool_inv :: "Containers \<Rightarrow> bool" where
  "pool_inv p \<longleftrightarrow> distinct (cp_Containers p) \<and> (\<forall>a\<in>set (cp_Containers p). a < cp_next p) \<and>
     inj_on (\<lambda>a. ct_id (cp_heap p a)) (set (cp_Containers p))"

declare pool_inv_def [inv_simps]

lemma pool_inv_Create: "pool_inv (CreateContainerHandler heap dir)"
  by (simp add: pool_inv_def CreateContainerHandler_def)

lemma pool_inv_Add:
  assumes "pool_inv p" "a \<notin> set (cp_Containers p)" "a < cp_next p"
  shows "pool_inv (snd (Add p a))"
  using assms by (auto simp: Add_def pool_inv_def)

lemma set_con_fresh:
  assumes "pool_inv p" "a = cp_next p"
  shows "pool_inv (set_con a c (p\<lparr>cp_next := Suc a\<rparr>))"
proof -
  have "cp_heap (set_con a c p) b = cp_heap p b" if "b \<in> set (cp_Containers p)" for b
    using that assms by (auto simp: pool_inv_def set_con_def)
  then show ?thesis using assms by (auto simp: pool_inv_def set_con_def inj_on_def)
qed

lemma pool_inv_AddFromImage:
  assumes "pool_inv p"
  shows "pool_inv (snd (AddFromImage env now uuid port img p))"
proof -
  have fresh: "cp_next p \<notin> set (cp_Containers p)" using assms by (auto simp: pool_inv_def)
  have "pool_inv (snd (Add (set_con (cp_next p) c (p\<lparr>cp_next := Suc (cp_next p)\<rparr>)) (cp_next p)))" for c
    by (rule pool_inv_Add [OF set_con_fresh [OF assms refl]]) (use fresh in \<open>simp_all add: set_con_def\<close>)
  then have "Add (set_con (cp_next p) c (p\<lparr>cp_next := Suc (cp_next p)\<rparr>)) (cp_next p) = (r, p1) \<Longrightarrow> pool_inv p1" for c r p1
    by (metis snd_conv)
  then show ?thesis using assms by (auto simp: AddFromImage_def Let_def split: option.splits prod.splits sum.splits)
qed

lemma pool_inv_same_ids:
  assumes "pool_inv p" "cp_Containers p' = cp_Containers p" "cp_next p' = cp_next p"
    "\<And>a. a \<in> set (cp_Containers p) \<Longrightarrow> ct_id (cp_heap p' a) = ct_id (cp_heap p a)"
  shows "pool_inv p'"
  using assms by (auto simp: pool_inv_def inj_on_def)

lemma Delete_id: "Container_Delete r f c = Some (e, c') \<Longrightarrow> ct_id c' = ct_id c"
  by (auto simp: Container_Delete_def Let_def split: if_splits)

lemma Remove_cases:
  assumes "pool_inv p" "Remove rm p key = Some (e, p')"
  shows "pool_inv p' \<and> set (cp_Containers p') = {a \<in> set (cp_Containers p). ct_id (cp_heap p a) \<noteq> key}"
proof (cases "List.extract (\<lambda>a. ct_id (cp_heap p a) = key) (cp_Containers p)")
  case None
  then have "p' = p" using assms(2) by (simp add: Remove_def)
  then show ?thesis using assms(1) None by (auto simp: extract_None)
next
  case (Some t)
  obtain before a after where t: "t = (before, a, after)" by (cases t)
  have ex: "cp_Containers p = before @ a # after" "ct_id (cp_heap p a) = key"
    using Some by (simp_all add: t extract_Some_iff)
  obtain err c where "Container_Delete (fst (rm a)) (snd (rm a)) (cp_heap p a) = Some (err, c)"
    and p': "p' = set_con a c (p\<lparr>cp_Containers := before @ after\<rparr>)"
    using assms(2) Some by (auto simp: Remove_def t)
  have d: "distinct (before @ a # after)" and inj: "inj_on (\<lambda>a. ct_id (cp_heap p a)) (set (before @ a # after))"
    using assms(1) unfolding pool_inv_def ex(1) by blast+
  have heap: "cp_heap p' b = cp_heap p b" if "b \<in> set (before @ after)" for b using that d p' by (auto simp: set_con_def)
  have "inj_on (\<lambda>a. ct_id (cp_heap p a)) (set (before @ after))" using inj by (rule inj_on_subset) auto
  then have "inj_on (\<lambda>a. ct_id (cp_heap p' a)) (set (before @ after))" using heap by (auto simp: inj_on_def)
  moreover have "cp_Containers p' = before @ after" "cp_next p' = cp_next p" by (simp_all add: p' set_con_def)
  moreover have "ct_id (cp_heap p b) \<noteq> key" if "b \<in> set (before @ after)" for b
    using that d inj_onD [OF inj, of b a] ex(2) by auto
  then have "set (before @ after) = {b \<in> set (cp_Containers p). ct_id (cp_heap p b) \<noteq> key}"
    using ex by auto
  ultimately show ?thesis using assms(1) d by (auto simp: pool_inv_def ex(1))
qed

subsection \<open>Finding a free container\<close>

definition running :: "(nat \<Rightarrow> inspection option) \<Rightarrow> Containers \<Rightarrow> nat \<Rightarrow> bool" where
  "running inspect p a \<longleftrightarrow> Container_Running (inspect a) (cp_heap p a) = Inr True"

lemma find_free_spec:
  assumes "find_free inspect imageName as matching occ p = (r, p')"
  shows "case r of
      Inr a \<Rightarrow> a \<in> set as \<and> running inspect p a \<and> ct_state (cp_heap p a) = CFree \<and> im_Alias (ct_image (cp_heap p a)) = imageName \<and>
        p' = set_con a ((cp_heap p a)\<lparr>ct_state := CReserved\<rparr>) p
    | Inl e \<Rightarrow> p' = p \<and>
        (\<forall>a\<in>set as. running inspect p a \<longrightarrow> \<not> (ct_state (cp_heap p a) = CFree \<and> im_Alias (ct_image (cp_heap p a)) = imageName)) \<and>
        e = (if \<not> matching \<and> (\<forall>a\<in>set as. running inspect p a \<longrightarrow> im_Alias (ct_image (cp_heap p a)) \<noteq> imageName) then ErrImageNotFound
             else if occ \<and> (\<forall>a\<in>set as. running inspect p a \<longrightarrow> ct_state (cp_heap p a) \<noteq> CFree) then ErrAllOccupied
             else NoContainer imageName)"
  using assms
proof (induction "as" arbitrary: matching occ)
  case Nil
  then show ?case by (auto split: if_splits)
next
  case (Cons a as)
  show ?case
  proof (cases "running inspect p a")
    case False
    then have "find_free inspect imageName as matching occ p = (r, p')" using Cons.prems by (simp add: running_def Let_def)
    then show ?thesis using Cons.IH [of matching occ] False by (cases r) auto
  next
    case run: True
    show ?thesis
    proof (cases "ct_state (cp_heap p a) = CFree \<and> im_Alias (ct_image (cp_heap p a)) = imageName")
      case True
      then show ?thesis using Cons.prems run by (auto simp: running_def Let_def Reserve_def)
    next
      case False
      then have "find_free inspect imageName as (matching \<or> im_Alias (ct_image (cp_heap p a)) = imageName)
          (occ \<and> ct_state (cp_heap p a) \<noteq> CFree) p = (r, p')"
        using Cons.prems run by (auto simp: running_def Let_def)
      note ih = Cons.IH [OF this]
      then show ?thesis using False run by (cases r; simp split: if_splits; blast?)
    qed
  qed
qed

lemmas FindFreeContainer_cases = find_free_spec [of _ _ "cp_Containers _" False True, folded FindFreeContainer_def]

text \<open>GetFreePort: the address is resolved, the system assigns a port, and the listener must close; its result is \<open>pe_port\<close> of the packer.\<close>

definition GetFreePort :: "bool \<Rightarrow> int option \<Rightarrow> bool \<Rightarrow> int option" where
  "GetFreePort resolved listened closed =
     (if \<not> resolved then None
      else case listened of None \<Rightarrow> None | Some port \<Rightarrow> if \<not> closed then None else Some port)"

definition demo_pool :: Containers where
  "demo_pool = set_con 0 (demo_container\<lparr>ct_state := CFree\<rparr>)
     (snd (AddFromImage demo_env 0 ''u'' (Some 7) demo_image (CreateContainerHandler (\<lambda>_. demo_container) ''jobs'')))"

definition demo_inspect :: "nat \<Rightarrow> inspection option" where
  "demo_inspect a = Some \<lparr>in_Running = True, in_Health = Some ''healthy''\<rparr>"

text \<open>
  Reserving a container: FindFreeContainer returns a tracked container that runs, is free and has the image, and it is
  then reserved, so no other caller gets it; everything else is unchanged. Otherwise no tracked container qualifies, and the
  error says why: no running container has the image, or some have it and none at all is free.
\<close>

lemma FindFreeContainer_reserves:
  assumes "FindFreeContainer inspect imageName p = (r, p')"
  shows "(\<forall>a. r = Inr a \<longrightarrow> a \<in> set (cp_Containers p) \<and> Container_Running (inspect a) (cp_heap p a) = Inr True \<and>
        ct_state (cp_heap p a) = CFree \<and> im_Alias (ct_image (cp_heap p a)) = imageName \<and>
        p' = p\<lparr>cp_heap := (cp_heap p)(a := (cp_heap p a)\<lparr>ct_state := CReserved\<rparr>)\<rparr>) \<and>
    (\<forall>e. r = Inl e \<longrightarrow> p' = p \<and>
        (\<forall>a\<in>set (cp_Containers p). Container_Running (inspect a) (cp_heap p a) = Inr True \<longrightarrow>
           \<not> (ct_state (cp_heap p a) = CFree \<and> im_Alias (ct_image (cp_heap p a)) = imageName)) \<and>
        (e = ErrImageNotFound \<longleftrightarrow> (\<forall>a\<in>set (cp_Containers p). Container_Running (inspect a) (cp_heap p a) = Inr True \<longrightarrow>
           im_Alias (ct_image (cp_heap p a)) \<noteq> imageName)) \<and>
        (e = ErrAllOccupied \<longrightarrow> (\<forall>a\<in>set (cp_Containers p). Container_Running (inspect a) (cp_heap p a) = Inr True \<longrightarrow>
           ct_state (cp_heap p a) \<noteq> CFree)))"
  using find_free_spec [OF assms [unfolded FindFreeContainer_def]]
  by (cases r) (simp_all add: running_def set_con_def split: if_splits)

lemma FindFreeContainer_reserves_example:
  "\<exists>p'. FindFreeContainer demo_inspect ''py'' demo_pool = (Inr 0, p') \<and> ct_state (cp_heap demo_pool 0) = CFree \<and> ct_state (cp_heap p' 0) = CReserved"
proof -
  obtain r p' where f: "FindFreeContainer demo_inspect ''py'' demo_pool = (r, p')" by fastforce
  have "(case fst (FindFreeContainer demo_inspect ''py'' demo_pool) of Inr a \<Rightarrow> Some a | Inl _ \<Rightarrow> None) = Some 0" by code_simp
  then have r: "r = Inr 0" using f by (auto split: sum.splits)
  then show ?thesis using FindFreeContainer_reserves [OF f] f by auto
qed

subsection \<open>The interface core.ContainerPool\<close>

text \<open>
  What the packer relies on to place a job: FindFreeContainer hands out a tracked free container and reserves it,
  AddFromImage (its environment is one argument here) a new, reserved one; neither touches another tracked container.
\<close>

locale container_pool =
  fixes inv :: "'p \<Rightarrow> bool"
    and tracked :: "'p \<Rightarrow> nat set"
    and con :: "'p \<Rightarrow> nat \<Rightarrow> Container"
    and find_con :: "'i \<Rightarrow> string \<Rightarrow> 'p \<Rightarrow> ('x + nat) \<times> 'p"
    and add_con :: "'e \<Rightarrow> Image \<Rightarrow> 'p \<Rightarrow> ('x + nat) \<times> 'p"
  assumes find_ok: "inv p \<Longrightarrow> find_con i img p = (Inr a, p') \<Longrightarrow>
      inv p' \<and> tracked p' = tracked p \<and> a \<in> tracked p \<and> ct_state (con p a) = CFree \<and> im_Alias (ct_image (con p a)) = img \<and>
      con p' = (con p)(a := (con p a)\<lparr>ct_state := CReserved\<rparr>)"
    and find_err: "find_con i img p = (Inl x, p') \<Longrightarrow> p' = p"
    and add_ok: "inv p \<Longrightarrow> add_con e im p = (Inr a, p') \<Longrightarrow>
      inv p' \<and> a \<notin> tracked p \<and> tracked p' = insert a (tracked p) \<and> ct_state (con p' a) = CReserved \<and> ct_image (con p' a) = im \<and>
      (\<forall>b\<in>tracked p. con p' b = con p b)"
    and add_err: "inv p \<Longrightarrow> add_con e im p = (Inl x, p') \<Longrightarrow> inv p' \<and> tracked p' = tracked p \<and> (\<forall>b\<in>tracked p. con p' b = con p b)"
begin

text \<open>A caller gets a container by finding one, or by adding one after the search failed.\<close>

lemma acquired:
  assumes "inv p" "find_con i (im_Alias im) p = (Inr a, p') \<or> find_con i (im_Alias im) p = (Inl x, p1) \<and> add_con e im p1 = (Inr a, p')"
  shows "inv p' \<and> a \<in> tracked p' \<and> tracked p \<subseteq> tracked p' \<and> ct_state (con p' a) = CReserved \<and>
    im_Alias (ct_image (con p' a)) = im_Alias im \<and> (a \<in> tracked p \<longrightarrow> ct_state (con p a) = CFree) \<and>
    (\<forall>b\<in>tracked p - {a}. con p' b = con p b)"
  using assms(2)
proof
  assume "find_con i (im_Alias im) p = (Inr a, p')"
  then show ?thesis using find_ok [OF assms(1)] by auto
next
  assume f: "find_con i (im_Alias im) p = (Inl x, p1) \<and> add_con e im p1 = (Inr a, p')"
  then have "p1 = p" using find_err by blast
  then show ?thesis using add_ok [OF assms(1)] f by auto
qed

text \<open>Two callers in a row never get the same container, and the first one's is still reserved for it.\<close>

lemma acquire_twice:
  assumes "inv p" "find_con i (im_Alias im) p = (Inr a, p1) \<or> find_con i (im_Alias im) p = (Inl x, q) \<and> add_con e im q = (Inr a, p1)"
    and "find_con i' (im_Alias im') p1 = (Inr b, p2) \<or> find_con i' (im_Alias im') p1 = (Inl x', q') \<and> add_con e' im' q' = (Inr b, p2)"
  shows "a \<noteq> b \<and> ct_state (con p2 a) = CReserved \<and> ct_state (con p2 b) = CReserved"
proof -
  note one = acquired [OF assms(1,2)]
  note two = acquired [OF conjunct1 [OF one] assms(3)]
  have "a \<noteq> b" using one two by auto
  then show ?thesis using one two by auto
qed

end

lemma pool_inv_FindFree:
  assumes "pool_inv p" "FindFreeContainer inspect img p = (r, p')"
  shows "pool_inv p'"
  using find_free_spec [OF assms(2) [unfolded FindFreeContainer_def]] assms(1)
  by (cases r) (auto simp: set_con_def intro: pool_inv_same_ids)

lemma AddFromImage_cases:
  assumes "pool_inv p" "AddFromImage env now uuid port img p = (r, p')"
  shows "(\<forall>b\<in>set (cp_Containers p). cp_heap p' b = cp_heap p b) \<and>
    (case r of
       Inl _ \<Rightarrow> cp_Containers p' = cp_Containers p
     | Inr a \<Rightarrow> a = cp_next p \<and> cp_Containers p' = cp_Containers p @ [a] \<and> ct_state (cp_heap p' a) = CReserved \<and> ct_image (cp_heap p' a) = img)"
proof -
  have fresh: "\<forall>b\<in>set (cp_Containers p). b \<noteq> cp_next p" using assms(1) by (auto simp: pool_inv_def)
  have image: "Init e n as c = (Inr d, c') \<Longrightarrow> ct_image c' = ct_image c" for e n "as" c d c'
    by (auto simp: Init_def Let_def split: if_splits option.splits)
  show ?thesis
    using assms(2) fresh
    by (auto simp: AddFromImage_def Add_def set_con_def Let_def NewContainer_def dest: Init_created image
        split: option.splits prod.splits sum.splits if_splits)
qed

interpretation cp: container_pool pool_inv "\<lambda>p. set (cp_Containers p)" cp_heap FindFreeContainer
  "\<lambda>(env, now, uuid, port) img p. AddFromImage env now uuid port img p"
proof (unfold_locales, goal_cases)
  case (1 p inspect img a p')
  then show ?case using pool_inv_FindFree [OF 1] find_free_spec [OF 1(2) [unfolded FindFreeContainer_def]] by (simp add: set_con_def)
next
  case (2 inspect img p x p')
  then show ?case using find_free_spec [OF 2 [unfolded FindFreeContainer_def]] by simp
next
  case (3 p e im a p')
  obtain env now uuid port where e: "e = (env, now, uuid, port)" by (cases e)
  have "cp_next p \<notin> set (cp_Containers p)" using 3(1) by (auto simp: pool_inv_def)
  then show ?case
    using AddFromImage_cases [of p env now uuid port im "Inr a" p'] pool_inv_AddFromImage [OF 3(1), of env now uuid port im] 3 e by auto
next
  case (4 p e im x p')
  obtain env now uuid port where e: "e = (env, now, uuid, port)" by (cases e)
  show ?case
    using AddFromImage_cases [of p env now uuid port im "Inl x" p'] pool_inv_AddFromImage [OF 4(1), of env now uuid port im] 4 e by auto
qed

end
