(* ===== verification/ClusterNode.thy ===== *)
theory ClusterNode
  imports ClusterPool
begin

section \<open>The cluster node (internal/cluster/scheduler: packer.go, health.go; internal/cluster/service)\<close>

text \<open>
  The packer that moves jobs from the queue into containers, the health rules, and the server a scheduler talks to. The
  server holds queue and pool, so its record is the state of the node. The goroutine assignJob is cut where it waits for
  the result of the job. \<open>None\<close> is a panic.
\<close>

subsection \<open>Packing\<close>

datatype pack_result = PackIdle | PackFailed | PackStarted nat ClusterJob

record pack_env =
  pe_init :: init_env
  pe_now :: time
  pe_uuid :: string
  pe_port :: "int option"
  pe_inspect :: "nat \<Rightarrow> inspection option"

definition pack_mark :: "ClusterJob \<Rightarrow> nat \<Rightarrow> Jobs \<Rightarrow> Containers \<Rightarrow> pack_result \<times> Jobs \<times> Containers" where
  "pack_mark nextJob a j p =
     (case MarkRunning j (cj_Id nextJob) (ct_id (cp_heap p a)) of
        (Some _, j1) \<Rightarrow> (PackFailed, j1, p)
      | (None, j1) \<Rightarrow> (PackStarted a nextJob, j1, p))"

definition pack_place :: "pack_env \<Rightarrow> int \<Rightarrow> int \<Rightarrow> ClusterJob \<Rightarrow> Jobs \<Rightarrow> Containers \<Rightarrow> pack_result \<times> Jobs \<times> Containers" where
  "pack_place pe cpu mem nextJob j p =
     (case FindFreeContainer (pe_inspect pe) (im_Alias (cj_Image nextJob)) p of
        (Inr a, p1) \<Rightarrow> pack_mark nextJob a j p1
      | (Inl err, p1) \<Rightarrow>
          if err = ErrAllOccupied \<or> err = ErrImageNotFound
          then
            (if im_MemoryBytesLimit (cj_Image nextJob) > mem \<or> im_NanoCPULimit (cj_Image nextJob) > cpu then (PackIdle, j, p1)
             else case AddFromImage (pe_init pe) (pe_now pe) (pe_uuid pe) (pe_port pe) (cj_Image nextJob) p1 of
               (Inl _, p2) \<Rightarrow> (PackFailed, j, p2)
             | (Inr a, p2) \<Rightarrow> pack_mark nextJob a j p2)
          else (PackFailed, j, p1))"

definition PackNextJob :: "pack_env \<Rightarrow> int \<Rightarrow> int \<Rightarrow> Jobs \<Rightarrow> Containers \<Rightarrow> pack_result \<times> Jobs \<times> Containers" where
  "PackNextJob pe maxCpu maxMem j p =
     (let (usedCpu, usedMem) = ActiveUtilization j;
          cpu = wrap64 (maxCpu - usedCpu);
          mem = wrap64 (maxMem - usedMem)
      in case NextBestJob j (AvailableImageNames (pe_inspect pe) p) cpu mem of
           (None, j1) \<Rightarrow> (PackIdle, j1, p)
         | (Some nextJob, j1) \<Rightarrow> pack_place pe cpu mem nextJob j1 p)"

text \<open>
  A container that AddFromImage made is launched by a goroutine (TrackedLaunch), a step \<open>launch_worker\<close> of the pool that runs beside
  the packer and leaves queue and pool untouched when the start succeeds. assignJob up to the wait; \<open>ready\<close> is the
  result of WaitUntilReady. The first result says whether the job runs.
\<close>

definition assign_start :: "container_error option \<Rightarrow> bool \<Rightarrow> time \<Rightarrow> nat \<Rightarrow> ClusterJob \<Rightarrow> Jobs \<Rightarrow> Containers \<Rightarrow> bool \<times> Jobs \<times> Containers" where
  "assign_start ready written now a job j p =
     (if ready \<noteq> None then (False, snd (RollbackJob j (cj_Id job)), set_con a (Release (cp_heap p a)) p)
      else case MarkRunning j (cj_Id job) (ct_id (cp_heap p a)) of
        (Some _, j1) \<Rightarrow> (False, snd (RollbackJob j1 (cj_Id job)), set_con a (Release (cp_heap p a)) p)
      | (None, j1) \<Rightarrow>
          (case Container_AssignJob written now (cj_Id job) (cp_heap p a) of
             (Some _, c1) \<Rightarrow> (False, snd (RollbackJob j1 (cj_Id job)), set_con a c1 p)
           | (None, c1) \<Rightarrow> (True, j1, set_con a c1 p)))"

text \<open>The rest of assignJob for a job that is not persistent: \<open>None\<close> while it waits, \<open>Some None\<close> when the send panics.\<close>

definition assign_finish :: "bool \<Rightarrow> time \<Rightarrow> nat \<Rightarrow> ClusterJob \<Rightarrow> Jobs \<Rightarrow> Containers \<Rightarrow> (Jobs \<times> Containers) option option" where
  "assign_finish cancelled now a job j p =
     (case WaitForJobResult cancelled (cp_heap p a) of
        None \<Rightarrow> None
      | Some (payload, c1) \<Rightarrow>
          let p1 = set_con a (snd (FreeJob now c1)) p in
          Some (map_option (\<lambda>(_, j1). (j1, p1)) (MarkCompleted j (cj_Id job) payload True)))"

subsection \<open>Health rules\<close>

datatype HealthAction = HealthContinue | HealthSkip | HealthDelete

type_synonym HealthRule = "nat \<Rightarrow> Container \<Rightarrow> Jobs \<Rightarrow> HealthAction"

definition HealthRuleUnresponsive :: "(nat \<Rightarrow> inspection option) \<Rightarrow> HealthRule" where
  "HealthRuleUnresponsive inspect a c j =
     (case Health (inspect a) c of
        Inl _ \<Rightarrow> HealthContinue
      | Inr health \<Rightarrow> if health = 0 \<or> health = 1 \<or> ct_state c = CReserved then HealthContinue else HealthDelete)"

definition HealthRuleTimedOut :: "time \<Rightarrow> HealthRule" where
  "HealthRuleTimedOut now a c j =
     (if im_Timeout (ct_image c) \<le> 0 then HealthContinue
      else if ct_totalJobs c > 0 \<and> ct_state c = CFree \<and> now - ct_lastStateChange c > wrap64 (1000000000 * im_Timeout (ct_image c))
      then HealthDelete else HealthContinue)"

definition HealthRuleExceededJobLimits :: HealthRule where
  "HealthRuleExceededJobLimits a c j =
     (if ct_totalJobs c > im_MaxJobs (ct_image c) \<and> ct_state c = CFree then HealthDelete else HealthContinue)"

definition HealthRuleNoMoreJobs :: "time \<Rightarrow> HealthRule" where
  "HealthRuleNoMoreJobs now a c j =
     (if ct_state c = CFree \<and> now - ct_lastStateChange c < 5000000000 \<and>
         (case map_of (PendingJobTypes j) (im_Alias (ct_image c)) of None \<Rightarrow> 0 | Some n \<Rightarrow> n) = 0
      then HealthDelete else HealthContinue)"

fun first_action :: "HealthRule list \<Rightarrow> nat \<Rightarrow> Container \<Rightarrow> Jobs \<Rightarrow> HealthAction" where
  "first_action [] a c j = HealthContinue"
| "first_action (rule # rules) a c j = (if rule a c j = HealthContinue then first_action rules a c j else rule a c j)"

text \<open>The action of the ForEach; it collects the identifiers to delete.\<close>

definition health_action :: "time \<Rightarrow> (nat \<Rightarrow> bool \<times> bool) \<Rightarrow> HealthRule list \<Rightarrow> nat \<Rightarrow> (string list \<times> Jobs) \<times> Containers \<Rightarrow>
    (bool \<times> (string list \<times> Jobs) \<times> Containers) option" where
  "health_action now rm rules a sp =
     (case sp of ((deleteIDs, j), p) \<Rightarrow>
        let c = cp_heap p a in
        if first_action rules a c j \<noteq> HealthDelete then Some (True, sp)
        else
          case (if ct_state c = CRunning then map_option snd (MarkCompleted j (ct_assignedJobID c) None False) else Some j) of
            None \<Rightarrow> None
          | Some j1 \<Rightarrow>
              map_option (\<lambda>(err, c1). (err = None, (deleteIDs @ [ct_id c], j1), set_con a c1 p)) (Cleanup now (fst (rm a)) (snd (rm a)) c))"

fun remove_all :: "(nat \<Rightarrow> bool \<times> bool) \<Rightarrow> string list \<Rightarrow> Containers \<Rightarrow> Containers option" where
  "remove_all rm [] p = Some p"
| "remove_all rm (key # keys) p =
     (case Remove rm p key of None \<Rightarrow> None | Some (_, p1) \<Rightarrow> remove_all rm keys p1)"

definition RunHealthRule :: "time \<Rightarrow> (nat \<Rightarrow> bool \<times> bool) \<Rightarrow> HealthRule list \<Rightarrow> Jobs \<Rightarrow> Containers \<Rightarrow> (bool \<times> Jobs \<times> Containers) option" where
  "RunHealthRule now rm rules j p =
     (case ForEach (health_action now rm rules) (([], j), p) of
        None \<Rightarrow> None
      | Some (False, (_, j1), p1) \<Rightarrow> Some (False, j1, p1)
      | Some (True, (deleteIDs, j1), p1) \<Rightarrow> map_option (\<lambda>p2. (True, j1, p2)) (remove_all rm deleteIDs p1))"

subsection \<open>The server\<close>

record ClusterServer =
  sv_nodeID :: string
  sv_nodeAddress :: string
  sv_totalCPU :: int
  sv_totalMemory :: int
  sv_lastContact :: time
  sv_jobQueue :: Jobs
  sv_containers :: Containers
  sv_images :: "Image list"

definition NewClusterServer :: "time \<Rightarrow> string \<Rightarrow> string \<Rightarrow> int \<Rightarrow> int \<Rightarrow> Jobs \<Rightarrow> Containers \<Rightarrow> Image list \<Rightarrow> ClusterServer" where
  "NewClusterServer now nodeID address cpu mem jq cp images =
     \<lparr>sv_nodeID = nodeID, sv_nodeAddress = address, sv_totalCPU = cpu, sv_totalMemory = mem, sv_lastContact = now,
      sv_jobQueue = jq, sv_containers = cp, sv_images = images\<rparr>"

text \<open>The interceptor of the unary calls.\<close>

definition contact :: "time \<Rightarrow> ClusterServer \<Rightarrow> ClusterServer" where
  "contact now s = s\<lparr>sv_lastContact := now\<rparr>"

definition reject :: "JobRequest \<Rightarrow> JobResponse" where
  "reject req = \<lparr>jres_JobId = jr_JobId req, jres_Accept = False, jres_AssignedNodeId = '''', jres_AssignedNodePort = ''''\<rparr>"

text \<open>AppendJob; \<open>ping\<close> says whether the Docker daemon answers. An empty payload arrives as nil.\<close>

definition Server_AppendJob :: "bool \<Rightarrow> JobRequest \<Rightarrow> ClusterServer \<Rightarrow> JobResponse \<times> ClusterServer" where
  "Server_AppendJob ping req s =
     (if \<not> ping then (reject req, s)
      else case List.find (\<lambda>img. im_Alias img = jr_ImageAlias req) (sv_images s) of
        None \<Rightarrow> (reject req, s)
      | Some targetImage \<Rightarrow>
          let job = NewJob (jr_JobId req) targetImage (jr_Priority req) (if jr_Payload req = [] then None else Some (jr_Payload req)) in
          case AddJob (sv_jobQueue s) job of
            (err, jq) \<Rightarrow>
              if err \<noteq> None \<and> err \<noteq> Some ErrAlreadyPending \<and> err \<noteq> Some ErrAlreadyRunning then (reject req, s\<lparr>sv_jobQueue := jq\<rparr>)
              else (\<lparr>jres_JobId = jr_JobId req, jres_Accept = True, jres_AssignedNodeId = sv_nodeID s,
                     jres_AssignedNodePort = sv_nodeAddress s\<rparr>, s\<lparr>sv_jobQueue := jq\<rparr>))"

definition ClusterStatus :: "ClusterServer \<Rightarrow> ClusterStatusResponse" where
  "ClusterStatus s =
     (let (usedCPU, usedMem) = QueueUtilization (sv_jobQueue s) in
      \<lparr>csr_NodeId = sv_nodeID s, csr_NodeAddress = sv_nodeAddress s, csr_TotalNanoCpu = sv_totalCPU s,
       csr_TotalMemoryBytes = sv_totalMemory s, csr_AvailableNanoCpu = wrap64 (sv_totalCPU s - usedCPU),
       csr_AvailableMemoryBytes = wrap64 (sv_totalMemory s - usedMem),
       csr_ActiveJobIds = map cj_Id (Jobs_ActiveJobs (sv_jobQueue s))\<rparr>)"

text \<open>The event ListJobs sends for a completed job.\<close>

definition status_event :: "ClusterJob \<Rightarrow> JobStatusResponse" where
  "status_event job =
     \<lparr>jsr_JobId = cj_Id job, jsr_Status = (if cj_Succeeded job then JOB_STATUS_COMPLETED else JOB_STATUS_FAILED),
      jsr_Priority = wrap32 (cj_Priority job), jsr_ImageAlias = im_Alias (cj_Image job), jsr_Payload = cj_Payload job\<rparr>"

text \<open>A tick of MonitorConnection.\<close>

definition MonitorConnection :: "time \<Rightarrow> (nat \<Rightarrow> bool \<times> bool) \<Rightarrow> ClusterServer \<Rightarrow> ClusterServer option" where
  "MonitorConnection now rm s =
     (if now - sv_lastContact s > 5000000000 \<and> Len (sv_containers s) \<noteq> 0
      then map_option (\<lambda>(_, cp). s\<lparr>sv_containers := cp\<rparr>) (DestroyAll rm (sv_containers s))
      else Some s)"

subsection \<open>The node loses no job\<close>

text \<open>What happens to the queue inside a node operation is a run of the queue on which nothing enters or leaves.\<close>

definition jobs_keeps :: "Jobs \<Rightarrow> Jobs \<Rightarrow> bool" where
  "jobs_keeps j j' \<longleftrightarrow> (\<forall>ins outs. jobs_run j ins outs \<longrightarrow> jobs_run j' ins outs)"

lemma keeps_refl [simp]: "jobs_keeps j j"
  by (simp add: jobs_keeps_def)

lemma keeps_trans: "jobs_keeps j j1 \<Longrightarrow> jobs_keeps j1 j2 \<Longrightarrow> jobs_keeps j j2"
  by (simp add: jobs_keeps_def)

lemma keeps_MarkRunning: "MarkRunning j k con = (e, j') \<Longrightarrow> jobs_keeps j j'"
  by (auto simp: jobs_keeps_def intro: run_running)

lemma keeps_Rollback: "jobs_keeps j (snd (RollbackJob j k))"
  by (cases "RollbackJob j k") (auto simp: jobs_keeps_def intro: run_rollback)

lemma keeps_MarkCompleted: "MarkCompleted j k payload b = Some (e, j') \<Longrightarrow> jobs_keeps j j'"
  by (auto simp: jobs_keeps_def intro: run_completed)

lemma keeps_Next: "NextBestJob j imgs c m = (r, j') \<Longrightarrow> jobs_keeps j j'"
  by (auto simp: jobs_keeps_def intro: run_next)

lemma keeps_pack_mark: "pack_mark job a j p = (r, j', p') \<Longrightarrow> jobs_keeps j j'"
  by (auto simp: pack_mark_def intro: keeps_MarkRunning split: prod.splits option.splits)

lemma keeps_pack_place: "pack_place pe cpu mem job j p = (r, j', p') \<Longrightarrow> jobs_keeps j j'"
  by (auto simp: pack_place_def dest: keeps_pack_mark split: prod.splits sum.splits if_splits)

lemma keeps_PackNextJob:
  assumes "PackNextJob pe maxCpu maxMem j p = (r, j', p')"
  shows "jobs_keeps j j'"
proof -
  obtain cpu mem where free: "cpu = wrap64 (maxCpu - fst (ActiveUtilization j))" "mem = wrap64 (maxMem - snd (ActiveUtilization j))" by blast
  obtain next_job j1 where n: "NextBestJob j (AvailableImageNames (pe_inspect pe) p) cpu mem = (next_job, j1)" by fastforce
  have "jobs_keeps j1 j'"
    using assms n free keeps_pack_place
    by (cases next_job) (auto simp: PackNextJob_def Let_def split: prod.splits)
  then show ?thesis using keeps_trans [OF keeps_Next [OF n]] by blast
qed

lemma keeps_assign_start: "assign_start ready written now a job j p = (b, j', p') \<Longrightarrow> jobs_keeps j j'"
  using keeps_trans [OF keeps_MarkRunning keeps_Rollback] keeps_MarkRunning keeps_Rollback
  by (auto simp: assign_start_def split: if_splits prod.splits option.splits)

lemma keeps_assign_finish: "assign_finish cancelled now a job j p = Some (Some (j', p')) \<Longrightarrow> jobs_keeps j j'"
  by (auto simp: assign_finish_def Let_def intro: keeps_MarkCompleted split: option.splits prod.splits)

lemma keeps_health_action:
  assumes "health_action now rm rules a ((ids, j), p) = Some (b, (ids', j'), p')"
  shows "jobs_keeps j j'"
  using assms by (auto simp: health_action_def Let_def intro: keeps_MarkCompleted split: if_splits option.splits prod.splits)

lemma keeps_each_health:
  "each_container (health_action now rm rules) as ((ids, j), p) = Some (b, (ids', j'), p') \<Longrightarrow> jobs_keeps j j'"
proof (induction "as" arbitrary: ids j p)
  case (Cons a as)
  then obtain b1 ids1 j1 p1 where one: "health_action now rm rules a ((ids, j), p) = Some (b1, (ids1, j1), p1)"
    by (cases "health_action now rm rules a ((ids, j), p)") auto
  have "jobs_keeps j1 j'" using Cons one by (cases b1) auto
  then show ?case using keeps_trans [OF keeps_health_action [OF one]] by blast
qed simp

lemma keeps_RunHealthRule: "RunHealthRule now rm rules j p = Some (b, j', p') \<Longrightarrow> jobs_keeps j j'"
  using keeps_each_health
  by (auto simp: RunHealthRule_def ForEach_def split: option.splits prod.splits bool.splits)

text \<open>
  Runs of a node, with the identifiers it newly accepted and those it streamed to the scheduler. Container
  workers (launching, rebuilding, results, the monitor of the scheduler connection) change only the pool, which may
  change in any way in these runs.
\<close>

definition request_job :: "JobRequest \<Rightarrow> Image \<Rightarrow> ClusterJob" where
  "request_job req img = NewJob (jr_JobId req) img (jr_Priority req) (if jr_Payload req = [] then None else Some (jr_Payload req))"

definition addable :: "Jobs \<Rightarrow> JobRequest \<Rightarrow> Image list \<Rightarrow> bool" where
  "addable j req imgs \<longleftrightarrow> active_job j (jr_JobId req) \<noteq> None \<or> queue_fresh cjob_ac (jq_pending j) (jr_JobId req) \<or>
     (\<exists>img. List.find (\<lambda>img. im_Alias img = jr_ImageAlias req) imgs = Some img \<and> pending_job j (jr_JobId req) = Some (request_job req img))"

definition known :: "Jobs \<Rightarrow> string \<Rightarrow> bool" where
  "known j k \<longleftrightarrow> pending_job j k \<noteq> None \<or> active_job j k \<noteq> None"

inductive node_run :: "ClusterServer \<Rightarrow> string multiset \<Rightarrow> string multiset \<Rightarrow> bool" where
  node_start: "node_run (NewClusterServer now key addr cpu mem CreateJobsQueue (CreateContainerHandler heap dir) imgs) {#} {#}"
| node_append: "node_run s ins outs \<Longrightarrow> addable (sv_jobQueue s) req (sv_images s) \<Longrightarrow>
    Server_AppendJob ping req (contact now s) = (resp, s') \<Longrightarrow>
    node_run s' (if jres_Accept resp \<and> \<not> known (sv_jobQueue s) (jr_JobId req) then add_mset (jr_JobId req) ins else ins) outs"
| node_pack: "node_run s ins outs \<Longrightarrow> PackNextJob pe maxCpu maxMem (sv_jobQueue s) (sv_containers s) = (r, j, p) \<Longrightarrow>
    node_run (s\<lparr>sv_jobQueue := j, sv_containers := p\<rparr>) ins outs"
| node_assign: "node_run s ins outs \<Longrightarrow> assign_start ready written now a job (sv_jobQueue s) (sv_containers s) = (b, j, p) \<Longrightarrow>
    node_run (s\<lparr>sv_jobQueue := j, sv_containers := p\<rparr>) ins outs"
| node_finish: "node_run s ins outs \<Longrightarrow> assign_finish cancelled now a job (sv_jobQueue s) (sv_containers s) = Some (Some (j, p)) \<Longrightarrow>
    node_run (s\<lparr>sv_jobQueue := j, sv_containers := p\<rparr>) ins outs"
| node_health: "node_run s ins outs \<Longrightarrow> RunHealthRule now rm rules (sv_jobQueue s) (sv_containers s) = Some (b, j, p) \<Longrightarrow>
    node_run (s\<lparr>sv_jobQueue := j, sv_containers := p\<rparr>) ins outs"
| node_pool: "node_run s ins outs \<Longrightarrow> node_run (s\<lparr>sv_containers := p\<rparr>) ins outs"
| node_clear: "node_run s ins outs \<Longrightarrow> ClearAllJobs (sv_jobQueue s) = Some j \<Longrightarrow> node_run (s\<lparr>sv_jobQueue := j\<rparr>) ins outs"
| node_stream: "node_run s ins outs \<Longrightarrow> StreamCompleted (sv_jobQueue s) = Some (job, j) \<Longrightarrow>
    node_run (s\<lparr>sv_jobQueue := j\<rparr>) ins (add_mset (cj_Id job) outs)"

lemma append_run:
  assumes run: "jobs_run (sv_jobQueue s) ins outs" and add: "addable (sv_jobQueue s) req (sv_images s)"
    and app: "Server_AppendJob ping req (contact now s) = (resp, s')"
  shows "jobs_run (sv_jobQueue s') (if jres_Accept resp \<and> \<not> known (sv_jobQueue s) (jr_JobId req) then add_mset (jr_JobId req) ins else ins) outs"
proof (cases "ping \<and> List.find (\<lambda>img. im_Alias img = jr_ImageAlias req) (sv_images s) \<noteq> None")
  case False
  then have "jres_Accept resp = False \<and> sv_jobQueue s' = sv_jobQueue s"
    using app by (cases ping) (simp_all add: Server_AppendJob_def reject_def contact_def, auto)
  then show ?thesis using run by simp
next
  case True
  then obtain img where img: "List.find (\<lambda>img. im_Alias img = jr_ImageAlias req) (sv_images s) = Some img" and ping by auto
  obtain err j where aj: "AddJob (sv_jobQueue s) (request_job req img) = (err, j)" by fastforce
  have err: "err = None \<or> err = Some ErrAlreadyRunning" using aj by (auto simp: AddJob_def split: if_splits)
  then have res: "jres_Accept resp" "sv_jobQueue s' = j"
    using app img \<open>ping\<close> aj by (auto simp: Server_AppendJob_def contact_def Let_def request_job_def)
  have key: "cj_Id (request_job req img) = jr_JobId req" by (simp add: request_job_def NewJob_def)
  have "jobs_run j (if err = None \<and> pending_job (sv_jobQueue s) (cj_Id (request_job req img)) = None
      then add_mset (cj_Id (request_job req img)) ins else ins) outs"
    by (rule run_add [OF run _ aj]) (use add img key in \<open>auto simp: addable_def\<close>)
  moreover have "err = None \<longleftrightarrow> active_job (sv_jobQueue s) (jr_JobId req) = None"
    using aj key by (auto simp: AddJob_def split: if_splits)
  ultimately show ?thesis using res key by (auto simp: known_def split: if_splits)
qed

lemma node_run_queue: "node_run s ins outs \<Longrightarrow> jobs_run (sv_jobQueue s) ins outs"
proof (induction rule: node_run.induct)
  case (node_append s ins outs req ping now resp s')
  then show ?case by (intro append_run)
next
  case (node_pack s ins outs pe maxCpu maxMem r j p)
  then show ?case using keeps_PackNextJob by (fastforce simp: jobs_keeps_def)
next
  case (node_assign s ins outs ready written now a job b j p)
  then show ?case using keeps_assign_start by (fastforce simp: jobs_keeps_def)
next
  case (node_finish s ins outs cancelled now a job j p)
  then show ?case using keeps_assign_finish by (fastforce simp: jobs_keeps_def)
next
  case (node_health s ins outs now rm rules b j p)
  then show ?case using keeps_RunHealthRule by (fastforce simp: jobs_keeps_def)
qed (auto simp: NewClusterServer_def intro: run_start run_clear run_stream)


text \<open>
  C9 (a node loses no job). In every run of a cluster node, with packing, assignment, health checks, completion, rollback and lost
  containers in any order, the jobs it accepted are exactly those it streamed to the scheduler together with those pending,
  active or waiting to be streamed, and no job is pending and active at once.
\<close>

theorem node_jobs_conserved:
  assumes "node_run s ins outs"
  shows "ins = outs + mset_set (dom (pending_job (sv_jobQueue s))) + mset_set (dom (active_job (sv_jobQueue s))) +
      mset (map cj_Id (jq_Completed (sv_jobQueue s))) \<and>
    dom (pending_job (sv_jobQueue s)) \<inter> dom (active_job (sv_jobQueue s)) = {}"
  by (rule queue_jobs_conserved [OF node_run_queue [OF assms]])

definition demo_node :: ClusterServer where
  "demo_node = NewClusterServer 0 ''n'' '':1'' 8 16 CreateJobsQueue (CreateContainerHandler (\<lambda>_. demo_container) ''jobs'') [demo_image]"

definition demo_job_request :: JobRequest where
  "demo_job_request = \<lparr>jr_JobId = ''a'', jr_RequiredNanoCpu = 2, jr_RequiredMemoryBytes = 4, jr_ImageAlias = ''py'', jr_Priority = 1, jr_Payload = []\<rparr>"

theorem node_jobs_conserved_witness:
  "\<exists>s. node_run s {#''a''#} {#} \<and> pending_job (sv_jobQueue s) ''a'' \<noteq> None"
proof -
  obtain resp s where app: "Server_AppendJob True demo_job_request (contact 1 demo_node) = (resp, s)" by fastforce
  have add: "addable (sv_jobQueue demo_node) demo_job_request (sv_images demo_node)"
    by (simp add: addable_def demo_node_def NewClusterServer_def CreateJobsQueue_def NewQueue_def queue_fresh_def)
  have "jres_Accept (fst (Server_AppendJob True demo_job_request (contact 1 demo_node)))" by code_simp
  then have "jres_Accept resp" using app by simp
  moreover have "\<not> known (sv_jobQueue demo_node) ''a''"
    by (simp add: known_def demo_node_def NewClusterServer_def CreateJobsQueue_def NewQueue_def)
  ultimately have run: "node_run s {#''a''#} {#}"
    using node_append [OF node_start [of 0 "''n''" "'':1''" 8 16 "\<lambda>_. demo_container" "''jobs''" "[demo_image]", folded demo_node_def] add app]
    by (simp add: demo_job_request_def)
  have "map cj_Id (jq_Completed (sv_jobQueue (snd (Server_AppendJob True demo_job_request (contact 1 demo_node))))) = []"
    "dom (active_job (sv_jobQueue (snd (Server_AppendJob True demo_job_request (contact 1 demo_node))))) = {}"
    by (simp_all add: Server_AppendJob_def demo_node_def demo_job_request_def contact_def NewClusterServer_def CreateJobsQueue_def NewQueue_def
        AddJob_def NewJob_def demo_image_def Let_def)
  then have "mset_set (dom (pending_job (sv_jobQueue s))) = {#''a''#}"
    using node_jobs_conserved [OF run] app by simp
  then have "''a'' \<in># mset_set (dom (pending_job (sv_jobQueue s)))" by simp
  then show ?thesis using run by (auto simp: finite_dom_map_of)
qed

subsection \<open>Placing a job\<close>

text \<open>How PackNextJob gets a container for an image: it finds a free one or, when the search failed, adds one.\<close>

definition acquires :: "pack_env \<Rightarrow> Image \<Rightarrow> Containers \<Rightarrow> nat \<Rightarrow> Containers \<Rightarrow> bool" where
  "acquires pe im p a p' \<longleftrightarrow> FindFreeContainer (pe_inspect pe) (im_Alias im) p = (Inr a, p') \<or>
     (\<exists>x p1. FindFreeContainer (pe_inspect pe) (im_Alias im) p = (Inl x, p1) \<and>
        AddFromImage (pe_init pe) (pe_now pe) (pe_uuid pe) (pe_port pe) im p1 = (Inr a, p'))"

lemma acquires_twice:
  assumes "pool_inv p" "acquires pe im p a p1" "acquires pe' im' p1 b p2"
  shows "a \<noteq> b \<and> ct_state (cp_heap p2 a) = CReserved \<and> ct_state (cp_heap p2 b) = CReserved"
proof -
  let ?e = "\<lambda>pe. (pe_init pe, pe_now pe, pe_uuid pe, pe_port pe)"
  from assms(2) obtain x q where one: "FindFreeContainer (pe_inspect pe) (im_Alias im) p = (Inr a, p1) \<or>
      FindFreeContainer (pe_inspect pe) (im_Alias im) p = (Inl x, q) \<and>
      (case ?e pe of (env, now, uuid, port) \<Rightarrow> AddFromImage env now uuid port) im q = (Inr a, p1)"
    by (auto simp: acquires_def)
  from assms(3) obtain x' q' where "FindFreeContainer (pe_inspect pe') (im_Alias im') p1 = (Inr b, p2) \<or>
      FindFreeContainer (pe_inspect pe') (im_Alias im') p1 = (Inl x', q') \<and>
      (case ?e pe' of (env, now, uuid, port) \<Rightarrow> AddFromImage env now uuid port) im' q' = (Inr b, p2)"
    by (auto simp: acquires_def)
  from cp.acquire_twice [OF assms(1) one this] show ?thesis .
qed

text \<open>What a successful PackNextJob did: it chose a job, got a container for its image, and marked the job running there.\<close>

lemma PackStarted_cases:
  assumes "PackNextJob pe maxCpu maxMem j p = (PackStarted a job, j', p')"
  obtains imgs cpu mem j1 where "NextBestJob j imgs cpu mem = (Some job, j1)" "acquires pe (cj_Image job) p a p'"
    "MarkRunning j1 (cj_Id job) (ct_id (cp_heap p' a)) = (None, j')"
proof -
  have mark: "nj = job \<and> b = a \<and> q = p' \<and> MarkRunning j1 (cj_Id job) (ct_id (cp_heap p' a)) = (None, j')"
    if "pack_mark nj b j1 q = (PackStarted a job, j', p')" for nj b j1 q
    using that by (auto simp: pack_mark_def split: prod.splits option.splits)
  define cpu mem where "cpu = wrap64 (maxCpu - fst (ActiveUtilization j))" and "mem = wrap64 (maxMem - snd (ActiveUtilization j))"
  obtain r j1 where n: "NextBestJob j (AvailableImageNames (pe_inspect pe) p) cpu mem = (r, j1)" by fastforce
  with assms obtain nj where r: "r = Some nj" and place: "pack_place pe cpu mem nj j1 p = (PackStarted a job, j', p')"
    by (cases r) (auto simp: PackNextJob_def Let_def cpu_def mem_def split: prod.splits)
  obtain fr p1 where f: "FindFreeContainer (pe_inspect pe) (im_Alias (cj_Image nj)) p = (fr, p1)" by fastforce
  obtain b q where m: "pack_mark nj b j1 q = (PackStarted a job, j', p')" and got: "acquires pe (cj_Image nj) p b q"
  proof (cases fr)
    case (Inr b)
    then show thesis using that [of b p1] place f by (simp add: pack_place_def acquires_def)
  next
    case (Inl x)
    obtain ar p2 where ad: "AddFromImage (pe_init pe) (pe_now pe) (pe_uuid pe) (pe_port pe) (cj_Image nj) p1 = (ar, p2)" by fastforce
    then show thesis using that [of _ p2] place f Inl
      by (cases ar) (auto simp: pack_place_def acquires_def split: if_splits)
  qed
  then show thesis using that [of _ cpu mem j1] mark [OF m] n r by simp
qed

text \<open>
  C11 (jobs do not share a container). Two jobs that PackNextJob places one after the other are different jobs in different
  containers: both containers are reserved, and each job is active and marked with the container it was placed in.
\<close>

theorem packed_jobs_apart:
  assumes inv: "jobs_inv j" "pool_inv p"
    and one: "PackNextJob pe maxCpu maxMem j p = (PackStarted a job, j1, p1)"
    and two: "PackNextJob pe' maxCpu' maxMem' j1 p1 = (PackStarted b job', j2, p2)"
  shows "a \<noteq> b \<and> cj_Id job \<noteq> cj_Id job' \<and> ct_state (cp_heap p2 a) = CReserved \<and> ct_state (cp_heap p2 b) = CReserved \<and>
    map_option cj_AssignedContainerID (active_job j2 (cj_Id job)) = Some (ct_id (cp_heap p1 a)) \<and>
    map_option cj_AssignedContainerID (active_job j2 (cj_Id job')) = Some (ct_id (cp_heap p2 b))"
proof -
  obtain imgs cpu mem j0 where n1: "NextBestJob j imgs cpu mem = (Some job, j0)" and f1: "acquires pe (cj_Image job) p a p1"
    and m1: "MarkRunning j0 (cj_Id job) (ct_id (cp_heap p1 a)) = (None, j1)"
    by (rule PackStarted_cases [OF one])
  obtain imgs' cpu' mem' j3 where n2: "NextBestJob j1 imgs' cpu' mem' = (Some job', j3)" and f2: "acquires pe' (cj_Image job') p1 b p2"
    and m2: "MarkRunning j3 (cj_Id job') (ct_id (cp_heap p2 b)) = (None, j2)"
    by (rule PackStarted_cases [OF two])
  have ids: "cj_Id job \<noteq> cj_Id job'" by (rule jq.next_twice_distinct [OF inv(1) n1 m1 n2])
  note s1 = jq.next_some [OF inv(1) n1]
  have r1: "jobs_inv j1" "active_job j1 (cj_Id job) = Some (job\<lparr>cj_AssignedContainerID := ct_id (cp_heap p1 a)\<rparr>)"
    using jq.running_active [OF _ _ m1] s1 by auto
  note s2 = jq.next_some [OF r1(1) n2]
  then have "active_job j3 (cj_Id job') = Some (job'\<lparr>cj_AssignedContainerID := ''packing-in-progress''\<rparr>)" by simp
  note r2 = jq.running_active [OF conjunct1 [OF s2] this m2]
  show ?thesis using acquires_twice [OF inv(2) f1 f2] ids r1(2) s2 r2 by simp
qed

definition demo_pe2 :: pack_env where
  "demo_pe2 = \<lparr>pe_init = demo_env, pe_now = 1, pe_uuid = ''v'', pe_port = Some 8, pe_inspect = demo_inspect\<rparr>"

lemma demo_pool_inv: "pool_inv demo_pool"
proof -
  have "cp_Containers demo_pool = [0]" "cp_next demo_pool = 1" by code_simp+
  then show ?thesis by (simp add: pool_inv_def)
qed

lemma demo_pack_started:
  "\<exists>job j p. PackNextJob demo_pe2 8 16 demo_jobs demo_pool = (PackStarted 0 job, j, p) \<and> cj_Id job = ''a''"
proof -
  obtain r j p where one: "PackNextJob demo_pe2 8 16 demo_jobs demo_pool = (r, j, p)" by (rule prod_cases3)
  have "case fst (PackNextJob demo_pe2 8 16 demo_jobs demo_pool) of PackStarted a job \<Rightarrow> a = 0 \<and> cj_Id job = ''a'' | _ \<Rightarrow> False" by code_simp
  then show ?thesis using one by (auto split: pack_result.splits)
qed

theorem packed_jobs_apart_witness:
  "\<exists>job j1 p1 job' j2 p2. PackNextJob demo_pe2 8 16 demo_jobs demo_pool = (PackStarted 0 job, j1, p1) \<and>
     PackNextJob demo_pe2 8 16 j1 p1 = (PackStarted 1 job', j2, p2) \<and> cj_Id job \<noteq> cj_Id job' \<and> ct_state (cp_heap p2 0) = CReserved"
proof -
  obtain job j1 p1 where one: "PackNextJob demo_pe2 8 16 demo_jobs demo_pool = (PackStarted 0 job, j1, p1)" using demo_pack_started by blast
  obtain r j2 p2 where two: "PackNextJob demo_pe2 8 16 j1 p1 = (r, j2, p2)" by (rule prod_cases3)
  have "case PackNextJob demo_pe2 8 16 demo_jobs demo_pool of (_, j1, p1) \<Rightarrow>
     (case fst (PackNextJob demo_pe2 8 16 j1 p1) of PackStarted b job' \<Rightarrow> b = 1 | _ \<Rightarrow> False)" by code_simp
  then obtain job' where r: "r = PackStarted 1 job'" using one two by (auto split: pack_result.splits)
  show ?thesis using packed_jobs_apart [OF demo_jobs_inv demo_pool_inv one two [unfolded r]] one two r by blast
qed

lemma placed_job_finishes:
  assumes inv: "jobs_inv j" and op: "\<not> jq_closed j"
    and pack: "PackNextJob pe maxCpu maxMem j p = (PackStarted a job, j1, p1)"
    and start: "assign_start None written now a job j1 p1 = (True, j2, p2)"
    and tick: "results_tick valid es (cp_heap p2 a) = Some (err, c)" "ct_results c = r # rest"
  shows "\<exists>j3 p3. assign_finish False now' a job j2 (set_con a c p2) = Some (Some (j3, p3)) \<and>
    jq_Completed j3 = jq_Completed j @
      [job\<lparr>cj_AssignedContainerID := ct_id (cp_heap p1 a), cj_Payload := Some r, cj_Succeeded := True\<rparr>] \<and>
    pending_job j3 = (pending_job j)(cj_Id job := None) \<and> active_job j3 = active_job j \<and>
    ct_state (cp_heap p3 a) = CFree \<and> ct_assignedJobID (cp_heap p3 a) = '''' \<and> ct_results (cp_heap p3 a) = rest"
proof -
  obtain imgs cpu mem j0 where n: "NextBestJob j imgs cpu mem = (Some job, j0)"
    and m1: "MarkRunning j0 (cj_Id job) (ct_id (cp_heap p1 a)) = (None, j1)"
    by (rule PackStarted_cases [OF pack])
  from start obtain c1 where m2: "MarkRunning j1 (cj_Id job) (ct_id (cp_heap p1 a)) = (None, j2)"
    and as: "Container_AssignJob written now (cj_Id job) (cp_heap p1 a) = (None, c1)" and p2: "p2 = set_con a c1 p1"
    by (auto simp: assign_start_def split: prod.splits option.splits)
  have docker: "ct_dockerID c \<noteq> ''''"
    using as results_tick_docker [OF tick(1)] by (auto simp: p2 set_con_def Container_AssignJob_def split: if_splits)
  obtain j3 where fin: "MarkCompleted j2 (cj_Id job) (Some r) True = Some (None, j3)"
    and j3: "pending_job j3 = (pending_job j)(cj_Id job := None)" "active_job j3 = active_job j"
      "jq_Completed j3 = jq_Completed j @
        [job\<lparr>cj_AssignedContainerID := ct_id (cp_heap p1 a), cj_Payload := Some r, cj_Succeeded := True\<rparr>]"
    using jq.place_complete [OF inv n m1 m2 op, of "Some r" True] by blast
  have "assign_finish False now' a job j2 (set_con a c p2) =
      Some (Some (j3, set_con a (snd (FreeJob now' (c\<lparr>ct_results := rest\<rparr>))) (set_con a c p2)))"
    using tick(2) fin by (simp add: assign_finish_def WaitForJobResult_def set_con_def)
  then show ?thesis using j3 docker by (simp add: set_con_def FreeJob_def)
qed


definition demo_entry :: dir_entry where
  "demo_entry = \<lparr>de_regular = True, de_json = True, de_attempt = (\<lambda>_. (True, Some [], True)), de_removed = True\<rparr>"


text \<open>
  C12 (a failed placement puts the job back). When the container of a placed job does not become ready, assignJob gives the job
  back: the pending, active and completed jobs are those from before PackNextJob, with the container of the job cleared,
  and the container is free for other jobs.
\<close>

theorem failed_placement_requeues:
  assumes inv: "jobs_inv j" and pack: "PackNextJob pe maxCpu maxMem j p = (PackStarted a job, j1, p1)"
    and start: "assign_start (Some err) written now a job j1 p1 = (b, j2, p2)"
  shows "\<not> b \<and> jobs_inv j2 \<and> active_job j2 = active_job j \<and> jq_Completed j2 = jq_Completed j \<and>
    pending_job j2 = (pending_job j)(cj_Id job \<mapsto> job\<lparr>cj_AssignedContainerID := ''''\<rparr>) \<and>
    pending_job j (cj_Id job) = Some job \<and> ct_state (cp_heap p2 a) = CFree"
proof -
  obtain imgs cpu mem j0 where n: "NextBestJob j imgs cpu mem = (Some job, j0)"
    and m: "MarkRunning j0 (cj_Id job) (ct_id (cp_heap p1 a)) = (None, j1)"
    by (rule PackStarted_cases [OF pack])
  obtain e j3 where r: "RollbackJob j1 (cj_Id job) = (e, j3)" by fastforce
  then have "\<not> b" "j2 = j3" "p2 = set_con a (Release (cp_heap p1 a)) p1" using start by (simp_all add: assign_start_def)
  then show ?thesis using jq.place_rollback [OF inv n m r] jq.next_some [OF inv n] by (simp add: set_con_def Release_def)
qed

theorem failed_placement_requeues_witness:
  "\<exists>job j1 p1 j2 p2. PackNextJob demo_pe2 8 16 demo_jobs demo_pool = (PackStarted 0 job, j1, p1) \<and>
     assign_start (Some WaitTimeout) True 1 0 job j1 p1 = (False, j2, p2) \<and> active_job j2 = active_job demo_jobs \<and>
     ct_state (cp_heap p2 0) = CFree"
proof -
  obtain job j1 p1 where one: "PackNextJob demo_pe2 8 16 demo_jobs demo_pool = (PackStarted 0 job, j1, p1)" using demo_pack_started by blast
  obtain b j2 p2 where start: "assign_start (Some WaitTimeout) True 1 0 job j1 p1 = (b, j2, p2)" by (rule prod_cases3)
  show ?thesis using failed_placement_requeues [OF demo_jobs_inv one start] one start by auto
qed

subsection \<open>Errors of the node\<close>

text \<open>
  C39 (a packing error strands the job). When a container of the job's image is occupied and one of another image is free,
  FindFreeContainer reports neither of the errors PackNextJob expects: PackNextJob gives up, and the job it has already
  moved to active stays there with no container and nobody to roll it back.
\<close>

theorem packing_error_strands_job:
  assumes inv: "jobs_inv j"
    and n: "NextBestJob j (AvailableImageNames (pe_inspect pe) p) (wrap64 (maxCpu - fst (ActiveUtilization j)))
        (wrap64 (maxMem - snd (ActiveUtilization j))) = (Some job, j1)"
    and none: "\<forall>a\<in>set (cp_Containers p). Container_Running (pe_inspect pe a) (cp_heap p a) = Inr True \<longrightarrow>
        im_Alias (ct_image (cp_heap p a)) = im_Alias (cj_Image job) \<longrightarrow> ct_state (cp_heap p a) \<noteq> CFree"
    and occ: "a \<in> set (cp_Containers p)" "Container_Running (pe_inspect pe a) (cp_heap p a) = Inr True"
      "im_Alias (ct_image (cp_heap p a)) = im_Alias (cj_Image job)"
    and free: "b \<in> set (cp_Containers p)" "Container_Running (pe_inspect pe b) (cp_heap p b) = Inr True" "ct_state (cp_heap p b) = CFree"
  shows "PackNextJob pe maxCpu maxMem j p = (PackFailed, j1, p) \<and>
    active_job j1 (cj_Id job) = Some (job\<lparr>cj_AssignedContainerID := ''packing-in-progress''\<rparr>) \<and> pending_job j1 (cj_Id job) = None"
proof -
  obtain r p' where f: "FindFreeContainer (pe_inspect pe) (im_Alias (cj_Image job)) p = (r, p')" by fastforce
  have "r = Inl (NoContainer (im_Alias (cj_Image job))) \<and> p' = p"
    using find_free_spec [OF f [unfolded FindFreeContainer_def]] none occ free
    by (cases r) (auto simp: running_def split: if_splits)
  then have "PackNextJob pe maxCpu maxMem j p = (PackFailed, j1, p)"
    using n f by (simp add: PackNextJob_def pack_place_def Let_def case_prod_beta)
  then show ?thesis using NextBestJob_spec [OF inv n] by simp
qed

definition demo_pool2 :: Containers where
  "demo_pool2 = \<lparr>cp_heap = (\<lambda>a. if a = 0 then demo_container\<lparr>ct_state := CRunning\<rparr>
       else demo_container\<lparr>ct_id := ''c1'', ct_state := CFree, ct_image := demo_image\<lparr>im_Alias := ''js''\<rparr>\<rparr>),
     cp_next = 2, cp_Containers = [0, 1], cp_streamOpen = True, cp_payloadDir = ''jobs''\<rparr>"

definition demo_pe :: pack_env where
  "demo_pe = \<lparr>pe_init = demo_env, pe_now = 0, pe_uuid = ''u'', pe_port = None, pe_inspect = demo_inspect\<rparr>"

theorem packing_error_strands_job_witness:
  "\<exists>job j1. PackNextJob demo_pe 2 4 demo_jobs demo_pool2 = (PackFailed, j1, demo_pool2) \<and> cj_Id job = ''a'' \<and>
     active_job j1 ''a'' = Some (job\<lparr>cj_AssignedContainerID := ''packing-in-progress''\<rparr>)"
proof -
  let ?free = "AvailableImageNames (pe_inspect demo_pe) demo_pool2"
  obtain r j1 where n: "NextBestJob demo_jobs ?free (wrap64 (2 - fst (ActiveUtilization demo_jobs)))
      (wrap64 (4 - snd (ActiveUtilization demo_jobs))) = (r, j1)" by fastforce
  have "map_option (\<lambda>j. (cj_Id j, im_Alias (cj_Image j))) (fst (NextBestJob demo_jobs ?free (wrap64 (2 - fst (ActiveUtilization demo_jobs)))
      (wrap64 (4 - snd (ActiveUtilization demo_jobs))))) = Some (''a'', ''py'')" by code_simp
  then obtain job where r: "r = Some job" and key: "cj_Id job = ''a''" "im_Alias (cj_Image job) = ''py''" using n by auto
  have heap: "Container_Running (pe_inspect demo_pe a) (cp_heap demo_pool2 a) = Inr True" if "a = 0 \<or> a = 1" for a
    using that by (elim disjE; hypsubst; code_simp)
  have st: "ct_state (cp_heap demo_pool2 0) = CRunning" "im_Alias (ct_image (cp_heap demo_pool2 0)) = ''py''"
    "ct_state (cp_heap demo_pool2 1) = CFree" "im_Alias (ct_image (cp_heap demo_pool2 1)) = ''js''" by code_simp+
  have "cp_Containers demo_pool2 = [0, 1]" by (simp add: demo_pool2_def)
  then show ?thesis
    using packing_error_strands_job [OF demo_jobs_inv n [unfolded r], of 0 1] heap st key by auto
qed


text \<open>
  A lost container reports success. When the container of a running job is deleted without completing the job, as
  DestroyAll does after five seconds without the scheduler, the closed result channel wakes the waiting assignJob with an
  empty result, and the job is reported as succeeded.
\<close>

lemma lost_container_reports_success:
  assumes del: "Container_Delete removed folder (cp_heap p a) = Some (None, c)" and empty: "ct_results (cp_heap p a) = []"
    and act: "active_job j (cj_Id job) = Some job'" and "open": "\<not> jq_closed j"
  shows "\<exists>j' p'. assign_finish False now a job j (set_con a c p) = Some (Some (j', p')) \<and>
    jq_Completed j' = jq_Completed j @ [job'\<lparr>cj_Payload := None, cj_Succeeded := True\<rparr>] \<and> active_job j' (cj_Id job) = None"
proof -
  have "ct_resultsClosed c" "ct_results c = []"
    using Delete_closes [OF del] del empty by (auto simp: Container_Delete_def Let_def split: if_splits)
  then show ?thesis
    using act "open" by (simp add: assign_finish_def WaitForJobResult_def set_con_def MarkCompleted_def mark_take_def send_completed_def)
qed

lemma lost_container_reports_success_example:
  "\<exists>c j' p'. Container_Delete True True (cp_heap demo_pool2 0) = Some (None, c) \<and>
     assign_finish False 1 0 (NewJob ''a'' demo_image 1 None) (activate (NewJob ''a'' demo_image 1 None) CreateJobsQueue) (set_con 0 c demo_pool2) =
       Some (Some (j', p')) \<and> map cj_Succeeded (jq_Completed j') = [True]"
proof -
  let ?job = "NewJob ''a'' demo_image 1 None"
  let ?j = "activate ?job CreateJobsQueue"
  have "case Container_Delete True True (cp_heap demo_pool2 0) of Some (None, c) \<Rightarrow> True | _ \<Rightarrow> False" by code_simp
  then obtain c where d: "Container_Delete True True (cp_heap demo_pool2 0) = Some (None, c)" by (auto split: option.splits prod.splits)
  have e: "ct_results (cp_heap demo_pool2 0) = []" by code_simp
  have a: "active_job ?j (cj_Id ?job) = Some (?job\<lparr>cj_AssignedContainerID := ''packing-in-progress''\<rparr>)"
    by (simp add: activate_def CreateJobsQueue_def)
  have o1: "\<not> jq_closed ?j" by (simp add: activate_def CreateJobsQueue_def)
  have o2: "jq_Completed ?j = []" by (simp add: activate_def CreateJobsQueue_def)
  show ?thesis using lost_container_reports_success [OF d e a o1, of 1] d o2 by auto
qed

text \<open>assignJob rolls the job back when the payload cannot be written but does not release the container.\<close>

lemma failed_assign_keeps_reservation:
  assumes "active_job j (cj_Id job) \<noteq> None" "ct_dockerID (cp_heap p a) \<noteq> ''''" "ct_state (cp_heap p a) = CReserved"
    and "assign_start None False now a job j p = (b, j', p')"
  shows "\<not> b \<and> ct_state (cp_heap p' a) = CReserved"
  using assms by (auto simp: assign_start_def MarkRunning_def Container_AssignJob_def set_con_def split: option.splits)

text \<open>The rule for images without pending jobs spares every container that has been free for five seconds or more.\<close>

lemma idle_container_kept: "now - ct_lastStateChange c \<ge> 5000000000 \<Longrightarrow> HealthRuleNoMoreJobs now a c j = HealthContinue"
  by (simp add: HealthRuleNoMoreJobs_def)

text \<open>A container without a healthcheck is reported as an error and so never listed as available, although it runs.\<close>

lemma no_healthcheck_unavailable:
  assumes "ct_dockerID c \<noteq> ''''" "in_Running data" "in_Health data = None"
  shows "Health (Some data) c = Inl NoHealthcheck" "is_ready data"
  using assms by (simp_all add: Health_def is_ready_def)

end
