(* ===== verification/SystemRun.thy ===== *)
theory SystemRun
  imports SchedConns ClusterNode
begin

section \<open>A scheduler with its cluster nodes\<close>

text \<open>
  The composition of a scheduler, any number of cluster nodes, the channel between a node's queue and its status stream, and
  the streams themselves. A dispatch is two steps, because DispatchJob updates the state only after the call: the node takes the
  request, and some time later AssignJob runs. Events get lost where the code loses them: when Send fails, the job has already been taken off
  the channel, and what was sent but not received is gone when a stream breaks.
\<close>

subsection \<open>ListJobs of the node (cluster/service/state.go)\<close>

text \<open>
  The loop of ListJobs on the channel: the client is gone, the channel is closed, or a job is taken and its event sent or not.
  Its result, the events it sent, and the rest of the channel.
\<close>

datatype list_event = ListDone | ListClose | ListTake bool

datatype list_result = ListWaits | ListCancelled | ListClosed | ListSendError

fun Server_ListJobs :: "list_event list \<Rightarrow> ClusterJob list \<Rightarrow> list_result \<times> JobStatusResponse list \<times> ClusterJob list" where
  "Server_ListJobs [] ch = (ListWaits, [], ch)"
| "Server_ListJobs (ListDone # events) ch = (ListCancelled, [], ch)"
| "Server_ListJobs (ListClose # events) ch = (ListClosed, [], ch)"
| "Server_ListJobs (ListTake sent # events) [] = (ListWaits, [], [])"
| "Server_ListJobs (ListTake sent # events) (job # ch) =
     (if \<not> sent then (ListSendError, [], ch)
      else case Server_ListJobs events ch of (r, out, rest) \<Rightarrow> (r, status_event job # out, rest))"

text \<open>Every job leaves the channel as an event, in order; only the one whose Send failed is lost.\<close>

lemma Server_ListJobs_order:
  assumes "Server_ListJobs events ch = (r, out, rest)"
  shows "if r = ListSendError then \<exists>job. map status_event ch = out @ status_event job # map status_event rest
    else map status_event ch = out @ map status_event rest"
  using assms by (induction events ch arbitrary: out rest rule: Server_ListJobs.induct) (auto split: if_splits prod.splits)

subsection \<open>The steps of the system\<close>

record System =
  sy_sched :: CentralState
  sy_node :: "string \<Rightarrow> ClusterServer"
  sy_status :: "string \<Rightarrow> ClusterJob list"
  sy_wire :: "string \<Rightarrow> JobStatusResponse list"
  sy_calls :: "(string \<times> string) list"
  sy_ins :: "string \<Rightarrow> string multiset"
  sy_heard :: "string \<Rightarrow> JobStatusResponse list"
  sy_lost :: "string \<Rightarrow> JobStatusResponse list"

text \<open>
  \<open>sy_calls\<close> has the accepted dispatches whose AssignJob has not run yet. The last three fields are history: the jobs a node has newly
  accepted, the events the scheduler has received from it, and those that got lost.
\<close>

inductive sched_local :: "CentralState \<Rightarrow> CentralState \<Rightarrow> bool" where
  local_append: "new_to s (job_Id j) a \<Longrightarrow> job_Response j = None \<Longrightarrow> sched_local s (AppendJob (set_job a j s) a)"
| local_claim: "NextPendingJob s c m = (r, s') \<Longrightarrow> sched_local s s'"
| local_unassign: "sched_local s (UnassignJob s k)"
| local_purge: "sched_local s (PurgeJob s k)"
| local_read: "sched_local s (snd (QueueFreeCompletedJob now s k))"
| local_same: "same_jobs s s' \<Longrightarrow> sched_local s s'"

inductive node_local :: "ClusterServer \<Rightarrow> ClusterServer \<Rightarrow> bool" where
  local_pack: "PackNextJob pe maxCpu maxMem (sv_jobQueue s) (sv_containers s) = (r, j, p) \<Longrightarrow> node_local s (s\<lparr>sv_jobQueue := j, sv_containers := p\<rparr>)"
| local_assign: "assign_start ready written now a job (sv_jobQueue s) (sv_containers s) = (b, j, p) \<Longrightarrow>
    node_local s (s\<lparr>sv_jobQueue := j, sv_containers := p\<rparr>)"
| local_finish: "assign_finish cancelled now a job (sv_jobQueue s) (sv_containers s) = Some (Some (j, p)) \<Longrightarrow>
    node_local s (s\<lparr>sv_jobQueue := j, sv_containers := p\<rparr>)"
| local_health: "RunHealthRule now rm rules (sv_jobQueue s) (sv_containers s) = Some (b, j, p) \<Longrightarrow>
    node_local s (s\<lparr>sv_jobQueue := j, sv_containers := p\<rparr>)"
| local_pool: "node_local s (s\<lparr>sv_containers := p\<rparr>)"
| local_clear: "ClearAllJobs (sv_jobQueue s) = Some j \<Longrightarrow> node_local s (s\<lparr>sv_jobQueue := j\<rparr>)"

lemma node_local_run: "node_local s s' \<Longrightarrow> node_run s ins outs \<Longrightarrow> node_run s' ins outs"
  by (induction rule: node_local.induct)
    (blast intro: node_run.node_pack node_run.node_assign node_run.node_finish node_run.node_health node_run.node_pool node_run.node_clear)+

text \<open>The answer to a dispatch may get lost (\<open>answered\<close>); then the scheduler does not call AssignJob.\<close>

inductive sys_step :: "System \<Rightarrow> System \<Rightarrow> bool" where
  sys_sched: "sched_local (sy_sched S) s' \<Longrightarrow> sys_step S (S\<lparr>sy_sched := s'\<rparr>)"
| sys_dispatch: "claimed (sy_sched S) a \<Longrightarrow> dispatchable (ss_jobHeap (sy_sched S) a) \<Longrightarrow> req = dispatch_request (ss_jobHeap (sy_sched S) a) \<Longrightarrow>
    addable (sv_jobQueue (sy_node S n)) req (sv_images (sy_node S n)) \<Longrightarrow>
    Server_AppendJob ping req (contact now (sy_node S n)) = (resp, node') \<Longrightarrow>
    sys_step S (S\<lparr>sy_node := (sy_node S)(n := node'),
      sy_ins := (sy_ins S)(n := (if jres_Accept resp \<and> \<not> known (sv_jobQueue (sy_node S n)) (jr_JobId req)
        then add_mset (jr_JobId req) (sy_ins S n) else sy_ins S n)),
      sy_calls := (if jres_Accept resp \<and> answered then (jr_JobId req, n) # sy_calls S else sy_calls S)\<rparr>)"
| sys_assign: "(k, n) \<in> set (sy_calls S) \<Longrightarrow>
    sys_step S (S\<lparr>sy_sched := snd (AssignJob (sy_sched S) k n), sy_calls := remove1 (k, n) (sy_calls S)\<rparr>)"
| sys_node: "node_local (sy_node S n) node' \<Longrightarrow> sys_step S (S\<lparr>sy_node := (sy_node S)(n := node')\<rparr>)"
| sys_complete: "StreamCompleted (sv_jobQueue (sy_node S n)) = Some (job, j) \<Longrightarrow> length (sy_status S n) < 100 \<Longrightarrow>
    sys_step S (S\<lparr>sy_node := (sy_node S)(n := (sy_node S n)\<lparr>sv_jobQueue := j\<rparr>), sy_status := (sy_status S)(n := sy_status S n @ [job])\<rparr>)"
| sys_send: "sy_status S n = job # rest \<Longrightarrow> Server_ListJobs [ListTake sent] (sy_status S n) = (r, out, ch) \<Longrightarrow>
    sys_step S (S\<lparr>sy_status := (sy_status S)(n := ch), sy_wire := (sy_wire S)(n := sy_wire S n @ out),
      sy_lost := (if r = ListSendError then (sy_lost S)(n := sy_lost S n @ [status_event job]) else sy_lost S)\<rparr>)"
| sys_receive: "sy_wire S n = e # rest \<Longrightarrow>
    sys_step S (S\<lparr>sy_sched := job_event e (sy_sched S), sy_wire := (sy_wire S)(n := rest), sy_heard := (sy_heard S)(n := sy_heard S n @ [e])\<rparr>)"
| sys_break: "sys_step S (S\<lparr>sy_wire := (sy_wire S)(n := []), sy_lost := (sy_lost S)(n := sy_lost S n @ sy_wire S n)\<rparr>)"

definition sys_start :: "System \<Rightarrow> bool" where
  "sys_start S \<longleftrightarrow> (\<exists>jh ch key addr. sy_sched S = NewState jh ch key addr) \<and> (\<forall>n. node_run (sy_node S n) {#} {#}) \<and>
     sy_status S = (\<lambda>_. []) \<and> sy_wire S = (\<lambda>_. []) \<and> sy_calls S = [] \<and> sy_ins S = (\<lambda>_. {#}) \<and> sy_heard S = (\<lambda>_. []) \<and> sy_lost S = (\<lambda>_. [])"

subsection \<open>What the scheduler believes\<close>

text \<open>
  A completed job of the scheduler has been reported: an event of \<open>E\<close> names it, says that it ended, and brought the response it has.
  No two jobs share a record.
\<close>

definition reported :: "JobStatusResponse set \<Rightarrow> string \<Rightarrow> Job \<Rightarrow> bool" where
  "reported E k j \<longleftrightarrow> (\<exists>e\<in>E. terminal_id (Some e) = Some k \<and> job_Response j = jsr_Payload e)"

definition book_ok :: "JobStatusResponse set \<Rightarrow> CentralState \<Rightarrow> bool" where
  "book_ok E s \<longleftrightarrow> set (ss_completedJobs s) \<subseteq> fst ` set (ss_jobs s) \<and> inj_on (map_of (ss_jobs s)) (dom (map_of (ss_jobs s))) \<and>
     (\<forall>k\<in>set (ss_completedJobs s). \<forall>a. map_of (ss_jobs s) k = Some a \<longrightarrow> reported E k (ss_jobHeap s a))"

lemma reported_mono: "reported E k j \<Longrightarrow> E \<subseteq> E' \<Longrightarrow> reported E' k j"
  by (auto simp: reported_def)

lemma book_mono: "book_ok E s \<Longrightarrow> E \<subseteq> E' \<Longrightarrow> book_ok E' s"
  by (simp add: book_ok_def) (blast intro: reported_mono)

text \<open>Whatever keeps jobs, completed jobs and their responses keeps the book.\<close>

lemma book_keeps:
  assumes "book_ok E s" "ss_jobs s' = ss_jobs s" "set (ss_completedJobs s') \<subseteq> set (ss_completedJobs s)"
    and "\<And>k a. k \<in> set (ss_completedJobs s') \<Longrightarrow> map_of (ss_jobs s) k = Some a \<Longrightarrow> job_Response (ss_jobHeap s' a) = job_Response (ss_jobHeap s a)"
  shows "book_ok E s'"
  using assms by (fastforce simp: book_ok_def reported_def)

lemma book_append:
  assumes "book_ok E s" "new_to s (job_Id j) a"
  shows "book_ok E (AppendJob (set_job a j s) a)"
proof -
  let ?m = "map_of (ss_jobs s)"
  have new: "job_Id j \<notin> fst ` set (ss_jobs s)" "a \<notin> ran ?m" using assms(2) by (simp_all add: new_to_def)
  then have "inj_on (?m(job_Id j \<mapsto> a)) (dom (?m(job_Id j \<mapsto> a)))"
    using assms(1) by (auto simp: book_ok_def inj_on_def ran_def)
  moreover have "k \<noteq> job_Id j" if "k \<in> set (ss_completedJobs s)" for k using that assms(1) new by (auto simp: book_ok_def)
  moreover have "b \<noteq> a" if "?m k = Some b" for k b using that new(2) by (auto simp: ran_def)
  ultimately show ?thesis
    using assms(1) by (auto simp: book_ok_def AppendJob_def set_job_def Let_def)
qed

lemma book_complete:
  assumes "book_ok E s"
  shows "book_ok (insert e E) (job_event e s)"
proof (cases "terminal_id (Some e) = Some (jsr_JobId e) \<and> map_of (ss_jobs s) (jsr_JobId e) \<noteq> None")
  case False
  then have "job_event e s = s"
    by (auto simp: terminal_id_def job_event_def CompleteJob_def ParseJobEvent_def Let_def split: if_splits option.splits)
  then show ?thesis using book_mono [OF assms] by auto
next
  case True
  then obtain a where a: "map_of (ss_jobs s) (jsr_JobId e) = Some a" by blast
  let ?s = "job_event e s" and ?k = "jsr_JobId e"
  have ev: "ss_jobs ?s = ss_jobs s" "set (ss_completedJobs ?s) = insert ?k (set (ss_completedJobs s))"
    "job_Response (ss_jobHeap ?s b) = (if b = a then jsr_Payload e else job_Response (ss_jobHeap s b))" for b
    using True a by (auto simp: terminal_id_def job_event_def CompleteJob_def ParseJobEvent_def set_job_def Let_def split: if_splits)
  have "reported (insert e E) k (ss_jobHeap ?s b)" if k: "k \<in> set (ss_completedJobs ?s)" "map_of (ss_jobs s) k = Some b" for k b
  proof (cases "k = ?k")
    case True
    then show ?thesis using k(2) a ev(3) [of b] \<open>terminal_id (Some e) = Some ?k \<and> _\<close> by (auto simp: reported_def)
  next
    case False
    then have "b \<noteq> a" using k(2) a assms by (auto simp: book_ok_def inj_on_def dom_def)
    moreover have "reported E k (ss_jobHeap s b)" using k ev(2) False assms by (auto simp: book_ok_def)
    ultimately show ?thesis using ev(3) [of b] by (auto simp: reported_def)
  qed
  then show ?thesis using assms a ev(1,2) by (auto simp: book_ok_def map_of_Some_keys [symmetric])
qed

lemma book_local: "sched_local s s' \<Longrightarrow> book_ok E s \<Longrightarrow> book_ok E s'"
proof (induction rule: sched_local.induct)
  case (local_append s j a)
  then show ?case using book_append by blast
next
  case (local_claim s c m r s')
  then show ?case
    by (elim book_keeps) (auto simp: NextPendingJob_def set_job_def Let_def split: option.splits prod.splits)
next
  case (local_unassign s k)
  then show ?case
  proof (rule book_keeps)
    fix k' a assume k': "k' \<in> set (ss_completedJobs (UnassignJob s k))" "map_of (ss_jobs s) k' = Some a"
    show "job_Response (ss_jobHeap (UnassignJob s k) a) = job_Response (ss_jobHeap s a)"
    proof (cases "k \<in> set (ss_completedJobs s) \<or> map_of (ss_jobs s) k = None")
      case True
      then show ?thesis by (auto simp: UnassignJob_def split: option.splits)
    next
      case False
      then obtain b where b: "map_of (ss_jobs s) k = Some b" "k \<notin> set (ss_completedJobs s)" by blast
      then have "k' \<noteq> k" using k'(1) by (auto simp: UnassignJob_def set_job_def Let_def split: if_splits)
      then have "a \<noteq> b" using local_unassign k'(2) b(1) by (auto simp: book_ok_def inj_on_def dom_def)
      then show ?thesis using b by (simp add: UnassignJob_def set_job_def Let_def)
    qed
  qed (auto simp: UnassignJob_def set_job_def Let_def split: option.splits)
next
  case (local_purge s k)
  then show ?case
    by (auto simp: PurgeJob_def book_ok_def inj_on_def dom_def split: option.splits if_splits)
next
  case (local_read s now k)
  then show ?case by (elim book_keeps) (auto simp: QueueFreeCompletedJob_def split: option.splits)
next
  case (local_same s s')
  then show ?case by (elim book_keeps) (simp_all add: same_jobs_def)
qed

lemma book_assign: "book_ok E s \<Longrightarrow> book_ok E (snd (AssignJob s k n))"
  by (elim book_keeps) (auto simp: AssignJob_def set_job_def Let_def split: option.splits)

subsection \<open>The accounts of the system\<close>

definition sent_ids :: "System \<Rightarrow> string \<Rightarrow> string multiset" where
  "sent_ids S n = mset (map cj_Id (sy_status S n)) + mset (map jsr_JobId (sy_wire S n)) + mset (map jsr_JobId (sy_heard S n)) +
     mset (map jsr_JobId (sy_lost S n))"

definition all_heard :: "System \<Rightarrow> JobStatusResponse set" where
  "all_heard S = (\<Union>n. set (sy_heard S n))"

definition sys_inv :: "System \<Rightarrow> bool" where
  "sys_inv S \<longleftrightarrow> (\<forall>n. node_run (sy_node S n) (sy_ins S n) (sent_ids S n)) \<and> book_ok (all_heard S) (sy_sched S)"

lemma status_event_id [simp]: "jsr_JobId (status_event job) = cj_Id job"
  by (simp add: status_event_def)

lemma sys_invD:
  assumes "sys_inv S"
  shows "node_run (sy_node S n) (sy_ins S n) (sent_ids S n)" "book_ok (all_heard S) (sy_sched S)"
  using assms by (simp_all add: sys_inv_def)

lemma sys_start_inv: "sys_start S \<Longrightarrow> sys_inv S"
  by (auto simp: sys_start_def sys_inv_def sent_ids_def all_heard_def book_ok_def NewState_def)

text \<open>A step at node \<open>n\<close> leaves the accounts of the other nodes alone.\<close>

lemma sys_inv_node:
  assumes "sys_inv S" and "node_run (sy_node S' n) (sy_ins S' n) (sent_ids S' n)"
    and "\<And>x. x \<noteq> n \<Longrightarrow> sy_node S' x = sy_node S x \<and> sy_ins S' x = sy_ins S x \<and> sent_ids S' x = sent_ids S x"
    and "book_ok (all_heard S') (sy_sched S')"
  shows "sys_inv S'"
  unfolding sys_inv_def
proof (intro conjI allI)
  fix x show "node_run (sy_node S' x) (sy_ins S' x) (sent_ids S' x)"
    using assms(1,2,3) by (cases "x = n") (simp_all add: sys_inv_def)
qed (rule assms(4))

lemma sys_step_inv:
  assumes "sys_step S S'" "sys_inv S"
  shows "sys_inv S'"
  using assms(1)
proof cases
  case (sys_sched s')
  then show ?thesis using assms(2) book_local by (simp add: sys_inv_def sent_ids_def all_heard_def)
next
  case (sys_dispatch a req n ping now resp node' answered)
  from node_append [OF sys_invD(1) [OF assms(2)] sys_dispatch(5,6)] show ?thesis
    using sys_invD(2) [OF assms(2)] by (intro sys_inv_node [OF assms(2), of S' n]) (simp_all add: sys_dispatch(1) sent_ids_def all_heard_def)
next
  case (sys_assign k n)
  then show ?thesis using assms(2) book_assign by (simp add: sys_inv_def sent_ids_def all_heard_def)
next
  case (sys_node n node')
  from node_local_run [OF sys_node(2) sys_invD(1) [OF assms(2)]] show ?thesis
    using sys_invD(2) [OF assms(2)] by (intro sys_inv_node [OF assms(2), of S' n]) (simp_all add: sys_node(1) sent_ids_def all_heard_def)
next
  case (sys_complete n job j)
  from node_stream [OF sys_invD(1) [OF assms(2)] sys_complete(2)] show ?thesis
    using sys_invD(2) [OF assms(2)] by (intro sys_inv_node [OF assms(2), of S' n]) (simp_all add: sys_complete(1) sent_ids_def all_heard_def)
next
  case (sys_send n job rest sent r out ch)
  then have ids: "sent_ids S' x = sent_ids S x" for x by (auto simp: sent_ids_def split: if_splits)
  show ?thesis
    by (rule sys_inv_node [OF assms(2), of S' n]) (use sys_invD [OF assms(2)] in \<open>simp_all add: ids\<close>, simp_all add: sys_send(1) all_heard_def)
next
  case (sys_receive n e rest)
  then have ids: "sent_ids S' x = sent_ids S x" for x by (simp add: sent_ids_def)
  have heard: "all_heard S' = insert e (all_heard S)" by (fastforce simp: sys_receive(1) all_heard_def split: if_splits)
  have "book_ok (insert e (all_heard S)) (job_event e (sy_sched S))" using sys_invD(2) [OF assms(2)] by (rule book_complete)
  then show ?thesis
    by (intro sys_inv_node [OF assms(2), of S' n]) (use sys_invD(1) [OF assms(2)] in \<open>simp_all add: ids heard\<close>, simp_all add: sys_receive(1))
next
  case (sys_break n)
  then have ids: "sent_ids S' x = sent_ids S x" for x by (simp add: sent_ids_def)
  show ?thesis
    by (rule sys_inv_node [OF assms(2), of S' n]) (use sys_invD [OF assms(2)] in \<open>simp_all add: ids\<close>, simp_all add: sys_break all_heard_def)
qed

lemma sys_run_inv: "sys_step\<^sup>*\<^sup>* S S' \<Longrightarrow> sys_inv S \<Longrightarrow> sys_inv S'"
  by (induction rule: rtranclp_induct) (auto intro: sys_step_inv)


definition demo_sys0 :: System where
  "demo_sys0 = \<lparr>sy_sched = demo_sched0, sy_node = (\<lambda>_. demo_node), sy_status = (\<lambda>_. []), sy_wire = (\<lambda>_. []), sy_calls = [],
     sy_ins = (\<lambda>_. {#}), sy_heard = (\<lambda>_. []), sy_lost = (\<lambda>_. [])\<rparr>"

definition demo_sys2 :: System where
  "demo_sys2 = demo_sys0\<lparr>sy_sched := snd (NextPendingJob (AppendJob (set_job 0 (demo_job\<lparr>job_ImageAlias := ''py''\<rparr>) demo_sched0) 0) 8 16)\<rparr>"

definition demo_req :: JobRequest where
  "demo_req = dispatch_request (ss_jobHeap (sy_sched demo_sys2) 0)"

definition demo_sys3 :: System where
  "demo_sys3 = demo_sys2\<lparr>sy_node := (\<lambda>_. demo_node)(''n'' := snd (Server_AppendJob True demo_req (contact 1 demo_node))),
     sy_ins := (\<lambda>_. {#})(''n'' := {#''j''#}), sy_calls := [(''j'', ''n'')]\<rparr>"

definition demo_sys4 :: System where
  "demo_sys4 = demo_sys3\<lparr>sy_sched := snd (AssignJob (sy_sched demo_sys3) ''j'' ''n''), sy_calls := []\<rparr>"

definition demo_cleared :: Jobs where
  "demo_cleared = the (ClearAllJobs (sv_jobQueue (sy_node demo_sys4 ''n'')))"

definition demo_finished :: ClusterJob where
  "demo_finished = hd (jq_Completed demo_cleared)"

lemma demo_sys_start: "sys_start demo_sys0"
  using node_start [of 0 "''n''" "'':1''" 8 16 "\<lambda>_. demo_container" "''jobs''" "[demo_image]", folded demo_node_def]
  by (auto simp: sys_start_def demo_sys0_def demo_sched0_def)

lemma demo_sys_dispatched: "sys_step\<^sup>*\<^sup>* demo_sys0 demo_sys4"
proof -
  let ?s1 = "AppendJob (set_job 0 (demo_job\<lparr>job_ImageAlias := ''py''\<rparr>) demo_sched0) 0"
  have "new_to demo_sched0 (job_Id (demo_job\<lparr>job_ImageAlias := ''py''\<rparr>)) 0"
    by (simp add: new_to_def demo_sched0_def NewState_def NewQueue_def queue_fresh_def)
  then have "sched_local demo_sched0 ?s1" by (rule local_append) (simp add: demo_job_def)
  then have 1: "sys_step demo_sys0 (demo_sys0\<lparr>sy_sched := ?s1\<rparr>)" by (intro sys_sched) (simp add: demo_sys0_def)
  have 2: "sys_step (demo_sys0\<lparr>sy_sched := ?s1\<rparr>) demo_sys2"
    using sys_sched [OF local_claim [OF surjective_pairing], of "demo_sys0\<lparr>sy_sched := ?s1\<rparr>" 8 16] by (simp add: demo_sys2_def)
  obtain resp node' where app: "Server_AppendJob True demo_req (contact 1 demo_node) = (resp, node')" by fastforce
  have facts: "claimed (sy_sched demo_sys2) 0" "dispatchable (ss_jobHeap (sy_sched demo_sys2) 0)" "jr_JobId demo_req = ''j''"
    "jres_Accept (fst (Server_AppendJob True demo_req (contact 1 demo_node)))"
    unfolding claimed_def by code_simp+
  have add: "addable (sv_jobQueue (sy_node demo_sys2 ''n'')) demo_req (sv_images (sy_node demo_sys2 ''n''))"
    and unknown: "\<not> known (sv_jobQueue (sy_node demo_sys2 ''n'')) ''j''" and node: "sy_node demo_sys2 = (\<lambda>_. demo_node)"
    "sy_ins demo_sys2 = (\<lambda>_. {#})" "sy_calls demo_sys2 = []"
    by (simp_all add: addable_def known_def demo_sys2_def demo_sys0_def demo_node_def NewClusterServer_def CreateJobsQueue_def NewQueue_def queue_fresh_def)
  from sys_dispatch [OF facts(1,2) demo_req_def add, of True 1 resp node' True] have 3: "sys_step demo_sys2 demo_sys3"
    using app facts(3,4) unknown node by (simp add: demo_sys3_def)
  have "(''j'', ''n'') \<in> set (sy_calls demo_sys3)" "remove1 (''j'', ''n'') (sy_calls demo_sys3) = []" by (simp_all add: demo_sys3_def)
  with sys_assign [of "''j''" "''n''" demo_sys3] have "sys_step demo_sys3 demo_sys4" by (simp add: demo_sys4_def)
  with 1 2 3 show ?thesis by (meson converse_rtranclp_into_rtranclp rtranclp.rtrancl_refl)
qed


subsection \<open>What goes wrong between scheduler and node\<close>

text \<open>
  Nobody sends a lost event again: once all events of a job that a node accepted are lost, the node does not know the job any more and
  nothing is on its way, while a lost event changes nothing at the scheduler, where the job stays active.
\<close>

lemma lost_job_forgotten:
  assumes inv: "sys_inv S" and all_lost: "count (sy_ins S n) k = count (mset (map jsr_JobId (sy_lost S n))) k"
  shows "\<not> known (sv_jobQueue (sy_node S n)) k" "k \<notin> cj_Id ` set (jq_Completed (sv_jobQueue (sy_node S n)))"
    "k \<notin> cj_Id ` set (sy_status S n)" "k \<notin> jsr_JobId ` set (sy_wire S n)"
proof -
  let ?j = "sv_jobQueue (sy_node S n)"
  have fin: "finite (dom (pending_job ?j))" "finite (dom (active_job ?j))" by (simp_all add: finite_dom_map_of)
  have "sy_ins S n = sent_ids S n + mset_set (dom (pending_job ?j)) + mset_set (dom (active_job ?j)) + mset (map cj_Id (jq_Completed ?j))"
    by (rule conjunct1 [OF queue_jobs_conserved [OF node_run_queue [OF sys_invD(1) [OF inv]]]])
  then have z: "count (mset_set (dom (pending_job ?j))) k = 0" "count (mset_set (dom (active_job ?j))) k = 0"
    "count (mset (map cj_Id (jq_Completed ?j))) k = 0" "count (mset (map cj_Id (sy_status S n))) k = 0" "count (mset (map jsr_JobId (sy_wire S n))) k = 0"
    using all_lost by (simp_all add: sent_ids_def)
  show "\<not> known ?j k" using z(1,2) fin by (auto simp: known_def count_mset_set' split: if_splits)
  show "k \<notin> cj_Id ` set (jq_Completed ?j)" "k \<notin> cj_Id ` set (sy_status S n)" "k \<notin> jsr_JobId ` set (sy_wire S n)"
    using z(3-5) by (simp_all add: count_eq_zero_iff)
qed

text \<open>
  C38 (a completion overtakes the assignment). DispatchJob calls AssignJob after the node has accepted the job, and the event of a job that
  finished quickly may be processed in between. AssignJob does not check for that: the job is then listed as completed and as active at
  once, its status is Running although it has its result, a client that asks does not get it marked as read, so no clean-up takes
  it, and it is not put back to the waiting jobs either.
\<close>

theorem late_assign_corrupts_job:
  fixes s :: CentralState and e :: JobStatusResponse and n :: string
  defines "s' \<equiv> snd (AssignJob (job_event e s) (jsr_JobId e) n)"
  assumes inv: "sched_inv s" and act: "stage_of s (jsr_JobId e) = Some Active" and ended: "jsr_Status e = JOB_STATUS_COMPLETED"
    and unread: "map_of (ss_readJobs s) (jsr_JobId e) = None"
  shows "jsr_JobId e \<in> set (CompletedJobs s') \<and> jsr_JobId e \<in> set (ActiveJobs s') \<and> \<not> sched_inv s' \<and>
    (\<exists>a prio alias payload. State_Job s' (jsr_JobId e) = Some a \<and>
      RequestJobStatus now (jsr_JobId e) s' = (Some (''Running'', prio, alias, payload, jsr_Payload e), s')) \<and>
    jsr_JobId e \<notin> set (clear_list now s') \<and> UnassignJob s' (jsr_JobId e) = s'"
proof -
  let ?k = "jsr_JobId e"
  obtain a where a: "map_of (ss_jobs s) ?k = Some a" using act by (auto simp: stage_of_def split: if_splits)
  let ?s1 = "job_event e s"
  have ev: "?s1 = snd (CompleteJob s ?k (jsr_Payload e) True)" using ended by (simp add: job_event_def ParseJobEvent_def)
  have s': "ss_jobs s' = ss_jobs s" "?k \<in> set (ss_completedJobs s')" "?k \<in> set (ss_assignedJobs s')" "ss_readJobs s' = ss_readJobs s"
    "job_Status (ss_jobHeap s' a) = Running" "job_Response (ss_jobHeap s' a) = jsr_Payload e"
    using a by (simp_all add: s'_def ev CompleteJob_def AssignJob_def set_job_def Let_def)
  have "stage_of s' ?k = Some Done" using a s' by (simp add: stage_of_def)
  then have "\<not> sched_inv s'" using a s' by (auto simp: sched_inv_def job_ok_def)
  moreover have "?k \<notin> set (clear_list now s')" using unread s' by (simp add: clear_list_def)
  moreover have "UnassignJob s' ?k = s'" using a s' by (simp add: UnassignJob_def)
  ultimately show ?thesis
    using a s' by (simp add: CompletedJobs_def ActiveJobs_def State_Job_def RequestJobStatus_def Status_String_def Let_def)
qed

theorem late_assign_corrupts_job_witness:
  "\<exists>s. sched_inv s \<and> stage_of s ''j'' = Some Active \<and>
     ''j'' \<in> set (ActiveJobs (snd (AssignJob (job_event \<lparr>jsr_JobId = ''j'', jsr_Status = JOB_STATUS_COMPLETED, jsr_Priority = 0, jsr_ImageAlias = '''',
       jsr_Payload = Some [1]\<rparr> s) ''j'' ''n''))) \<and>
     ''j'' \<in> set (CompletedJobs (snd (AssignJob (job_event \<lparr>jsr_JobId = ''j'', jsr_Status = JOB_STATUS_COMPLETED, jsr_Priority = 0, jsr_ImageAlias = '''',
       jsr_Payload = Some [1]\<rparr> s) ''j'' ''n'')))"
proof -
  let ?s = "snd (NextPendingJob demo_pack 8 16)"
  let ?e = "\<lparr>jsr_JobId = ''j'', jsr_Status = JOB_STATUS_COMPLETED, jsr_Priority = 0, jsr_ImageAlias = '''', jsr_Payload = Some [1]\<rparr>"
  have inv: "sched_inv ?s" by (rule NextPendingJob_inv [OF demo_pack_inv]) (rule surjective_pairing)
  have act: "stage_of ?s (jsr_JobId ?e) = Some Active" "map_of (ss_readJobs ?s) (jsr_JobId ?e) = None" by code_simp+
  show ?thesis using late_assign_corrupts_job [OF inv act(1) _ act(2)] inv act(1) by (intro exI [of _ ?s]) simp
qed

end
