(* ===== verification/Environment.thy ===== *)
theory Environment
  imports ClusterJobs "HOL-Library.Sublist"
begin

section \<open>Configuration (internal/environment and the config packages)\<close>

text \<open>
  The importers of JSON files. \<open>read\<close> is os.ReadFile, \<open>parse\<close> json.Unmarshal for the type that is asked for, and a walk is the
  sequence of calls filepath.WalkDir makes: path, whether it is a directory, whether it comes with an error.
\<close>

datatype env_error = WalkError | FileError string | ParseError string

type_synonym walk = "(string \<times> bool \<times> bool) list"

fun GetAllFiles :: "walk \<Rightarrow> env_error + string list" where
  "GetAllFiles [] = Inr []"
| "GetAllFiles ((path, isDir, failed) # rest) =
     (if failed then Inl WalkError
      else case GetAllFiles rest of
        Inl err \<Rightarrow> Inl err
      | Inr files \<Rightarrow> Inr (if isDir then files else path # files))"

definition ImportFile :: "(string \<Rightarrow> bytes option) \<Rightarrow> (bytes \<Rightarrow> 'a option) \<Rightarrow> string \<Rightarrow> env_error + 'a" where
  "ImportFile read parse path =
     (case read path of
        None \<Rightarrow> Inl (FileError path)
      | Some fileBytes \<Rightarrow> (case parse fileBytes of None \<Rightarrow> Inl (ParseError path) | Some t \<Rightarrow> Inr t))"

text \<open>\<^verbatim>\<open>filepath.Ext\<close>: from the last dot of the last element on.\<close>

definition filepath_Ext :: "string \<Rightarrow> string" where
  "filepath_Ext path =
     (let base = takeWhile (\<lambda>c. c \<noteq> CHR ''/'') (rev path)
      in if CHR ''.'' \<in> set base then CHR ''.'' # rev (takeWhile (\<lambda>c. c \<noteq> CHR ''.'') base) else '''')"

definition importable :: "string list \<Rightarrow> string \<Rightarrow> bool" where
  "importable exclude file \<longleftrightarrow> filepath_Ext file = ''.json'' \<and> \<not> (\<exists>substr\<in>set exclude. sublist substr file)"

fun import_loop :: "(string \<Rightarrow> bytes option) \<Rightarrow> (bytes \<Rightarrow> 'a option) \<Rightarrow> string list \<Rightarrow> string list \<Rightarrow> env_error + 'a list" where
  "import_loop read parse exclude [] = Inr []"
| "import_loop read parse exclude (file # files) =
     (if \<not> importable exclude file then import_loop read parse exclude files
      else case ImportFile read parse file of
        Inl err \<Rightarrow> Inl err
      | Inr data \<Rightarrow>
          (case import_loop read parse exclude files of Inl err \<Rightarrow> Inl err | Inr dataList \<Rightarrow> Inr (data # dataList)))"

definition ImportDirectory :: "walk \<Rightarrow> (string \<Rightarrow> bytes option) \<Rightarrow> (bytes \<Rightarrow> 'a option) \<Rightarrow> string list \<Rightarrow> env_error + 'a list" where
  "ImportDirectory wk read parse exclude =
     (case GetAllFiles wk of Inl err \<Rightarrow> Inl err | Inr files \<Rightarrow> import_loop read parse exclude files)"

subsection \<open>The configurations\<close>

record Limits =
  li_MaxNanoCPULimit :: int
  li_MaxMemoryBytesLimit :: int

record Machine =
  ma_MachineName :: string
  ma_MachineDescription :: string
  ma_SchedulerPort :: string
  ma_LogDirectory :: string
  ma_LogVerbosity :: int
  ma_JobPayloadDir :: string
  ma_Limits :: "Limits option"
  ma_Images :: "Image list"

definition Cluster_ImportEnvironment :: "(string \<Rightarrow> bytes option) \<Rightarrow> (bytes \<Rightarrow> Machine option) \<Rightarrow> (bytes \<Rightarrow> Limits option) \<Rightarrow>
    (bytes \<Rightarrow> Image option) \<Rightarrow> walk \<Rightarrow> string \<Rightarrow> string \<Rightarrow> env_error + Machine" where
  "Cluster_ImportEnvironment read parseMachine parseLimits parseImage imagesWalk config limitsFile =
     (case ImportFile read parseMachine config of
        Inl err \<Rightarrow> Inl err
      | Inr machine \<Rightarrow>
          (case ImportFile read parseLimits limitsFile of
             Inl err \<Rightarrow> Inl err
           | Inr limits \<Rightarrow>
               (case ImportDirectory imagesWalk read parseImage [''example''] of
                  Inl err \<Rightarrow> Inl err
                | Inr images \<Rightarrow> Inr (machine\<lparr>ma_Limits := Some limits, ma_Images := images\<rparr>))))"

text \<open>\<open>None\<close>: the limits are nil and reading them panics.\<close>

definition GetMachineLimits :: "Machine \<Rightarrow> (int \<times> int) option" where
  "GetMachineLimits m = map_option (\<lambda>l. (li_MaxNanoCPULimit l, li_MaxMemoryBytesLimit l)) (ma_Limits m)"

definition GetImages :: "Machine \<Rightarrow> Image list" where
  "GetImages m = ma_Images m"

record PeerNodeConfig =
  pn_NodeID :: string
  pn_NodeAddress :: string

record NodeConfig =
  nc_NodeID :: string
  nc_NodePort :: string
  nc_NodeAddress :: string
  nc_ConsensusLogDirectory :: string
  nc_LogDirectory :: string
  nc_LogVerbosity :: int
  nc_LogOutputToStdErr :: string
  nc_Peers :: "PeerNodeConfig list"

definition Consensus_ImportEnvironment :: "(string \<Rightarrow> bytes option) \<Rightarrow> (bytes \<Rightarrow> NodeConfig option) \<Rightarrow> string \<Rightarrow> env_error + NodeConfig" where
  "Consensus_ImportEnvironment read parse configFile = ImportFile read parse configFile"

record PeerConfig =
  pg_PeerID :: string
  pg_PeerPort :: string

record SchedulerConfig =
  sg_SchedulerID :: string
  sg_SchedulerPort :: string
  sg_LogDirectory :: string
  sg_PeerSchedulers :: "PeerConfig list"
  sg_Clusters :: "PeerConfig list"
  sg_RaftPorts :: "string list"

definition Scheduler_ImportEnvironment :: "(string \<Rightarrow> bytes option) \<Rightarrow> (bytes \<Rightarrow> SchedulerConfig option) \<Rightarrow> string \<Rightarrow> env_error + SchedulerConfig" where
  "Scheduler_ImportEnvironment read parse configFile = ImportFile read parse configFile"

subsection \<open>Properties\<close>

lemma GetAllFiles_spec:
  "GetAllFiles wk = (if \<exists>x\<in>set wk. snd (snd x) then Inl WalkError else Inr (map fst (filter (\<lambda>x. \<not> fst (snd x)) wk)))"
  by (induction wk rule: GetAllFiles.induct) auto

text \<open>All or nothing: the import succeeds exactly if every file that is not excluded can be read and parsed, and gives them in order.\<close>

lemma import_loop_spec:
  "import_loop read parse exclude files = Inr xs \<longleftrightarrow> map (ImportFile read parse) (filter (importable exclude) files) = map Inr xs"
proof (induction files arbitrary: xs)
  case (Cons f0 files)
  show ?case
  proof (cases "importable exclude f0")
    case False
    then show ?thesis using Cons.IH by simp
  next
    case True
    show ?thesis
    proof (cases "ImportFile read parse f0")
      case (Inl err)
      then show ?thesis using True by (cases xs) auto
    next
      case (Inr x)
      then show ?thesis using True Cons.IH [of "tl xs"]
        by (cases xs; cases "import_loop read parse exclude files") auto
    qed
  qed
qed auto

lemma import_loop_error:
  "import_loop read parse exclude files = Inl err \<Longrightarrow> \<exists>f\<in>set files. importable exclude f \<and> ImportFile read parse f = Inl err"
  by (induction files) (auto split: if_splits sum.splits)

text \<open>A machine that was imported has its limits, so GetMachineLimits does not panic, and none of its images is an example.\<close>

lemma imported_machine:
  assumes "Cluster_ImportEnvironment read pm pl pi wk config limitsFile = Inr m"
  shows "GetMachineLimits m \<noteq> None" "\<exists>files. GetAllFiles wk = Inr files \<and>
    map (ImportFile read pi) (filter (importable [''example'']) files) = map Inr (GetImages m)"
  using assms
  by (auto simp: Cluster_ImportEnvironment_def ImportDirectory_def GetMachineLimits_def GetImages_def import_loop_spec split: sum.splits)

lemma importable_example:
  "importable [''example''] ''images/py.json''" "\<not> importable [''example''] ''images/example_py.json''" "\<not> importable [] ''images/py.JSON''"
  by code_simp+

end
