(* ===== verification/EchoWorker.thy ===== *)
theory EchoWorker
  imports ClusterNode Environment
begin

section \<open>The job folder and the echo worker (container_state.go, monitor.go, build/simple_go_echo)\<close>

text \<open>
  A container and the program inside it exchange files: AssignJob writes the payload of a job into the payload directory, the
  program writes its answer into the results directory, and monitorForResults collects it from there. This theory has the two
  directories explicitly and one program that the repository ships, the echo worker. A directory is an association
  list of names; subdirectories are names without content. \<open>os.ReadDir\<close> lists a directory sorted by name. The environments say
  which calls of the operating system fail, a write with the number of bytes it wrote. Job identifiers are file names: they have
  no path separator.
\<close>

datatype fs_entry = FsFile bytes | FsDir

type_synonym folder = "(string, fs_entry) gomap"

record JobFolder =
  jf_payload :: folder
  jf_results :: folder

definition ReadDir :: "folder \<Rightarrow> (string \<times> fs_entry) list" where
  "ReadDir d = sort_key fst d"

definition HasSuffix :: "string \<Rightarrow> string \<Rightarrow> bool" where
  "HasSuffix s suf \<longleftrightarrow> take (length suf) (rev s) = rev suf"

text \<open>\<^verbatim>\<open>strings.ToLower\<close> on the letters of ASCII.\<close>

definition toLower :: "string \<Rightarrow> string" where
  "toLower = map (\<lambda>c. let n = of_char c :: nat in if 65 \<le> n \<and> n \<le> 90 then char_of (n + 32) else c)"

subsection \<open>AssignJob: the payload file\<close>

record payload_env =
  py_mkdir :: bool
  py_readdir :: bool
  py_removeAll :: "string \<Rightarrow> bool"
  py_open :: bool
  py_write :: "nat option"
  py_rename :: bool
  py_removeTmp :: bool

fun clear_folder :: "(string \<Rightarrow> bool) \<Rightarrow> string list \<Rightarrow> folder \<Rightarrow> bool \<times> folder" where
  "clear_folder removed [] d = (True, d)"
| "clear_folder removed (name # names) d =
     (if removed name then clear_folder removed names (AList.delete name d) else (False, d))"

definition tmp_payload_name :: "string \<Rightarrow> string" where
  "tmp_payload_name jobId = ''job-'' @ jobId @ ''.tmp''"

definition payload_name :: "string \<Rightarrow> string" where
  "payload_name jobId = ''job-'' @ jobId @ ''.json''"

definition write_payload :: "payload_env \<Rightarrow> string \<Rightarrow> bytes \<Rightarrow> folder \<Rightarrow> bool \<times> folder" where
  "write_payload env jobId payload d =
     (if \<not> py_mkdir env then (False, d)
      else if \<not> py_readdir env then (False, d)
      else case clear_folder (py_removeAll env) (map fst (ReadDir d)) d of
        (False, d1) \<Rightarrow> (False, d1)
      | (True, d1) \<Rightarrow>
          let tmpPath = tmp_payload_name jobId; finalPath = payload_name jobId in
          if \<not> py_open env then (False, d1)
          else case py_write env of
            Some n \<Rightarrow> (False, AList.update tmpPath (FsFile (take n payload)) d1)
          | None \<Rightarrow>
              let d2 = AList.update tmpPath (FsFile payload) d1 in
              if \<not> py_rename env then (False, if py_removeTmp env then AList.delete tmpPath d2 else d2)
              else (True, AList.update finalPath (FsFile payload) (AList.delete tmpPath d2)))"

text \<open>The whole of AssignJob: the guards and the fields are those of \<open>Container_AssignJob\<close>, and here is what it does to the directory.\<close>

definition AssignJob_files :: "payload_env \<Rightarrow> time \<Rightarrow> string \<Rightarrow> bytes \<Rightarrow> Container \<Rightarrow> folder \<Rightarrow>
    container_error option \<times> Container \<times> folder" where
  "AssignJob_files env now jobId payload c d =
     (if ct_dockerID c = '''' then (Some NotCreated, c, d)
      else if ct_state c = CRunning then (Some Occupied, c, d)
      else case write_payload env jobId payload d of
        (written, d1) \<Rightarrow> (case Container_AssignJob written now jobId c of (err, c1) \<Rightarrow> (err, c1, d1)))"

subsection \<open>The worker (mirror_worker.go)\<close>

text \<open>\<open>is_object\<close>: \<^verbatim>\<open>json.Unmarshal\<close> into a \<^verbatim>\<open>map[string]interface{}\<close> succeeds.\<close>

datatype worker_error = WReadError | WBadPayload | WCreateError | WWriteError | WSyncError | WRenameError | WRemoveError

record worker_env =
  wk_read :: bool
  wk_create :: bool
  wk_write :: "nat option"
  wk_sync :: bool
  wk_rename :: bool
  wk_removeTmp :: bool
  wk_removePayload :: bool

definition processSingleJob :: "(bytes \<Rightarrow> bool) \<Rightarrow> worker_env \<Rightarrow> string \<Rightarrow> JobFolder \<Rightarrow> worker_error option \<times> JobFolder" where
  "processSingleJob is_object env filename f =
     (case map_of (jf_payload f) filename of
        Some (FsFile rawBytes) \<Rightarrow>
          if \<not> wk_read env then (Some WReadError, f)
          else if \<not> is_object rawBytes
          then (Some WBadPayload, if wk_removePayload env then f\<lparr>jf_payload := AList.delete filename (jf_payload f)\<rparr> else f)
          else
            let tmpResultPath = filename @ ''.tmp'' in
            if map_of (jf_results f) tmpResultPath = Some FsDir \<or> \<not> wk_create env then (Some WCreateError, f)
            else (case wk_write env of
              Some n \<Rightarrow> (Some WWriteError, f\<lparr>jf_results := AList.update tmpResultPath (FsFile (take n rawBytes)) (jf_results f)\<rparr>)
            | None \<Rightarrow>
                let f1 = f\<lparr>jf_results := AList.update tmpResultPath (FsFile rawBytes) (jf_results f)\<rparr> in
                if \<not> wk_sync env then (Some WSyncError, f1)
                else if map_of (jf_results f1) filename = Some FsDir \<or> \<not> wk_rename env
                then (Some WRenameError, if wk_removeTmp env then f1\<lparr>jf_results := AList.delete tmpResultPath (jf_results f1)\<rparr> else f1)
                else
                  let f2 = f1\<lparr>jf_results := AList.update filename (FsFile rawBytes) (AList.delete tmpResultPath (jf_results f1))\<rparr> in
                  if \<not> wk_removePayload env then (Some WRemoveError, f2)
                  else (None, f2\<lparr>jf_payload := AList.delete filename (jf_payload f2)\<rparr>))
      | _ \<Rightarrow> (Some WReadError, f))"

fun process_entries :: "(bytes \<Rightarrow> bool) \<Rightarrow> (string \<Rightarrow> worker_env) \<Rightarrow> (string \<times> fs_entry) list \<Rightarrow> JobFolder \<Rightarrow> JobFolder" where
  "process_entries is_object env [] f = f"
| "process_entries is_object env ((name, entry) # entries) f =
     (if entry = FsDir \<or> \<not> HasSuffix name ''.json'' then process_entries is_object env entries f
      else process_entries is_object env entries (snd (processSingleJob is_object (env name) name f)))"

definition processAvailableJobs :: "(bytes \<Rightarrow> bool) \<Rightarrow> bool \<Rightarrow> (string \<Rightarrow> worker_env) \<Rightarrow> JobFolder \<Rightarrow> JobFolder" where
  "processAvailableJobs is_object readdir env f =
     (if \<not> readdir then f else process_entries is_object env (ReadDir (jf_payload f)) f)"

subsection \<open>monitorForResults over the directory\<close>

record monitor_env =
  mo_open :: "string \<Rightarrow> nat \<Rightarrow> bool"
  mo_read :: "string \<Rightarrow> nat \<Rightarrow> bool"
  mo_close :: "string \<Rightarrow> nat \<Rightarrow> bool"
  mo_remove :: "string \<Rightarrow> bool"

definition result_entry :: "monitor_env \<Rightarrow> string \<times> fs_entry \<Rightarrow> dir_entry" where
  "result_entry env e =
     \<lparr>de_regular = (snd e \<noteq> FsDir), de_json = (toLower (filepath_Ext (fst e)) = ''.json''),
      de_attempt = (\<lambda>i. (mo_open env (fst e) i,
        case snd e of FsFile b \<Rightarrow> if mo_read env (fst e) i then Some b else None | FsDir \<Rightarrow> None, mo_close env (fst e) i)),
      de_removed = mo_remove env (fst e)\<rparr>"

text \<open>What is left of the directory: a file is deleted before its content is sent, and the first error ends the tick.\<close>

fun monitor_dir :: "(bytes \<Rightarrow> bool) \<Rightarrow> monitor_env \<Rightarrow> (string \<times> fs_entry) list \<Rightarrow> folder \<Rightarrow> folder" where
  "monitor_dir valid env [] d = d"
| "monitor_dir valid env (e # es) d =
     (let x = result_entry env e in
      if \<not> de_regular x \<or> \<not> de_json x then monitor_dir valid env es d
      else case processAndDeleteFile valid (de_attempt x) (de_removed x) of
        None \<Rightarrow> d
      | Some _ \<Rightarrow> monitor_dir valid env es (AList.delete (fst e) d))"

definition monitor_tick :: "(bytes \<Rightarrow> bool) \<Rightarrow> bool \<Rightarrow> monitor_env \<Rightarrow> Container \<Rightarrow> folder \<Rightarrow>
    (container_error option \<times> Container \<times> folder) option" where
  "monitor_tick valid readdir env c d =
     (if \<not> readdir then Some (Some ResultError, c, d)
      else map_option (\<lambda>(err, c1). (err, c1, monitor_dir valid env (ReadDir d) d))
        (results_tick valid (map (result_entry env) (ReadDir d)) c))"

subsection \<open>Lemmas on names and directories\<close>

lemma HasSuffix_append [simp]: "HasSuffix (s @ suf) suf"
  by (simp add: HasSuffix_def)

lemma payload_name_json [simp]: "HasSuffix (payload_name k) ''.json''"
  using HasSuffix_append [of "''job-'' @ k" "''.json''"] by (simp add: payload_name_def)

lemma tmp_name_not_json [simp]: "\<not> HasSuffix (n @ ''.tmp'') ''.json''"
  by (simp add: HasSuffix_def)

lemma json_not_tmp: "HasSuffix n ''.json'' \<Longrightarrow> n \<noteq> m @ ''.tmp''"
  by auto

lemma filepath_Ext_json: "filepath_Ext (n @ ''.json'') = ''.json''"
  by (simp add: filepath_Ext_def Let_def)

lemma payload_name_ext [simp]: "toLower (filepath_Ext (payload_name k)) = ''.json''"
proof -
  have "filepath_Ext (payload_name k) = ''.json''" using filepath_Ext_json [of "''job-'' @ k"] by (simp add: payload_name_def)
  then show ?thesis by (simp only:) code_simp
qed

lemma ReadDir_simps [simp]: "ReadDir [] = []" "ReadDir [e] = [e]" "set (ReadDir d) = set d"
  by (simp_all add: ReadDir_def)

lemma clear_folder_all:
  "(\<And>n. n \<in> set ns \<Longrightarrow> removed n) \<Longrightarrow> clear_folder removed ns d = (True, filter (\<lambda>(n, _). n \<notin> set ns) d)"
proof (induction ns arbitrary: d)
  case (Cons n ns)
  have "filter (\<lambda>(m, _). m \<notin> set ns) (AList.delete n d) = filter (\<lambda>(m, _). m \<notin> set (n # ns)) d"
    by (auto simp: AList.delete_eq intro: filter_cong)
  then show ?case using Cons by simp
qed simp

lemma clear_folder_keeps: "clear_folder removed ns d = (b, d') \<Longrightarrow> set d' \<subseteq> set d"
  by (induction ns arbitrary: d) (auto split: if_splits dest!: mem_deleteD)

lemma clear_folder_True: "clear_folder removed ns d = (True, d') \<Longrightarrow> d' = filter (\<lambda>(n, _). n \<notin> set ns) d"
proof (induction ns arbitrary: d)
  case (Cons n ns)
  then have "d' = filter (\<lambda>(m, _). m \<notin> set ns) (AList.delete n d)" by (auto split: if_splits)
  then show ?case by (auto simp: AList.delete_eq intro: filter_cong)
qed simp

text \<open>A payload that was written is the only file of the directory: what earlier jobs left is gone.\<close>

lemma write_payload_only:
  assumes "write_payload env k payload d = (True, d')"
  shows "d' = [(payload_name k, FsFile payload)]"
proof -
  obtain d1 where c: "clear_folder (py_removeAll env) (map fst (ReadDir d)) d = (True, d1)"
    and d': "d' = AList.update (payload_name k) (FsFile payload) (AList.delete (tmp_payload_name k) (AList.update (tmp_payload_name k) (FsFile payload) d1))"
    using assms by (auto simp: write_payload_def Let_def split: if_splits prod.splits bool.splits option.splits)
  have "d1 = []" unfolding clear_folder_True [OF c] by (force simp: filter_empty_conv)
  then show ?thesis by (simp add: d')
qed

text \<open>AssignJob with its files is AssignJob of the container model, told whether the files could be written.\<close>

lemma AssignJob_files_container:
  "AssignJob_files env now k payload c d = (err, c1, d1) \<Longrightarrow>
   Container_AssignJob (fst (write_payload env k payload d)) now k c = (err, c1)"
  by (auto simp: AssignJob_files_def Container_AssignJob_def split: if_splits prod.splits)

lemma AssignJob_files_ok:
  assumes "AssignJob_files env now k payload c d = (None, c1, d1)"
  shows "d1 = [(payload_name k, FsFile payload)] \<and> ct_results c1 = ct_results c \<and> ct_resultsClosed c1 = ct_resultsClosed c"
proof -
  have "write_payload env k payload d = (True, d1)"
    using assms by (auto simp: AssignJob_files_def Container_AssignJob_def split: if_splits prod.splits)
  then show ?thesis using AssignJob_files_container [OF assms] write_payload_only by (fastforce simp: Container_AssignJob_def split: if_splits)
qed

text \<open>The outcomes of processing a job: nothing, a refused payload dropped, a temporary file left or removed, the result in place.\<close>

lemma processSingleJob_cases:
  assumes "processSingleJob is_object env name f = (err, f')"
  obtains (unchanged) "err \<noteq> None" "f' = f"
  | (refused) raw where "map_of (jf_payload f) name = Some (FsFile raw)" "\<not> is_object raw" "err \<noteq> None"
      "f' = f\<lparr>jf_payload := AList.delete name (jf_payload f)\<rparr>"
  | (torn) r where "err \<noteq> None" "f' = f\<lparr>jf_results := r\<rparr>" "\<And>n. n \<noteq> name @ ''.tmp'' \<Longrightarrow> map_of r n = map_of (jf_results f) n"
  | (mirrored) raw r where "map_of (jf_payload f) name = Some (FsFile raw)" "is_object raw" "map_of r name = Some (FsFile raw)"
      "\<And>n. n \<noteq> name \<Longrightarrow> n \<noteq> name @ ''.tmp'' \<Longrightarrow> map_of r n = map_of (jf_results f) n"
      "f' = f\<lparr>jf_results := r\<rparr> \<and> err \<noteq> None \<or> f' = f\<lparr>jf_results := r, jf_payload := AList.delete name (jf_payload f)\<rparr> \<and> err = None"
proof (cases "\<exists>raw. map_of (jf_payload f) name = Some (FsFile raw)")
  case False
  then have "err = Some WReadError \<and> f' = f" using assms by (auto simp: processSingleJob_def split: option.splits fs_entry.splits)
  then show ?thesis using unchanged by simp
next
  case True
  then obtain raw where raw: "map_of (jf_payload f) name = Some (FsFile raw)" by blast
  let ?r = "AList.update (name @ ''.tmp'') (FsFile raw) (jf_results f)"
  note step = assms [unfolded processSingleJob_def raw option.case fs_entry.case Let_def]
  consider (err) "f' = f" "err \<noteq> None" | (bad) "\<not> is_object raw" "err \<noteq> None" "f' = f\<lparr>jf_payload := AList.delete name (jf_payload f)\<rparr>"
    | (part) n where "err \<noteq> None" "f' = f\<lparr>jf_results := AList.update (name @ ''.tmp'') (FsFile (take n raw)) (jf_results f)\<rparr>"
    | (tmp) "err \<noteq> None" "f' = f\<lparr>jf_results := ?r\<rparr>" | (gone) "err \<noteq> None" "f' = f\<lparr>jf_results := AList.delete (name @ ''.tmp'') ?r\<rparr>"
    | (final) "is_object raw" "f' = f\<lparr>jf_results := AList.update name (FsFile raw) (AList.delete (name @ ''.tmp'') ?r)\<rparr> \<and> err \<noteq> None \<or>
        f' = f\<lparr>jf_results := AList.update name (FsFile raw) (AList.delete (name @ ''.tmp'') ?r), jf_payload := AList.delete name (jf_payload f)\<rparr> \<and> err = None"
    using step by (simp split: if_splits option.splits; blast)
  then show ?thesis
  proof cases
    case err then show ?thesis using unchanged by blast
  next
    case bad then show ?thesis using refused raw by blast
  next
    case part then show ?thesis using torn by fastforce
  next
    case tmp then show ?thesis using torn by fastforce
  next
    case gone then show ?thesis using torn by fastforce
  next
    case final
    show ?thesis
    proof (rule mirrored [OF raw final(1) _ _ final(2)])
      show "map_of (AList.update name (FsFile raw) (AList.delete (name @ ''.tmp'') ?r)) name = Some (FsFile raw)" by simp
    qed simp
  qed
qed

text \<open>
  C27 (results appear whole). Whatever fails while the echo worker processes a job, and after however many bytes, under every name
  that monitorForResults would pick up the results directory holds what it held before, except that the
  name of the job may now hold the complete payload. The payload directory loses at most the file of the job, a proper payload only
  once its result is there, and success means that the result is there and the payload is gone.
\<close>

theorem results_appear_whole:
  assumes "processSingleJob is_object env name f = (err, f')"
  shows "(\<forall>n. HasSuffix n ''.json'' \<longrightarrow>
      map_of (jf_results f') n = map_of (jf_results f) n \<or>
      (\<exists>raw. n = name \<and> map_of (jf_payload f) name = Some (FsFile raw) \<and> is_object raw \<and> map_of (jf_results f') n = Some (FsFile raw))) \<and>
    (\<forall>n. n \<noteq> name \<longrightarrow> map_of (jf_payload f') n = map_of (jf_payload f) n) \<and>
    (\<forall>raw. map_of (jf_payload f) name = Some (FsFile raw) \<and> is_object raw \<longrightarrow>
      map_of (jf_payload f') name = Some (FsFile raw) \<or> map_of (jf_results f') name = Some (FsFile raw)) \<and>
    (err = None \<longrightarrow> map_of (jf_payload f') name = None \<and> (\<exists>raw. map_of (jf_results f') name = Some (FsFile raw) \<and> is_object raw))"
  using assms
proof (cases rule: processSingleJob_cases)
  case (torn r)
  have "map_of r n = map_of (jf_results f) n" if "HasSuffix n ''.json''" for n by (rule torn(3)) (use that json_not_tmp in blast)
  then show ?thesis using torn(1,2) by auto
next
  case (mirrored raw r)
  have kept: "n = name \<or> map_of r n = map_of (jf_results f) n" if "HasSuffix n ''.json''" for n
    using mirrored(4) that json_not_tmp by blast
  from mirrored(5) show ?thesis
  proof (elim disjE conjE)
    assume "f' = f\<lparr>jf_results := r\<rparr>" "err \<noteq> None"
    then show ?thesis using kept mirrored(1-3) by (simp only: JobFolder.simps) fastforce
  next
    assume "f' = f\<lparr>jf_results := r, jf_payload := AList.delete name (jf_payload f)\<rparr>" "err = None"
    then show ?thesis using kept mirrored(1-3) by (simp only: JobFolder.simps) fastforce
  qed
qed auto

definition demo_worker :: worker_env where
  "demo_worker = \<lparr>wk_read = True, wk_create = True, wk_write = None, wk_sync = True, wk_rename = True, wk_removeTmp = True, wk_removePayload = True\<rparr>"

theorem results_appear_whole_witness:
  "\<exists>f'. processSingleJob (\<lambda>_. True) (demo_worker\<lparr>wk_write := Some 1\<rparr>) ''job-a.json''
      \<lparr>jf_payload = [(''job-a.json'', FsFile [123, 125])], jf_results = []\<rparr> = (Some WWriteError, f') \<and>
    map_of (jf_results f') ''job-a.json'' \<noteq> Some (FsFile [123]) \<and> jf_results f' \<noteq> []"
proof -
  let ?f = "\<lparr>jf_payload = [(''job-a.json'', FsFile [123, 125])], jf_results = []\<rparr>"
  obtain err f' where p: "processSingleJob (\<lambda>_. True) (demo_worker\<lparr>wk_write := Some 1\<rparr>) ''job-a.json'' ?f = (err, f')" by fastforce
  have "err = Some WWriteError" "jf_results f' \<noteq> []" using p by (auto simp: processSingleJob_def demo_worker_def)
  moreover have "HasSuffix ''job-a.json'' ''.json''" by code_simp
  ultimately show ?thesis using results_appear_whole [OF p] p by auto
qed

lemma retry_succeeds:
  "(True, Some b, True) \<in> set as \<Longrightarrow> \<forall>(x, y, z)\<in>set as. y = None \<or> y = Some b \<Longrightarrow> retry as = Some b"
proof (induction "as")
  case (Cons a "as")
  obtain x y z where a: "a = (x, y, z)" by (rule prod_cases3)
  show ?case
  proof (cases "x \<and> z \<and> y \<noteq> None")
    case True then show ?thesis using Cons.prems a by auto
  next
    case False
    then have "retry as = Some b" using Cons a by (intro Cons.IH) auto
    then show ?thesis using False a by auto
  qed
qed simp

text \<open>A file of which one of the five attempts to read succeeds is read.\<close>

lemma readWithRetry_entry:
  assumes "i < 5" "mo_open env name i" "mo_read env name i" "mo_close env name i"
  shows "readWithRetry (de_attempt (result_entry env (name, FsFile b))) = Some b"
proof -
  have "(True, Some b, True) = de_attempt (result_entry env (name, FsFile b)) i" using assms by (simp add: result_entry_def)
  then have "(True, Some b, True) \<in> set (map (de_attempt (result_entry env (name, FsFile b))) [0..<5])" using assms(1) by simp
  then show ?thesis unfolding readWithRetry_def by (rule retry_succeeds) (auto simp: result_entry_def)
qed

definition worker_ok :: "worker_env \<Rightarrow> bool" where
  "worker_ok env \<longleftrightarrow> wk_read env \<and> wk_create env \<and> wk_write env = None \<and> wk_sync env \<and> wk_rename env \<and> wk_removePayload env"

definition monitor_ok :: "monitor_env \<Rightarrow> string \<Rightarrow> bool" where
  "monitor_ok env name \<longleftrightarrow> mo_remove env name \<and> (\<exists>i<5. mo_open env name i \<and> mo_read env name i \<and> mo_close env name i)"

lemma append_tmp_neq [simp]: "n @ ''.tmp'' \<noteq> n" "n \<noteq> n @ ''.tmp''"
  by simp_all

lemma worker_mirrors:
  assumes "worker_ok (env (payload_name k))" "is_object payload"
  shows "processAvailableJobs is_object True env \<lparr>jf_payload = [(payload_name k, FsFile payload)], jf_results = []\<rparr> =
    \<lparr>jf_payload = [], jf_results = [(payload_name k, FsFile payload)]\<rparr>"
  using assms by (simp add: processAvailableJobs_def processSingleJob_def worker_ok_def)

lemma monitor_collects:
  assumes "monitor_ok env (payload_name k)" "valid payload" "\<not> ct_resultsClosed c"
  shows "monitor_tick valid True env c [(payload_name k, FsFile payload)] = Some (None, c\<lparr>ct_results := ct_results c @ [payload]\<rparr>, [])"
proof -
  let ?e = "result_entry env (payload_name k, FsFile payload)"
  have e: "de_regular ?e" "de_json ?e" "de_removed ?e" using assms(1) by (simp_all add: result_entry_def monitor_ok_def)
  have "readWithRetry (de_attempt ?e) = Some payload" using assms(1) readWithRetry_entry by (auto simp: monitor_ok_def)
  then have "processAndDeleteFile valid (de_attempt ?e) (de_removed ?e) = Some payload" using e assms(2) by (simp add: processAndDeleteFile_def)
  then show ?thesis using e assms(3) by (simp add: monitor_tick_def)
qed

text \<open>
  One job of the echo worker: AssignJob, a tick of the worker, a tick of the monitor. Whatever earlier jobs left in the payload
  directory, the payload is appended to the results and both directories are empty. The wait returns it unless an older result is in the channel.
\<close>

lemma echo_container:
  assumes a: "AssignJob_files penv now k payload c d = (None, c1, d1)"
    and ok: "worker_ok (wenv (payload_name k))" "monitor_ok menv (payload_name k)" "is_object payload" "valid payload" "\<not> ct_resultsClosed c"
  defines "f \<equiv> processAvailableJobs is_object True wenv \<lparr>jf_payload = d1, jf_results = []\<rparr>"
  shows "jf_payload f = []" "monitor_tick valid True menv c1 (jf_results f) = Some (None, c1\<lparr>ct_results := ct_results c @ [payload]\<rparr>, [])"
  using AssignJob_files_ok [OF a] worker_mirrors [of wenv k is_object payload] monitor_collects [of menv k valid payload c1] ok(2,4) ok(1,3) ok(5) by (simp_all add: f_def)

text \<open>A payload that could not be removed is mirrored again by the next tick of the worker, so its result is delivered twice.\<close>

lemma unremoved_payload_repeats:
  assumes "worker_ok env" "is_object payload"
  shows "processAvailableJobs is_object True (\<lambda>_. env\<lparr>wk_removePayload := False\<rparr>) \<lparr>jf_payload = [(payload_name k, FsFile payload)], jf_results = []\<rparr> =
    \<lparr>jf_payload = [(payload_name k, FsFile payload)], jf_results = [(payload_name k, FsFile payload)]\<rparr>"
  using assms by (simp add: processAvailableJobs_def processSingleJob_def worker_ok_def)

subsection \<open>An echo job on a node\<close>

lemma MarkRunning_again: "MarkRunning j0 k con = (None, j1) \<Longrightarrow> \<exists>j2. MarkRunning j1 k con' = (None, j2)"
  by (auto simp: MarkRunning_def split: option.splits)

text \<open>assignJob with the files: its container has the payload of the job in its directory.\<close>

lemma assign_start_files:
  assumes pack: "PackNextJob pe maxCpu maxMem j p = (PackStarted a job, j1, p1)"
    and files: "AssignJob_files penv now (cj_Id job) payload (cp_heap p1 a) d = (None, c1, d1)"
  obtains j2 where "assign_start None True now a job j1 p1 = (True, j2, set_con a c1 p1)"
proof -
  from pack obtain j0 where "MarkRunning j0 (cj_Id job) (ct_id (cp_heap p1 a)) = (None, j1)" by (rule PackStarted_cases)
  then obtain j2 where m: "MarkRunning j1 (cj_Id job) (ct_id (cp_heap p1 a)) = (None, j2)" using MarkRunning_again by blast
  have "Container_AssignJob True now (cj_Id job) (cp_heap p1 a) = (None, c1)"
    using AssignJob_files_container [OF files] by (auto simp: Container_AssignJob_def split: if_splits)
  then show ?thesis using m that by (simp add: assign_start_def)
qed

text \<open>A job that PackNextJob placed in a container with the echo worker completes with its own payload as result.\<close>

lemma echo_job_on_node:
  assumes inv: "jobs_inv j" "\<not> jq_closed j"
    and pack: "PackNextJob pe maxCpu maxMem j p = (PackStarted a job, j1, p1)"
    and files: "AssignJob_files penv now (cj_Id job) payload (cp_heap p1 a) d = (None, c1, d1)"
    and con: "ct_results (cp_heap p1 a) = []" "\<not> ct_resultsClosed (cp_heap p1 a)"
    and ok: "worker_ok (wenv (payload_name (cj_Id job)))" "monitor_ok menv (payload_name (cj_Id job))" "is_object payload" "valid payload"
  shows "\<exists>j2 c2 j3 p3. assign_start None True now a job j1 p1 = (True, j2, set_con a c1 p1) \<and>
    monitor_tick valid True menv c1 (jf_results (processAvailableJobs is_object True wenv \<lparr>jf_payload = d1, jf_results = []\<rparr>)) = Some (None, c2, []) \<and>
    assign_finish False now' a job j2 (set_con a c2 (set_con a c1 p1)) = Some (Some (j3, p3)) \<and>
    jq_Completed j3 = jq_Completed j @ [job\<lparr>cj_AssignedContainerID := ct_id (cp_heap p1 a), cj_Payload := Some payload, cj_Succeeded := True\<rparr>]"
proof -
  obtain j2 where start: "assign_start None True now a job j1 p1 = (True, j2, set_con a c1 p1)" by (rule assign_start_files [OF pack files])
  let ?r = "jf_results (processAvailableJobs is_object True wenv \<lparr>jf_payload = d1, jf_results = []\<rparr>)"
  let ?c = "c1\<lparr>ct_results := [payload]\<rparr>"
  have tick: "monitor_tick valid True menv c1 ?r = Some (None, ?c, [])"
    using echo_container(2) [OF files, of wenv menv is_object valid] ok con by simp
  then have "results_tick valid (map (result_entry menv) (ReadDir ?r)) c1 = Some (None, ?c)" by (auto simp: monitor_tick_def)
  then have "results_tick valid (map (result_entry menv) (ReadDir ?r)) (cp_heap (set_con a c1 p1) a) = Some (None, ?c)" by (simp add: set_con_def)
  then have "\<exists>j3 p3. assign_finish False now' a job j2 (set_con a ?c (set_con a c1 p1)) = Some (Some (j3, p3)) \<and>
    jq_Completed j3 = jq_Completed j @ [job\<lparr>cj_AssignedContainerID := ct_id (cp_heap p1 a), cj_Payload := Some payload, cj_Succeeded := True\<rparr>]"
    using placed_job_finishes [OF inv pack start, of valid _ None ?c payload "[]" now'] by simp blast
  then show ?thesis using start tick by blast
qed

end
