(* ===== verification/TestClients.thy ===== *)
theory TestClients
  imports SchedService
begin

section \<open>The two clients that drive the system (cmd/consensus_test, cmd/job_scheduling_test)\<close>

text \<open>
  consensus_test submits jobs to a consensus node and follows redirects; job_scheduling_test submits jobs to a scheduler, polls all
  schedulers for completed jobs and fetches each result once. Responses of the servers are arguments; JSON encoding and the clock too.
  The goroutines of the second client are steps of a relation, so that every interleaving is covered.
\<close>

subsection \<open>consensus_test: SendJob\<close>

text \<open>The client switches on the numbers of the enumeration (api/proto/consensus/v1/consensus.proto).\<close>

fun status_number :: "AppendResponseStatus \<Rightarrow> int" where
  "status_number APPEND_RESPONSE_SUCCESS = 0"
| "status_number APPEND_RESPONSE_BAD_PAYLOAD = 1"
| "status_number APPEND_RESPONSE_BAD_ORIGIN_ID = 2"
| "status_number APPEND_RESPONSE_NEEDS_SNAPSHOT = 3"
| "status_number APPEND_RESPONSE_FAILED_CONSENSUS = 4"
| "status_number APPEND_RESPONSE_CONCURRENT_CLAIM = 5"

datatype send_error = SendMarshal | SendNetwork | SendUnsupported int | SendExhausted

record Client =
  cl_address :: string
  cl_open :: bool

definition NewClient :: "(string \<Rightarrow> bool) \<Rightarrow> string \<Rightarrow> Client option" where
  "NewClient dial addr = (if dial addr then Some \<lparr>cl_address = addr, cl_open = True\<rparr> else None)"

definition Client_Close :: "Client \<Rightarrow> Client" where
  "Client_Close c = c\<lparr>cl_open := False\<rparr>"

text \<open>
  The attempts of SendJob: \<open>rpc i addr\<close> is the answer of the server at \<open>addr\<close> to the i-th attempt. The first argument is the number
  of attempts left. Closing the old connection and taking over the fields of the new client is taking the new client.
\<close>

fun send_loop :: "nat \<Rightarrow> (string \<Rightarrow> bool) \<Rightarrow> (nat \<Rightarrow> string \<Rightarrow> AppendResponse option) \<Rightarrow> nat \<Rightarrow> Client \<Rightarrow> send_error option \<times> Client" where
  "send_loop 0 dial rpc attempt c = (Some SendExhausted, c)"
| "send_loop (Suc left) dial rpc attempt c =
     (case rpc attempt (cl_address c) of
        None \<Rightarrow> (Some SendNetwork, c)
      | Some resp \<Rightarrow>
          if status_number (ar_Status resp) = 1 then (None, c)
          else if status_number (ar_Status resp) = 2
          then (if ar_LeaderAddress resp = '''' then send_loop left dial rpc (Suc attempt) c
                else case NewClient dial (ar_LeaderAddress resp) of
                  None \<Rightarrow> send_loop left dial rpc (Suc attempt) c
                | Some newClient \<Rightarrow> send_loop left dial rpc (Suc attempt) newClient)
          else (Some (SendUnsupported (status_number (ar_Status resp))), c))"

definition test_payload :: "string \<Rightarrow> string \<Rightarrow> int \<Rightarrow> bytes \<Rightarrow> JobPayload" where
  "test_payload jobID img priority rawTask =
     \<lparr>jp_ID = jobID, jp_State = Pending, jp_Image = img, jp_Priority = priority, jp_CPURequirement = 250, jp_MemoryRequirement = 100,
      jp_Payload = rawTask\<rparr>"

definition test_request :: "int \<Rightarrow> string \<Rightarrow> bytes \<Rightarrow> RawAppendRequest" where
  "test_request unixNano jobID payload =
     \<lparr>rq_OriginNodeId = ''consensus-test-client'', rq_RequestId = ''req-'' @ jobID @ ''-'' @ show_int unixNano,
      rq_SchedulerId = ''test-client-scheduler-example'', rq_Payload = payload\<rparr>"

definition SendJob :: "(string \<Rightarrow> bytes option) \<Rightarrow> (JobPayload \<Rightarrow> bytes option) \<Rightarrow> (string \<Rightarrow> bool) \<Rightarrow>
    (RawAppendRequest \<Rightarrow> nat \<Rightarrow> string \<Rightarrow> AppendResponse option) \<Rightarrow> int \<Rightarrow> string \<Rightarrow> string \<Rightarrow> int \<Rightarrow> string \<Rightarrow> Client \<Rightarrow>
    send_error option \<times> Client" where
  "SendJob marshal_command marshal dial rpc unixNano jobID img priority taskPayload c =
     (case marshal_command taskPayload of
        None \<Rightarrow> (Some SendMarshal, c)
      | Some rawTask \<Rightarrow>
          (case marshal (test_payload jobID img priority rawTask) of
             None \<Rightarrow> (Some SendMarshal, c)
           | Some payload \<Rightarrow> send_loop 3 dial (rpc (test_request unixNano jobID payload)) 1 c))"

text \<open>The batch of main: the jobs in order, each with its own clock, and the number of jobs that SendJob reported as sent.\<close>

fun send_batch :: "((string \<times> string \<times> int \<times> string) \<Rightarrow> Client \<Rightarrow> send_error option \<times> Client) \<Rightarrow>
    (string \<times> string \<times> int \<times> string) list \<Rightarrow> int \<Rightarrow> Client \<Rightarrow> int \<times> Client" where
  "send_batch send [] successful c = (successful, c)"
| "send_batch send (job # jobs) successful c =
     (case send job c of
        (Some _, c1) \<Rightarrow> send_batch send jobs successful c1
      | (None, c1) \<Rightarrow> send_batch send jobs (wrap64 (successful + 1)) c1)"

definition jobsToSend :: "(string \<times> string \<times> int \<times> string) list" where
  "jobsToSend =
     [(''job-001'', ''ubuntu:latest'', 3, ''echo '' @ [CHR 39] @ ''Initializing Kubernetes Engine'' @ [CHR 39]),
      (''job-002'', ''golang:1.22-alpine'', 5, ''go test -v ./...''),
      (''job-003'', ''redis:alpine'', 1, ''redis-server --protected-mode no''),
      (''job-004'', ''nginx:latest'', 2, ''nginx -g '' @ [CHR 39] @ ''daemon off;'' @ [CHR 39])]"

text \<open>
  What ClientAppend can answer: the refusal of its check, or the answer of its wait, where the node may have gone on in between.
\<close>

inductive client_answer :: "(bytes \<Rightarrow> peekPayload option) \<Rightarrow> (bytes \<Rightarrow> genericPayload option) \<Rightarrow> Node \<Rightarrow> RawAppendRequest \<Rightarrow> AppendResponse \<Rightarrow> bool"
  for peek unmarshal n req where
  refused: "client_check peek unmarshal n req = Inl resp \<Longrightarrow> client_answer peek unmarshal n req resp"
| waited: "client_check peek unmarshal n req = Inr std \<Longrightarrow> client_wait ctxDone n1 ch std = (Some resp, n2) \<Longrightarrow>
    client_answer peek unmarshal n req resp"

inductive_cases client_answer_elim: "client_answer peek unmarshal n req resp"

lemma client_answer_status:
  assumes "client_answer peek unmarshal n req resp"
  shows "ar_Status resp \<in> {APPEND_RESPONSE_SUCCESS, APPEND_RESPONSE_BAD_PAYLOAD, APPEND_RESPONSE_FAILED_CONSENSUS, APPEND_RESPONSE_CONCURRENT_CLAIM}"
  using assms
  by (elim client_answer_elim)
    (auto simp: client_check_def client_wait_def client_response_def Let_def split: if_splits casConflict.splits list.splits)

lemma client_answer_follower:
  assumes "client_answer peek unmarshal n req resp" "st_role (n_state n) \<noteq> Leader"
  shows "resp = client_response n req"
  using assms by (elim client_answer_elim) (auto simp: client_check_def Let_def)

text \<open>
  The test client reads the status the wrong way round: The numbers SendJob switches on are not those of the enumeration.
  Whatever a consensus node answers, SendJob makes one attempt and never follows a redirect: it reports success exactly for the status
  BAD_PAYLOAD, so for every node that is not the leader, and it reports an error when the leader has committed the job.
\<close>

lemma SendJob_inverts_status:
  assumes "marshal_command task = Some raw" "marshal (test_payload k img prio raw) = Some payload"
    and answer: "client_answer peek unmarshal n (test_request nano k payload) resp"
    and rpc: "rpc (test_request nano k payload) 1 (cl_address c) = Some resp"
  shows "SendJob marshal_command marshal dial rpc nano k img prio task c =
      (if ar_Status resp = APPEND_RESPONSE_BAD_PAYLOAD then None else Some (SendUnsupported (status_number (ar_Status resp))), c) \<and>
    (st_role (n_state n) \<noteq> Leader \<longrightarrow> fst (SendJob marshal_command marshal dial rpc nano k img prio task c) = None) \<and>
    (ar_Status resp = APPEND_RESPONSE_SUCCESS \<longrightarrow>
      fst (SendJob marshal_command marshal dial rpc nano k img prio task c) = Some (SendUnsupported 0))"
proof -
  have *: "SendJob marshal_command marshal dial rpc nano k img prio task c =
      (if ar_Status resp = APPEND_RESPONSE_BAD_PAYLOAD then None else Some (SendUnsupported (status_number (ar_Status resp))), c)"
    using assms(1,2) rpc client_answer_status [OF answer] by (auto simp: SendJob_def eval_nat_numeral)
  have "st_role (n_state n) \<noteq> Leader \<longrightarrow> ar_Status resp = APPEND_RESPONSE_BAD_PAYLOAD"
    using client_answer_follower [OF answer] by (auto simp: client_response_def)
  with * show ?thesis by simp
qed

lemma SendJob_inverts_status_example:
  "\<exists>resp. client_answer (\<lambda>_. None) (\<lambda>_. None) demo_follower (test_request 7 ''job-001'' [1]) resp \<and>
     fst (SendJob (\<lambda>_. Some [2]) (\<lambda>_. Some [1]) (\<lambda>_. True) (\<lambda>_ _ _. Some resp) 7 ''job-001'' ''img'' 3 ''cmd'' \<lparr>cl_address = ''addr'', cl_open = True\<rparr>) = None"
proof -
  let ?resp = "client_response demo_follower (test_request 7 ''job-001'' [1])"
  have role: "st_role (n_state demo_follower) \<noteq> Leader" by code_simp
  then have a: "client_answer (\<lambda>_. None) (\<lambda>_. None) demo_follower (test_request 7 ''job-001'' [1]) ?resp"
    by (intro refused) (simp add: client_check_def Let_def)
  show ?thesis
    using SendJob_inverts_status [OF _ _ a, of "\<lambda>_. Some [2]" "''cmd''" "[2]" "\<lambda>_. Some [1]" "''img''" 3 "\<lambda>_ _ _. Some ?resp"
        "\<lparr>cl_address = ''addr'', cl_open = True\<rparr>" "\<lambda>_. True"] role a by auto
qed

text \<open>
  The scheduler's own client does better: the refusal of a node that knows another leader makes it connect to that leader, so
  that the next commit reaches it.
\<close>

lemma commit_follows_leader:
  assumes "client_answer peek unmarshal n req resp" "st_role (n_state n) \<noteq> Leader" "leader_address n \<noteq> ''''" "dial (leader_address n)"
  shows "commitPayload dial (Some resp) c = (Some CommitBadPayload,
    if leader_address n = rc_address c then c else c\<lparr>rc_address := leader_address n, rc_conn := True, rc_closed := False\<rparr>)"
  using client_answer_follower [OF assms(1,2)] assms(2-4)
  by (simp add: commitPayload_def client_response_def switchConnection_def Let_def)

subsection \<open>job_scheduling_test: submission\<close>

text \<open>
  The shared state of the workers: the sets of accepted and of cleaned-up jobs, the counters of type int32, and the clean-ups under
  way, each with the index of its scheduler.
\<close>

record TestRun =
  tr_active :: goset
  tr_submitted :: int
  tr_submitErrors :: int
  tr_cleaned :: goset
  tr_inflight :: "(nat \<times> string) list"
  tr_totalCleaned :: int
  tr_failed :: int
  tr_cumulative :: "int list"

definition start_run :: "nat \<Rightarrow> TestRun" where
  "start_run clients = \<lparr>tr_active = [], tr_submitted = 0, tr_submitErrors = 0, tr_cleaned = [], tr_inflight = [], tr_totalCleaned = 0,
     tr_failed = 0, tr_cumulative = replicate clients 0\<rparr>"

text \<open>The answer to one RequestJob: acceptance and identifier, \<open>None\<close> when the call failed.\<close>

fun submit_one :: "(bool \<times> string) option \<Rightarrow> TestRun \<Rightarrow> TestRun" where
  "submit_one None r = r\<lparr>tr_submitErrors := wrap32 (tr_submitErrors r + 1)\<rparr>"
| "submit_one (Some (accept, jobId)) r =
     (if accept \<and> jobId \<noteq> '''' then r\<lparr>tr_active := List.insert jobId (tr_active r), tr_submitted := wrap32 (tr_submitted r + 1)\<rparr> else r)"

definition submit_all :: "(bool \<times> string) option list \<Rightarrow> TestRun \<Rightarrow> TestRun" where
  "submit_all answers r = fold submit_one answers r"

subsection \<open>job_scheduling_test: polling and clean-up\<close>

definition poll_done :: "TestRun \<Rightarrow> bool" where
  "poll_done r \<longleftrightarrow> tr_totalCleaned r \<ge> tr_submitted r"

record schedStats =
  sst_addr :: string
  sst_pending :: nat
  sst_running :: nat
  sst_completed :: nat
  sst_cleanedUp :: int
  sst_total :: int
  sst_err :: bool

definition stats_row :: "TestRun \<Rightarrow> nat \<Rightarrow> string \<Rightarrow> (int \<times> string list \<times> string list \<times> string list) option \<Rightarrow> schedStats" where
  "stats_row r idx addr listResp =
     (case listResp of
        None \<Rightarrow> \<lparr>sst_addr = addr, sst_pending = 0, sst_running = 0, sst_completed = 0, sst_cleanedUp = 0, sst_total = 0, sst_err = True\<rparr>
      | Some (totalJobs, completed, running, pending) \<Rightarrow>
          \<lparr>sst_addr = addr, sst_pending = length pending, sst_running = length running, sst_completed = length completed,
           sst_cleanedUp = tr_cumulative r ! idx, sst_total = totalJobs, sst_err = False\<rparr>)"

text \<open>A completed job of the list: ours, and not yet cleaned up (LoadOrStore), so a goroutine starts.\<close>

definition claim_cleanup :: "nat \<Rightarrow> string \<Rightarrow> TestRun \<Rightarrow> TestRun" where
  "claim_cleanup idx jobID r =
     (if jobID \<in> set (tr_active r) \<and> jobID \<notin> set (tr_cleaned r)
      then r\<lparr>tr_cleaned := jobID # tr_cleaned r, tr_inflight := (idx, jobID) # tr_inflight r\<rparr> else r)"

text \<open>The goroutine ends with the answer to RequestJobStatus, status and result, or \<open>None\<close>.\<close>

definition finish_cleanup :: "bytes \<Rightarrow> nat \<Rightarrow> string \<Rightarrow> (string \<times> bytes) option \<Rightarrow> TestRun \<Rightarrow> TestRun" where
  "finish_cleanup payload idx jid resp r =
     (let r = r\<lparr>tr_inflight := remove1 (idx, jid) (tr_inflight r)\<rparr> in
      case resp of
        None \<Rightarrow> r\<lparr>tr_cleaned := removeAll jid (tr_cleaned r)\<rparr>
      | Some (_, result) \<Rightarrow>
          r\<lparr>tr_failed := (if result \<noteq> payload then wrap64 (tr_failed r + 1) else tr_failed r),
            tr_totalCleaned := wrap32 (tr_totalCleaned r + 1),
            tr_cumulative := (tr_cumulative r)[idx := wrap32 (tr_cumulative r ! idx + 1)]\<rparr>)"

inductive test_step :: "bytes \<Rightarrow> TestRun \<Rightarrow> TestRun \<Rightarrow> bool" for payload where
  step_claim: "idx < length (tr_cumulative r) \<Longrightarrow> test_step payload r (claim_cleanup idx jid r)"
| step_finish: "(idx, jid) \<in> set (tr_inflight r) \<Longrightarrow> test_step payload r (finish_cleanup payload idx jid resp r)"

inductive_cases test_step_elim: "test_step payload r r'"

definition run_inv :: "TestRun \<Rightarrow> bool" where
  "run_inv r \<longleftrightarrow> distinct (tr_active r) \<and> distinct (tr_cleaned r) \<and> set (tr_cleaned r) \<subseteq> set (tr_active r) \<and>
     distinct (map snd (tr_inflight r)) \<and> snd ` set (tr_inflight r) \<subseteq> set (tr_cleaned r) \<and>
     (\<forall>(idx, jid)\<in>set (tr_inflight r). idx < length (tr_cumulative r)) \<and>
     tr_totalCleaned r = int (length (tr_cleaned r)) - int (length (tr_inflight r)) \<and>
     (\<forall>x\<in>set (tr_cumulative r). 0 \<le> x) \<and> sum_list (tr_cumulative r) = tr_totalCleaned r \<and>
     0 \<le> tr_failed r \<and> tr_failed r \<le> tr_totalCleaned r"

lemma sum_list_bump: "i < length xs \<Longrightarrow> sum_list (xs[i := xs ! i + 1]) = sum_list xs + (1 :: int)"
  by (induction xs arbitrary: i) (auto split: nat.splits)

lemma nonneg_le_sum_list: "\<forall>x\<in>set xs. 0 \<le> x \<Longrightarrow> i < length xs \<Longrightarrow> xs ! i \<le> sum_list xs" for xs :: "int list"
proof (induction xs arbitrary: i)
  case (Cons x xs)
  then have "0 \<le> sum_list xs" by (auto intro: sum_list_nonneg)
  then show ?case using Cons by (cases i) (auto intro: add_increasing)
qed simp

lemma remove1_split:
  assumes "x \<in> set xs"
  obtains ys zs where "xs = ys @ x # zs" "remove1 x xs = ys @ zs"
  using assms by (metis split_list_first remove1_append remove1.simps(2))

lemma claim_inv: "run_inv r \<Longrightarrow> idx < length (tr_cumulative r) \<Longrightarrow> run_inv (claim_cleanup idx jid r)"
  by (auto simp: run_inv_def claim_cleanup_def)

lemma finish_failed_inv:
  assumes inv: "run_inv r" and fl: "(idx, jid) \<in> set (tr_inflight r)"
  shows "run_inv (finish_cleanup payload idx jid None r)"
proof -
  from fl obtain xs ys where split: "tr_inflight r = xs @ (idx, jid) # ys" and rest: "remove1 (idx, jid) (tr_inflight r) = xs @ ys"
    by (rule remove1_split)
  have "jid \<notin> snd ` set (xs @ ys)" using inv split by (auto simp: run_inv_def image_iff)
  moreover have "distinct (tr_cleaned r)" "jid \<in> set (tr_cleaned r)" using inv split by (auto simp: run_inv_def)
  moreover from this have "int (length (removeAll jid (tr_cleaned r))) = int (length (tr_cleaned r)) - 1"
    using length_pos_if_in_set [of jid "tr_cleaned r"] by (simp add: distinct_remove1_removeAll [symmetric] length_remove1 of_nat_diff Suc_leI)
  moreover have "finish_cleanup payload idx jid None r = r\<lparr>tr_inflight := xs @ ys, tr_cleaned := removeAll jid (tr_cleaned r)\<rparr>"
    by (simp add: finish_cleanup_def rest)
  ultimately show ?thesis using inv split by (auto simp: run_inv_def distinct_removeAll)
qed

lemma finish_ok_inv:
  assumes inv: "run_inv r" and fl: "(idx, jid) \<in> set (tr_inflight r)" and small: "int (length (tr_active r)) < 2 ^ 31"
  shows "run_inv (finish_cleanup payload idx jid (Some (st, result)) r)"
proof -
  from fl obtain xs ys where split: "tr_inflight r = xs @ (idx, jid) # ys" and rest: "remove1 (idx, jid) (tr_inflight r) = xs @ ys"
    by (rule remove1_split)
  let ?c = "tr_cumulative r"
  have idx: "idx < length ?c" using inv fl by (auto simp: run_inv_def)
  have "length (tr_cleaned r) \<le> length (tr_active r)" using inv by (metis run_inv_def card_mono distinct_card finite_set)
  then have bound: "0 \<le> tr_totalCleaned r" "tr_totalCleaned r + 1 < 2 ^ 31"
    using inv split small by (auto simp: run_inv_def)
  have nonneg: "\<forall>x\<in>set ?c. 0 \<le> x" using inv by (simp add: run_inv_def)
  then have "0 \<le> ?c ! idx" "?c ! idx \<le> sum_list ?c" using idx nonneg_le_sum_list by auto
  then have w: "wrap32 (?c ! idx + 1) = ?c ! idx + 1" "wrap32 (tr_totalCleaned r + 1) = tr_totalCleaned r + 1"
    using bound inv by (auto simp: run_inv_def in_int32_def intro!: wrap32_id)
  have f: "wrap64 (tr_failed r + 1) = tr_failed r + 1"
    using bound inv by (intro wrap64_id) (auto simp: run_inv_def in_int64_def)
  have "\<forall>x\<in>set (?c[idx := ?c ! idx + 1]). 0 \<le> x"
    using inv \<open>0 \<le> ?c ! idx\<close> by (auto simp: run_inv_def dest!: set_update_subset_insert [THEN subsetD])
  moreover have "finish_cleanup payload idx jid (Some (st, result)) r =
      r\<lparr>tr_inflight := xs @ ys, tr_failed := (if result \<noteq> payload then tr_failed r + 1 else tr_failed r),
        tr_totalCleaned := tr_totalCleaned r + 1, tr_cumulative := ?c[idx := ?c ! idx + 1]\<rparr>"
    by (simp add: finish_cleanup_def rest w f)
  ultimately show ?thesis using inv split idx by (auto simp: run_inv_def sum_list_bump)
qed

lemma test_step_inv:
  assumes "test_step payload r r'" "run_inv r" "int (length (tr_active r)) < 2 ^ 31"
  shows "run_inv r' \<and> tr_active r' = tr_active r \<and> tr_submitted r' = tr_submitted r"
  using assms
proof cases
  case (step_claim idx jid)
  then show ?thesis using assms(2) claim_inv by (auto simp: claim_cleanup_def)
next
  case (step_finish idx jid resp)
  have "run_inv r'" using step_finish assms(2,3) finish_failed_inv finish_ok_inv by (cases resp) auto
  then show ?thesis using step_finish by (auto simp: finish_cleanup_def Let_def split: option.splits)
qed

lemma test_run_inv:
  assumes "(test_step payload)\<^sup>*\<^sup>* r r'" "run_inv r" "int (length (tr_active r)) < 2 ^ 31"
  shows "run_inv r' \<and> tr_active r' = tr_active r \<and> tr_submitted r' = tr_submitted r"
  using assms by (induction rule: rtranclp_induct) (auto dest: test_step_inv)

definition accepted_ids :: "(bool \<times> string) option list \<Rightarrow> string list" where
  "accepted_ids answers = [jobId. Some (True, jobId) \<leftarrow> answers, jobId \<noteq> '''']"

lemma accepted_ids_snoc [simp]:
  "accepted_ids [] = []"
  "accepted_ids (answers @ [x]) =
     accepted_ids answers @ (case x of Some (accept, jobId) \<Rightarrow> if accept \<and> jobId \<noteq> '''' then [jobId] else [] | None \<Rightarrow> [])"
  by (auto simp: accepted_ids_def split: option.splits bool.splits)

lemma accepted_ids_length: "length (accepted_ids answers) \<le> length answers"
  by (induction answers rule: rev_induct) (auto split: option.splits)

lemma submit_all_start:
  assumes "distinct (accepted_ids answers)" "int (length answers) < 2 ^ 31"
  shows "tr_active (submit_all answers (start_run n)) = rev (accepted_ids answers) \<and>
    tr_submitted (submit_all answers (start_run n)) = int (length (accepted_ids answers)) \<and>
    run_inv (submit_all answers (start_run n)) \<and> tr_cumulative (submit_all answers (start_run n)) = replicate n 0 \<and>
    tr_cleaned (submit_all answers (start_run n)) = [] \<and> tr_inflight (submit_all answers (start_run n)) = []"
  using assms
proof (induction answers rule: rev_induct)
  case Nil
  then show ?case by (simp add: submit_all_def start_run_def run_inv_def sum_list_replicate)
next
  case (snoc x answers)
  let ?r = "submit_all answers (start_run n)"
  have IH: "tr_active ?r = rev (accepted_ids answers)" "tr_submitted ?r = int (length (accepted_ids answers))" "run_inv ?r"
    "tr_cumulative ?r = replicate n 0" "tr_cleaned ?r = []" "tr_inflight ?r = []"
    using snoc by (auto split: option.splits if_splits)
  have "in_int32 (int (length (accepted_ids answers)) + 1)"
    using snoc.prems(2) accepted_ids_length [of answers] by (auto simp: in_int32_def)
  then have w: "wrap32 (int (length (accepted_ids answers)) + 1) = int (length (accepted_ids answers)) + 1" by (rule wrap32_id)
  have step: "submit_all (answers @ [x]) (start_run n) = submit_one x ?r" by (simp add: submit_all_def)
  show ?case
  proof (cases "\<exists>k. x = Some (True, k) \<and> k \<noteq> ''''")
    case True
    then obtain k where x: "x = Some (True, k)" "k \<noteq> ''''" by blast
    then show ?thesis using IH snoc.prems(1) unfolding step by (auto simp: w run_inv_def List.insert_def)
  next
    case False
    then have "submit_one x ?r = ?r \<or> submit_one x ?r = ?r\<lparr>tr_submitErrors := wrap32 (tr_submitErrors ?r + 1)\<rparr>"
      "accepted_ids (answers @ [x]) = accepted_ids answers"
      by (cases x; auto)+
    then show ?thesis using IH unfolding step by (auto simp: run_inv_def)
  qed
qed

text \<open>
  C28 (the load test counts every job once). Submit jobs whose accepted identifiers are distinct, then run polls and clean-ups of any
  number of schedulers in any interleaving: a job is never being fetched twice at the same time, every count is of a different accepted job, the
  counts of the schedulers add up to the total, and when the loop stops, every accepted job has been fetched exactly
  once and nothing is under way.
\<close>

theorem load_test_counts_once:
  assumes small: "int (length answers) < 2 ^ 31"
    and dist: "distinct (accepted_ids answers)"
    and run: "(test_step payload)\<^sup>*\<^sup>* (submit_all answers (start_run n)) r"
  shows "distinct (map snd (tr_inflight r)) \<and> snd ` set (tr_inflight r) \<subseteq> set (tr_cleaned r) \<and> set (tr_cleaned r) \<subseteq> set (accepted_ids answers) \<and>
    tr_totalCleaned r = int (card (set (tr_cleaned r) - snd ` set (tr_inflight r))) \<and> sum_list (tr_cumulative r) = tr_totalCleaned r \<and>
    tr_failed r \<le> tr_totalCleaned r \<and>
    (poll_done r \<longleftrightarrow> set (tr_cleaned r) = set (accepted_ids answers) \<and> tr_inflight r = [])"
proof -
  note start = submit_all_start [OF dist small, of n]
  have "int (length (tr_active (submit_all answers (start_run n)))) < 2 ^ 31"
    using start small accepted_ids_length [of answers] by auto
  from test_run_inv [OF run _ this] start have inv: "run_inv r" and act: "tr_active r = rev (accepted_ids answers)"
    and sub: "tr_submitted r = int (length (accepted_ids answers))" by auto
  let ?C = "set (tr_cleaned r)" and ?F = "snd ` set (tr_inflight r)"
  have c: "card ?C = length (tr_cleaned r)" "card ?F = length (tr_inflight r)" "?F \<subseteq> ?C" "?C \<subseteq> set (accepted_ids answers)"
    using inv act by (auto simp: run_inv_def distinct_card distinct_map card_image)
  have total: "tr_totalCleaned r = int (card (?C - ?F))"
    using inv c by (simp add: run_inv_def card_Diff_subset of_nat_diff card_mono)
  have acc: "card (set (accepted_ids answers)) = length (accepted_ids answers)" by (rule distinct_card [OF dist])
  have "poll_done r \<longleftrightarrow> card (set (accepted_ids answers)) \<le> card (?C - ?F)" by (simp add: poll_done_def total sub acc)
  also have "\<dots> \<longleftrightarrow> ?C - ?F = set (accepted_ids answers)"
    using c(4) by (metis Diff_subset List.finite_set card_seteq order_refl subset_trans)
  also have "\<dots> \<longleftrightarrow> ?C = set (accepted_ids answers) \<and> tr_inflight r = []"
    using c(3,4) by (cases "tr_inflight r") auto
  finally show ?thesis using inv total c by (auto simp: run_inv_def)
qed

text \<open>With a repeated identifier fewer jobs can be counted than were submitted.\<close>

lemma repeated_id_never_done:
  assumes "run_inv r" "int (length (tr_active r)) < tr_submitted r"
  shows "\<not> poll_done r"
proof -
  have "length (tr_cleaned r) \<le> length (tr_active r)" using assms(1) by (metis run_inv_def card_mono distinct_card finite_set)
  then show ?thesis using assms by (auto simp: run_inv_def poll_done_def)
qed

theorem load_test_counts_once_witness:
  "\<exists>r. (test_step [1])\<^sup>*\<^sup>* (submit_all [Some (True, ''a''), None] (start_run 2)) r \<and> poll_done r \<and> tr_cleaned r = [''a''] \<and> tr_inflight r = []"
proof -
  let ?r0 = "submit_all [Some (True, ''a''), None] (start_run 2)"
  let ?r1 = "claim_cleanup 1 ''a'' ?r0" and ?r2 = "finish_cleanup [1] 1 ''a'' (Some (''Completed'', [1])) (claim_cleanup 1 ''a'' ?r0)"
  have "test_step [1] ?r0 ?r1" by (rule step_claim) code_simp
  moreover have "test_step [1] ?r1 ?r2" by (rule step_finish) code_simp
  ultimately have run: "(test_step [1])\<^sup>*\<^sup>* ?r0 ?r2" by (meson rtranclp.rtrancl_into_rtrancl rtranclp.rtrancl_refl)
  have d: "distinct (accepted_ids [Some (True, ''a''), None])" "tr_cleaned ?r2 = [''a'']" "set (accepted_ids [Some (True, ''a''), None]) = {''a''}"
    "tr_inflight ?r2 = []" by code_simp+
  have "poll_done ?r2" using load_test_counts_once [OF _ d(1) run] d by simp
  then show ?thesis using run d by blast
qed

end
