(* ===== verification/Programs.thy ===== *)
theory Programs
  imports RaftElection SchedConns ClusterNode Environment
begin

section \<open>The programs (cmd/cluster_node, cmd/consensus_node, cmd/scheduler_node)\<close>

text \<open>
  How the three main programs build their components from a configuration, what a tick of each of their loops does, and how
  they shut down. Flags, configuration files and the set-up of the logs are in \<^verbatim>\<open>Startup\<close>.
\<close>

subsection \<open>The cluster node\<close>

text \<open>\<open>None\<close> is the panic for missing limits. The heap is the memory the containers will live in.\<close>

definition cluster_setup :: "time \<Rightarrow> (nat \<Rightarrow> Container) \<Rightarrow> Machine \<Rightarrow> ClusterServer option" where
  "cluster_setup now heap env =
     map_option (\<lambda>(cpu, mem). NewClusterServer now (ma_MachineName env) ('':'' @ ma_SchedulerPort env) cpu mem CreateJobsQueue
       (CreateContainerHandler heap (ma_JobPayloadDir env)) (ma_Images env)) (GetMachineLimits env)"

definition packJobs :: "pack_env \<Rightarrow> Machine \<Rightarrow> ClusterServer \<Rightarrow> (pack_result \<times> ClusterServer) option" where
  "packJobs pe env s =
     (case GetMachineLimits env of
        None \<Rightarrow> None
      | Some (maxCpu, maxMem) \<Rightarrow>
          (case PackNextJob pe maxCpu maxMem (sv_jobQueue s) (sv_containers s) of
             (r, j, p) \<Rightarrow> Some (r, s\<lparr>sv_jobQueue := j, sv_containers := p\<rparr>)))"

definition healthRules :: "time \<Rightarrow> (nat \<Rightarrow> inspection option) \<Rightarrow> HealthRule list" where
  "healthRules now inspect =
     [HealthRuleUnresponsive inspect, HealthRuleTimedOut now, HealthRuleExceededJobLimits, HealthRuleNoMoreJobs now]"

definition healthChecks :: "time \<Rightarrow> (nat \<Rightarrow> bool \<times> bool) \<Rightarrow> (nat \<Rightarrow> inspection option) \<Rightarrow> ClusterServer \<Rightarrow> ClusterServer option" where
  "healthChecks now rm inspect s =
     map_option (\<lambda>(_, j, p). s\<lparr>sv_jobQueue := j, sv_containers := p\<rparr>)
       (RunHealthRule now rm (healthRules now inspect) (sv_jobQueue s) (sv_containers s))"

text \<open>The deferred shutdown: the queue, the containers, the log writer.\<close>

definition cluster_shutdown :: "(nat \<Rightarrow> bool \<times> bool) \<Rightarrow> bool \<Rightarrow> ClusterServer \<Rightarrow> LogWriter \<Rightarrow> (ClusterServer \<times> LogWriter) option" where
  "cluster_shutdown rm readable s logger =
     (case Jobs_Close (sv_jobQueue s) of
        None \<Rightarrow> None
      | Some j \<Rightarrow>
          (case Pool_Close rm readable (sv_containers s) of
             None \<Rightarrow> None
           | Some (_, p) \<Rightarrow> map_option (Pair (s\<lparr>sv_jobQueue := j, sv_containers := p\<rparr>)) (LogWriter_Close logger)))"

subsection \<open>The consensus node\<close>

definition consensus_setup :: "disk_env \<Rightarrow> disk \<Rightarrow> tick \<Rightarrow> nat \<Rightarrow> (State \<Rightarrow> nat option) \<Rightarrow> NodeConfig \<Rightarrow> store_error + Node" where
  "consensus_setup env d tk r dial cfg =
     (case LoadStorage env d 10000 of
        Inl err \<Rightarrow> Inl err
      | Inr storage \<Rightarrow>
          let peers = map (\<lambda>p. New (tk_now tk) (tk_rand tk) r (pn_NodeID p) (pn_NodeAddress p)) (nc_Peers cfg)
          in Inr (ConnectToPeers dial (NewNode tk r (nc_NodeID cfg) (nc_NodePort cfg) storage) peers))"

definition majorityNeeded :: "nat \<Rightarrow> nat" where
  "majorityNeeded numberOfPeers = (numberOfPeers + 1) div 2"

text \<open>The events the select of waitForMajorityConnected takes: a tick with the connected peers (\<open>Some\<close>), or the deadline. \<open>None\<close> while it waits.\<close>

fun waitForMajorityConnected :: "nat \<Rightarrow> nat option list \<Rightarrow> bool option" where
  "waitForMajorityConnected needed [] = None"
| "waitForMajorityConnected needed (None # events) = Some False"
| "waitForMajorityConnected needed (Some connected # events) =
     (if connected \<ge> needed then Some True else waitForMajorityConnected needed events)"

text \<open>The end of init: the wait for a majority, then RecordContact. \<open>None\<close> while it waits, \<open>Some None\<close> when the process gives up.\<close>

definition consensus_start :: "tick \<Rightarrow> nat \<Rightarrow> nat option list \<Rightarrow> Node \<Rightarrow> Node option option" where
  "consensus_start tk numberOfPeers events n =
     map_option (\<lambda>ok. if ok then Some (Node_RecordContact tk n) else None) (waitForMajorityConnected (majorityNeeded numberOfPeers) events)"

text \<open>The deferred shutdown of main: the node, with the connections it closes, then the storage.\<close>

definition consensus_shutdown :: "Node \<Rightarrow> nat list \<times> Node" where
  "consensus_shutdown n =
     (case Node_Close n of (conns, n1) \<Rightarrow> (conns, n1\<lparr>n_FileHandler := Handler_Close (n_FileHandler n1)\<rparr>))"

definition runRaftLoops :: "tick \<Rightarrow> VoteResponse option list \<Rightarrow> VoteResponse option list \<Rightarrow> Node \<Rightarrow> Node" where
  "runRaftLoops tk prs frs n = (if Node_IsElectionTimeout tk n then StartElection tk prs frs n else n)"

subsection \<open>The scheduler\<close>

definition peer_map_of :: "PeerConfig list \<Rightarrow> (string, string) gomap" where
  "peer_map_of peers = fold (\<lambda>p m. AList.update (pg_PeerID p) (pg_PeerPort p) m) peers []"

definition scheduler_setup :: "time \<Rightarrow> (nat \<Rightarrow> Job) \<Rightarrow> (nat \<Rightarrow> ClusterState) \<Rightarrow> SchedulerConfig \<Rightarrow>
    CentralState \<times> (string, string) gomap \<times> (string, string) gomap" where
  "scheduler_setup now jh ch cfg =
     (let s = NewState jh ch (sg_SchedulerID cfg) (sg_SchedulerPort cfg);
          s = fold (\<lambda>p s. AddPeerScheduler now s (pg_PeerID p)) (sg_PeerSchedulers cfg) s;
          s = fold (\<lambda>c s. AddLocalCluster now s (pg_PeerID c)) (sg_Clusters cfg) s
      in (s, peer_map_of (sg_PeerSchedulers cfg), peer_map_of (sg_Clusters cfg)))"

text \<open>NewSchedulerControl: the raft client, and a connection, at first not connected, for every address that can be dialled.\<close>

record SchedulerControl =
  sc_serving :: bool
  sc_clusterConns :: "(string, ClusterLink) gomap"
  sc_RaftConn :: RaftClient
  sc_peerConns :: "PeerLink list"

definition NewSchedulerControl :: "(string \<Rightarrow> bool) \<Rightarrow> (string \<Rightarrow> bool) \<Rightarrow> string list \<Rightarrow> (string, string) gomap \<Rightarrow> (string, string) gomap \<Rightarrow>
    SchedulerControl option" where
  "NewSchedulerControl dial reachable raftAddrs peerSchedulers clusters =
     map_option (\<lambda>raft.
         \<lparr>sc_serving = False,
          sc_clusterConns = fold (\<lambda>(key, addr) conns. case Cluster_NewConn dial key addr of
              None \<Rightarrow> conns | Some conn \<Rightarrow> AList.update key conn conns) clusters [],
          sc_RaftConn = raft,
          sc_peerConns = List.map_filter (\<lambda>(key, addr). Peer_NewConn dial key addr) peerSchedulers\<rparr>)
       (NewRaftClient dial reachable raftAddrs)"

text \<open>Start serves if the port can be bound; Stop closes the server, the raft client and the cluster connections.\<close>

definition SchedulerControl_Start :: "bool \<Rightarrow> SchedulerControl \<Rightarrow> SchedulerControl option" where
  "SchedulerControl_Start bound sc = (if bound then Some (sc\<lparr>sc_serving := True\<rparr>) else None)"

definition SchedulerControl_Stop :: "SchedulerControl \<Rightarrow> SchedulerControl" where
  "SchedulerControl_Stop sc =
     sc\<lparr>sc_serving := False, sc_RaftConn := RaftClient_Close (sc_RaftConn sc),
       sc_clusterConns := map (\<lambda>(key, conn). (key, Cluster_Close conn)) (sc_clusterConns sc)\<rparr>"

definition cluster_conns :: "SchedulerControl \<Rightarrow> (string, ClusterConn) gomap" where
  "cluster_conns sc = map (\<lambda>(key, l). (key, ln_conn l)) (sc_clusterConns sc)"

subsection \<open>Properties\<close>

text \<open>The runs of a cluster node begin with its set-up, and the ticks of its loops are steps of them.\<close>

lemma cluster_setup_run: "cluster_setup now heap env = Some s \<Longrightarrow> node_run s {#} {#}"
  by (auto simp: cluster_setup_def intro: node_start)

lemma packJobs_run: "node_run s ins outs \<Longrightarrow> packJobs pe env s = Some (r, s') \<Longrightarrow> node_run s' ins outs"
  by (auto simp: packJobs_def intro: node_pack split: option.splits prod.splits)

lemma healthChecks_run: "node_run s ins outs \<Longrightarrow> healthChecks now rm inspect s = Some s' \<Longrightarrow> node_run s' ins outs"
  by (auto simp: healthChecks_def intro: node_health)

text \<open>A machine that was imported never panics in these loops for want of limits.\<close>

lemma imported_machine_runs:
  assumes "Cluster_ImportEnvironment read pm pl pi wk config limitsFile = Inr m"
  shows "\<exists>s. cluster_setup now heap m = Some s" "\<exists>r s'. packJobs pe m s = Some (r, s')"
  using imported_machine(1) [OF assms] by (auto simp: cluster_setup_def packJobs_def split: prod.splits)

text \<open>A shutdown hands every job the node still holds to the stream, once, and leaves the queue empty.\<close>

lemma shutdown_completes_jobs:
  assumes run: "node_run s ins outs" and sd: "cluster_shutdown rm readable s logger = Some (s', logger')"
  shows "ins = outs + mset (map cj_Id (jq_Completed (sv_jobQueue s'))) \<and> jq_closed (sv_jobQueue s') \<and>
    dom (pending_job (sv_jobQueue s')) = {} \<and> dom (active_job (sv_jobQueue s')) = {}"
proof -
  from sd obtain j where c: "ClearAllJobs (sv_jobQueue s) = Some j" and j: "sv_jobQueue s' = j\<lparr>jq_closed := True\<rparr>"
    by (auto simp: cluster_shutdown_def Jobs_Close_def split: option.splits if_splits)
  have empty: "dom (pending_job j) = {}" "dom (active_job j) = {}"
    using c by (auto simp: ClearAllJobs_def send_completed_def Clear_def Let_def split: if_splits)
  note inv = jobs_run_inv [OF node_run_queue [OF run]]
  then have "held j = held (sv_jobQueue s)" using held_ClearAllJobs c by blast
  then show ?thesis using inv empty j by (simp add: held_def)
qed

text \<open>With the node itself, the peers waitForMajorityConnected waits for are more than half of the group, and one fewer would not be.\<close>

lemma majorityNeeded_majority: "2 * (majorityNeeded n + 1) > n + 1" "majorityNeeded n > 0 \<Longrightarrow> 2 * majorityNeeded n \<le> n + 1"
  by (simp_all add: majorityNeeded_def)

lemma waitForMajorityConnected_True:
  "waitForMajorityConnected needed events = Some True \<Longrightarrow> \<exists>connected. Some connected \<in> set events \<and> connected \<ge> needed"
  by (induction needed events rule: waitForMajorityConnected.induct) (auto split: if_splits)

text \<open>A leader, or a node that heard from one within its timeout, does not start an election.\<close>

lemma no_needless_election:
  "st_role (n_state n) = Leader \<or> tk_now tk - st_LastContact (n_state n) \<le> st_ElectionTimeout (n_state n) \<Longrightarrow>
   runRaftLoops tk prs frs n = n"
  by (auto simp: runRaftLoops_def Node_IsElectionTimeout_def IsElectionTimeout_def)

text \<open>A scheduler starts without jobs, in its invariant, and knows exactly the configured peers and clusters.\<close>

lemma setup_peers: "ss_peers (fold (\<lambda>p s. AddPeerScheduler now s (pg_PeerID p)) ps s) =
    ss_peers s @ map (\<lambda>p. \<lparr>sd_ID = pg_PeerID p, sd_ClusterStates = [], sd_LastUpdated = now\<rparr>) ps"
  "same_jobs s (fold (\<lambda>p s. AddPeerScheduler now s (pg_PeerID p)) ps s)"
  "ss_clusters (fold (\<lambda>p s. AddPeerScheduler now s (pg_PeerID p)) ps s) = ss_clusters s"
  by (induction ps arbitrary: s) (simp_all add: AddPeerScheduler_def same_jobs_def)

lemma setup_clusters: "fst ` set (ss_clusters (fold (\<lambda>c s. AddLocalCluster now s (pg_PeerID c)) cs s)) = fst ` set (ss_clusters s) \<union> pg_PeerID ` set cs"
  "same_jobs s (fold (\<lambda>c s. AddLocalCluster now s (pg_PeerID c)) cs s)"
  "ss_peers (fold (\<lambda>c s. AddLocalCluster now s (pg_PeerID c)) cs s) = ss_peers s"
  by (induction cs arbitrary: s) (auto simp: AddLocalCluster_def new_cluster_def same_jobs_def dom_update)

lemma scheduler_setup_ready:
  assumes "scheduler_setup now jh ch cfg = (s, peerMap, clusterMap)"
  shows "sched_inv s" "stage_of s k = None" "map sd_ID (ss_peers s) = map pg_PeerID (sg_PeerSchedulers cfg)"
    "fst ` set (ss_clusters s) = pg_PeerID ` set (sg_Clusters cfg)"
proof -
  let ?s0 = "NewState jh ch (sg_SchedulerID cfg) (sg_SchedulerPort cfg)"
  let ?s1 = "fold (\<lambda>p s. AddPeerScheduler now s (pg_PeerID p)) (sg_PeerSchedulers cfg) ?s0"
  have s: "s = fold (\<lambda>c s. AddLocalCluster now s (pg_PeerID c)) (sg_Clusters cfg) ?s1" using assms by (simp add: scheduler_setup_def Let_def)
  have "same_jobs ?s1 s" unfolding s by (rule setup_clusters(2))
  from same_jobs_inv [OF this] same_jobs_inv [OF setup_peers(2) [of ?s0 now "sg_PeerSchedulers cfg"]]
  have same: "sched_inv s = sched_inv ?s0" "stage_of s = stage_of ?s0" by (simp_all only:)
  show "sched_inv s" using same NewState_inv by simp
  show "stage_of s k = None" by (simp add: same stage_of_def NewState_def)
  show "map sd_ID (ss_peers s) = map pg_PeerID (sg_PeerSchedulers cfg)"
    by (simp add: s setup_clusters(3) setup_peers(1) comp_def) (simp add: NewState_def)
  show "fst ` set (ss_clusters s) = pg_PeerID ` set (sg_Clusters cfg)"
    by (simp add: s setup_clusters(1) setup_peers(3)) (simp add: NewState_def)
qed

text \<open>Stop closes every cluster connection and the raft client, but it leaves the connections to the peers open.\<close>

lemma stop_closes:
  "\<forall>(key, l)\<in>set (sc_clusterConns (SchedulerControl_Stop sc)). ln_closed l \<and> ln_cancelled l"
  "rc_conn (sc_RaftConn sc) \<Longrightarrow> rc_closed (sc_RaftConn (SchedulerControl_Stop sc))"
  "sc_peerConns (SchedulerControl_Stop sc) = sc_peerConns sc"
  by (auto simp: SchedulerControl_Stop_def Cluster_Close_def RaftClient_Close_def)

lemma control_conns: "NewSchedulerControl dial reachable raftAddrs ps cs = Some sc \<Longrightarrow>
    Cluster (cluster_conns sc) key \<noteq> None \<longleftrightarrow> (\<exists>addr. (key, addr) \<in> set cs \<and> dial addr)"
proof -
  let ?f = "fold (\<lambda>(key, addr) conns. case Cluster_NewConn dial key addr of None \<Rightarrow> conns | Some conn \<Rightarrow> AList.update key conn conns)"
  assume "NewSchedulerControl dial reachable raftAddrs ps cs = Some sc"
  then have sc: "sc_clusterConns sc = ?f cs []" by (auto simp: NewSchedulerControl_def)
  have "key \<in> fst ` set (?f cs m) \<longleftrightarrow> key \<in> fst ` set m \<or> (\<exists>addr. (key, addr) \<in> set cs \<and> dial addr)" for m
  proof (induction cs arbitrary: m)
    case (Cons c cs)
    obtain k addr where c: "c = (k, addr)" by fastforce
    let ?m = "case Cluster_NewConn dial k addr of None \<Rightarrow> m | Some conn \<Rightarrow> AList.update k conn m"
    have "key \<in> fst ` set ?m \<longleftrightarrow> key \<in> fst ` set m \<or> key = k \<and> dial addr" by (cases "dial addr") (auto simp: Cluster_NewConn_def)
    then show ?case using Cons [of ?m] by (auto simp: c)
  qed simp
  moreover have "Cluster (cluster_conns sc) key \<noteq> None \<longleftrightarrow> key \<in> fst ` set (sc_clusterConns sc)"
    by (force simp: Cluster_def cluster_conns_def map_of_eq_None_iff image_iff)
  ultimately show ?thesis by (simp add: sc)
qed

text \<open>
  A configured cluster whose address cannot be dialled has a state but no connection. The first tick of requestStates that reaches it
  dereferences a nil pointer: a scheduler with only this cluster panics at once.
\<close>

lemma undialled_cluster_panics:
  assumes "sg_Clusters cfg = [c]" "\<not> dial (pg_PeerPort c)" "scheduler_setup now jh ch cfg = (s, peerMap, clusterMap)"
    and "NewSchedulerControl dial reachable raftAddrs peerMap clusterMap = Some sc"
  shows "requestStates now' (cluster_conns sc) rpc ev s = None"
proof -
  let ?s1 = "fold (\<lambda>p s. AddPeerScheduler now s (pg_PeerID p)) (sg_PeerSchedulers cfg) (NewState jh ch (sg_SchedulerID cfg) (sg_SchedulerPort cfg))"
  have s: "s = AddLocalCluster now ?s1 (pg_PeerID c)" and m: "clusterMap = [(pg_PeerID c, pg_PeerPort c)]"
    using assms(1,3) by (simp_all add: scheduler_setup_def peer_map_of_def Let_def)
  have "ss_clusters ?s1 = []" by (simp add: setup_peers(3)) (simp add: NewState_def)
  then have "LocalClusters s = [ss_clusterNext ?s1]" "cs_ID (ss_clusterHeap s (ss_clusterNext ?s1)) = pg_PeerID c"
    by (simp_all add: s AddLocalCluster_def new_cluster_def LocalClusters_def)
  moreover have "Cluster (cluster_conns sc) (pg_PeerID c) = None"
    using control_conns [OF assms(4), of "pg_PeerID c"] assms(2) m by auto
  ultimately show ?thesis by (simp add: requestStates_def)
qed

text \<open>A consensus node that has started holds off its first election, and a shutdown leaves the files as they are.\<close>

lemma consensus_start_quiet:
  "consensus_start tk peers events n = Some (Some n') \<Longrightarrow> st_ElectionTimeout (n_state n) \<ge> 0 \<Longrightarrow> runRaftLoops tk prs frs n' = n'"
  by (auto simp: consensus_start_def Node_RecordContact_def RecordContact_def runRaftLoops_def Node_IsElectionTimeout_def IsElectionTimeout_def
      split: if_splits)

lemma consensus_shutdown_disk: "h_disk (n_FileHandler (snd (consensus_shutdown n))) = h_disk (n_FileHandler n)"
  by (simp add: consensus_shutdown_def Node_Close_def Handler_Close_def)

end
