(* ===== verification/Startup.thy ===== *)
theory Startup
  imports Programs TestClients
begin

section \<open>The start of the programs (init and main of cmd/cluster_node, cmd/consensus_node, cmd/scheduler_node)\<close>

text \<open>
  From the command line to a running node: each program reads its flags and its configuration, sets its logs up and builds its
  components, and every step may end the process. The host is a record of what the program asks of the operating system and of
  the log library: the flags given (\<open>None\<close> for one that is not), os.ReadFile, os.OpenFile for appending, os.MkdirAll, and
  whether flag.Set accepts a value for a flag.
\<close>

subsection \<open>The host\<close>

record host =
  ho_flag :: "string \<Rightarrow> string option"
  ho_read :: "string \<Rightarrow> bytes option"
  ho_open :: "string \<Rightarrow> bool"
  ho_mkdir :: "string \<Rightarrow> bool"
  ho_set :: "string \<Rightarrow> string \<Rightarrow> bool"

datatype start_error =
  ConfigError env_error | LogFileError string | FlagError string | DockerError | LogWriterError string |
  StorageError store_error | NoMajority | LogDirError string | ControlError | LimitsPanic | ListenError string

definition flag_String :: "host \<Rightarrow> string \<Rightarrow> string \<Rightarrow> string" where
  "flag_String h name dflt = (case ho_flag h name of None \<Rightarrow> dflt | Some v \<Rightarrow> v)"

text \<open>A sequence of flag.Set calls, each ending the process on an error: the first flag that was refused.\<close>

fun set_flags :: "host \<Rightarrow> (string \<times> string) list \<Rightarrow> string option" where
  "set_flags h [] = None"
| "set_flags h ((name, v) # rest) = (if ho_set h name v then set_flags h rest else Some name)"

subsection \<open>The cluster node\<close>

text \<open>The configuration, the limits and the images come from three flags. \<open>wk\<close> is the walk of a directory, \<open>docker\<close> whether a client can be made.\<close>

definition cluster_import :: "(bytes \<Rightarrow> Machine option) \<Rightarrow> (bytes \<Rightarrow> Limits option) \<Rightarrow> (bytes \<Rightarrow> Image option) \<Rightarrow> (string \<Rightarrow> walk) \<Rightarrow>
    host \<Rightarrow> env_error + Machine" where
  "cluster_import pm pl pi wk h =
     (let configFile = flag_String h ''config'' ''config.json'';
          limitsFile = flag_String h ''limits'' ''limits.json'';
          imagesDir = flag_String h ''images'' ''images/''
      in Cluster_ImportEnvironment (ho_read h) pm pl pi (wk imagesDir) configFile limitsFile)"

definition cluster_init :: "(bytes \<Rightarrow> Machine option) \<Rightarrow> (bytes \<Rightarrow> Limits option) \<Rightarrow> (bytes \<Rightarrow> Image option) \<Rightarrow> (string \<Rightarrow> walk) \<Rightarrow>
    bool \<Rightarrow> disk \<Rightarrow> host \<Rightarrow> start_error + Machine \<times> LogWriter" where
  "cluster_init pm pl pi wk docker d h =
     (case cluster_import pm pl pi wk h of
        Inl err \<Rightarrow> Inl (ConfigError err)
      | Inr env \<Rightarrow>
          if \<not> ho_open h (ma_LogDirectory env @ ''/application.log'') then Inl (LogFileError (ma_LogDirectory env @ ''/application.log''))
          else case set_flags h [(''logtostderr'', ''true''), (''log_dir'', ma_LogDirectory env), (''v'', show_int (ma_LogVerbosity env))] of
            Some name \<Rightarrow> Inl (FlagError name)
          | None \<Rightarrow>
              if \<not> docker then Inl DockerError
              else case NewLogWriter (ho_mkdir h (ma_LogDirectory env @ ''/containers'')) d (ma_LogDirectory env @ ''/containers'') 432 of
                None \<Rightarrow> Inl (LogWriterError (ma_LogDirectory env @ ''/containers''))
              | Some logger \<Rightarrow> Inr (env, logger))"

text \<open>main builds the server and serves it; a port that cannot be bound ends the process (ClusterServer.Start).\<close>

definition ClusterServer_Start :: "(string \<Rightarrow> bool) \<Rightarrow> ClusterServer \<Rightarrow> string option" where
  "ClusterServer_Start bound s = (if bound (sv_nodeAddress s) then None else Some (sv_nodeAddress s))"

definition cluster_main :: "(string \<Rightarrow> bool) \<Rightarrow> time \<Rightarrow> (nat \<Rightarrow> Container) \<Rightarrow> Machine \<Rightarrow> start_error + ClusterServer" where
  "cluster_main bound now heap env =
     (case cluster_setup now heap env of
        None \<Rightarrow> Inl LimitsPanic
      | Some nodeServer \<Rightarrow>
          (case ClusterServer_Start bound nodeServer of Some addr \<Rightarrow> Inl (ListenError addr) | None \<Rightarrow> Inr nodeServer))"

subsection \<open>The consensus node\<close>

text \<open>
  The name of the log file is appended to the directory as it is. NewNode starts the server in the background, and a port that
  cannot be bound ends the process. \<open>None\<close> while the node still waits for a majority; \<open>d\<close> is the content of the directory the
  configuration names for the log of the cluster.
\<close>

definition startServer :: "(string \<Rightarrow> bool) \<Rightarrow> Node \<Rightarrow> string option" where
  "startServer bound n = (if bound (st_address (n_state n)) then None else Some (st_address (n_state n)))"

definition consensus_config :: "(bytes \<Rightarrow> NodeConfig option) \<Rightarrow> host \<Rightarrow> env_error + NodeConfig" where
  "consensus_config parse h = Consensus_ImportEnvironment (ho_read h) parse (flag_String h ''config'' ''configs/consensus/example.json'')"

definition consensus_init :: "(bytes \<Rightarrow> NodeConfig option) \<Rightarrow> disk_env \<Rightarrow> (string \<Rightarrow> disk) \<Rightarrow> tick \<Rightarrow> nat \<Rightarrow> (State \<Rightarrow> nat option) \<Rightarrow>
    (string \<Rightarrow> bool) \<Rightarrow> nat option list \<Rightarrow> host \<Rightarrow> (start_error + Node) option" where
  "consensus_init parse env d tk r dial bound events h =
     (case consensus_config parse h of
        Inl err \<Rightarrow> Some (Inl (ConfigError err))
      | Inr cfg \<Rightarrow>
          if \<not> ho_open h (nc_LogDirectory cfg @ ''application.log'') then Some (Inl (LogFileError (nc_LogDirectory cfg @ ''application.log'')))
          else case set_flags h [(''logtostderr'', nc_LogOutputToStdErr cfg), (''log_dir'', nc_LogDirectory cfg),
              (''v'', show_int (nc_LogVerbosity cfg))] of
            Some name \<Rightarrow> Some (Inl (FlagError name))
          | None \<Rightarrow>
              (case consensus_setup env (d (nc_ConsensusLogDirectory cfg)) tk r dial cfg of
                 Inl err \<Rightarrow> Some (Inl (StorageError err))
               | Inr node \<Rightarrow>
                   (case startServer bound node of
                      Some addr \<Rightarrow> Some (Inl (ListenError addr))
                    | None \<Rightarrow>
                        map_option (\<lambda>ready. case ready of None \<Rightarrow> Inl NoMajority | Some n \<Rightarrow> Inr n)
                          (consensus_start tk (length (nc_Peers cfg)) events node))))"

subsection \<open>The scheduler\<close>

definition scheduler_init :: "(bytes \<Rightarrow> SchedulerConfig option) \<Rightarrow> time \<Rightarrow> (nat \<Rightarrow> Job) \<Rightarrow> (nat \<Rightarrow> ClusterState) \<Rightarrow>
    (string \<Rightarrow> bool) \<Rightarrow> (string \<Rightarrow> bool) \<Rightarrow> host \<Rightarrow> start_error + CentralState \<times> SchedulerControl" where
  "scheduler_init parse now jh ch dial reachable h =
     (case Scheduler_ImportEnvironment (ho_read h) parse (flag_String h ''config'' ''test_config.json'') of
        Inl err \<Rightarrow> Inl (ConfigError err)
      | Inr cfg \<Rightarrow>
          if \<not> ho_mkdir h (sg_LogDirectory cfg) then Inl (LogDirError (sg_LogDirectory cfg))
          else case set_flags h [(''logtostderr'', ''true''), (''log_dir'', sg_LogDirectory cfg), (''v'', ''2'')] of
            Some name \<Rightarrow> Inl (FlagError name)
          | None \<Rightarrow>
              (case scheduler_setup now jh ch cfg of
                 (s, peerMap, clusterMap) \<Rightarrow>
                   (case NewSchedulerControl dial reachable (sg_RaftPorts cfg) peerMap clusterMap of
                      None \<Rightarrow> Inl ControlError
                    | Some rpcController \<Rightarrow> Inr (s, rpcController))))"

text \<open>main serves the controller; a port that cannot be bound ends the process.\<close>

definition scheduler_main :: "(string \<Rightarrow> bool) \<Rightarrow> CentralState \<times> SchedulerControl \<Rightarrow> start_error + CentralState \<times> SchedulerControl" where
  "scheduler_main bound sys =
     (case sys of (s, rpcController) \<Rightarrow>
        (case SchedulerControl_Start (bound ('':'' @ ss_address s)) rpcController of
           None \<Rightarrow> Inl (ListenError ('':'' @ ss_address s))
         | Some rpcController \<Rightarrow> Inr (s, rpcController)))"

subsection \<open>The test drivers\<close>

text \<open>
  The consensus test sends its batch through the node the flag names and closes its connection; \<open>None\<close> when the node cannot be
  dialled. \<open>clock\<close> gives the time at which a job is sent.
\<close>

definition consensus_test_main :: "(string \<Rightarrow> bytes option) \<Rightarrow> (JobPayload \<Rightarrow> bytes option) \<Rightarrow> (string \<Rightarrow> bool) \<Rightarrow>
    (RawAppendRequest \<Rightarrow> nat \<Rightarrow> string \<Rightarrow> AppendResponse option) \<Rightarrow> (string \<Rightarrow> int) \<Rightarrow> host \<Rightarrow> (int \<times> Client) option" where
  "consensus_test_main marshal_command marshal dial rpc clock h =
     map_option (\<lambda>client.
         case send_batch (\<lambda>(jobID, img, priority, command).
             SendJob marshal_command marshal dial rpc (clock jobID) jobID img priority command) jobsToSend 0 client of
           (successfulDispatches, c) \<Rightarrow> (successfulDispatches, Client_Close c))
       (NewClient dial (flag_String h ''cluster'' ''localhost:50051''))"

text \<open>\<^verbatim>\<open>strings.Split\<close> at a separator of one byte and \<^verbatim>\<open>strings.TrimSpace\<close> on ASCII, as the load test uses them on its list of schedulers.\<close>

fun strings_Split :: "char \<Rightarrow> string \<Rightarrow> string list" where
  "strings_Split sep [] = [[]]"
| "strings_Split sep (c # s) =
     (if c = sep then [] # strings_Split sep s
      else case strings_Split sep s of [] \<Rightarrow> [[c]] | part # parts \<Rightarrow> (c # part) # parts)"

definition is_space :: "char \<Rightarrow> bool" where
  "is_space c \<longleftrightarrow> c \<in> {CHR '' '', CHR 0x09, CHR 0x0A, CHR 0x0B, CHR 0x0C, CHR 0x0D}"

definition strings_TrimSpace :: "string \<Rightarrow> string" where
  "strings_TrimSpace s = rev (dropWhile is_space (rev (dropWhile is_space s)))"

definition targetAddrs :: "string \<Rightarrow> string list" where
  "targetAddrs targetsStr = map strings_TrimSpace (strings_Split CHR '','' targetsStr)"

fun dial_targets :: "(string \<Rightarrow> bool) \<Rightarrow> string list \<Rightarrow> string option" where
  "dial_targets dial [] = None"
| "dial_targets dial (addr # addrs) = (if dial addr then dial_targets dial addrs else Some addr)"

text \<open>The interval of the ticker: \<open>None\<close> is the panic of the division by zero or of \<^verbatim>\<open>time.NewTicker\<close> on an interval that is not positive.\<close>

definition tickerInterval :: "int \<Rightarrow> time option" where
  "tickerInterval pollRate =
     (if pollRate = 0 then None
      else let d = sgn pollRate * (1000000000 div \<bar>pollRate\<bar>) in if d \<le> 0 then None else Some d)"

datatype test_error = NotConnected string | BadJobCount | NothingSubmitted | BadPollRate

text \<open>
  The load test up to its first poll. \<open>rpc i\<close> is the i-th answer to RequestJob, in the order in which the workers get them; a
  channel of negative size panics, and without a worker no job is sent.
\<close>

definition load_test_begin :: "(string \<Rightarrow> bool) \<Rightarrow> (nat \<Rightarrow> (bool \<times> string) option) \<Rightarrow> int \<Rightarrow> int \<Rightarrow> int \<Rightarrow> host \<Rightarrow>
    test_error + string list \<times> TestRun \<times> time" where
  "load_test_begin dial rpc numJobs numWorkers pollRate h =
     (let addrs = targetAddrs (flag_String h ''targets'' ''localhost:50050, localhost:50056'') in
      case dial_targets dial addrs of
        Some addr \<Rightarrow> Inl (NotConnected addr)
      | None \<Rightarrow>
          if numJobs < 0 then Inl BadJobCount
          else let r = submit_all (if numWorkers > 0 then map rpc [0..<nat numJobs] else []) (start_run (length addrs)) in
            if tr_submitted r = 0 then Inl NothingSubmitted
            else case tickerInterval pollRate of
              None \<Rightarrow> Inl BadPollRate
            | Some interval \<Rightarrow> Inr (addrs, r, interval))"

subsection \<open>Properties\<close>

lemma set_flags_None: "set_flags h fs = None \<longleftrightarrow> (\<forall>(name, v)\<in>set fs. ho_set h name v)"
  by (induction h fs rule: set_flags.induct) auto

lemma set_flags_Some: "set_flags h fs = Some name \<Longrightarrow> \<exists>v. (name, v) \<in> set fs \<and> \<not> ho_set h name v"
  by (induction h fs rule: set_flags.induct) (auto split: if_splits)

text \<open>A cluster node that starts has imported its machine, and its server is at the beginning of a run; its writer is empty and open.\<close>

lemma cluster_init_Inr:
  "cluster_init pm pl pi wk docker d h = Inr (env, logger) \<longleftrightarrow>
     cluster_import pm pl pi wk h = Inr env \<and> ho_open h (ma_LogDirectory env @ ''/application.log'') \<and>
     ho_set h ''logtostderr'' ''true'' \<and> ho_set h ''log_dir'' (ma_LogDirectory env) \<and> ho_set h ''v'' (show_int (ma_LogVerbosity env)) \<and>
     docker \<and> NewLogWriter (ho_mkdir h (ma_LogDirectory env @ ''/containers'')) d (ma_LogDirectory env @ ''/containers'') 432 = Some logger"
  by (auto simp: cluster_init_def split: sum.splits option.splits if_splits)

lemma cluster_main_run:
  assumes "cluster_init pm pl pi wk docker d h = Inr (env, logger)" and "bound ('':'' @ ma_SchedulerPort env)"
  obtains s where "cluster_main bound now heap env = Inr s" "node_run s {#} {#}" "\<not> lw_closed logger" "lw_dataQueue logger = []"
proof -
  from assms(1) have imp: "cluster_import pm pl pi wk h = Inr env"
    and lw: "NewLogWriter (ho_mkdir h (ma_LogDirectory env @ ''/containers'')) d (ma_LogDirectory env @ ''/containers'') 432 = Some logger"
    by (simp_all add: cluster_init_Inr)
  from imp obtain s where s: "cluster_setup now heap env = Some s"
    unfolding cluster_import_def Let_def using imported_machine_runs(1) by blast
  moreover from s have "sv_nodeAddress s = '':'' @ ma_SchedulerPort env"
    by (auto simp: cluster_setup_def NewClusterServer_def)
  ultimately have "cluster_main bound now heap env = Inr s" using assms(2) by (simp add: cluster_main_def ClusterServer_Start_def)
  moreover have "\<not> lw_closed logger" "lw_dataQueue logger = []" using lw by (auto simp: NewLogWriter_def split: if_splits)
  ultimately show thesis using that cluster_setup_run [OF s] by blast
qed

text \<open>
  A consensus node that starts is a follower in term 0 that has not voted, under the name and port of its configuration, and it
  holds off its first election.
\<close>

lemma ConnectToPeers_state: "n_state (ConnectToPeers dial n ps) = n_state n"
  by (induction dial n ps rule: ConnectToPeers.induct) (simp_all add: connect_peer_def Let_def split: option.splits)

lemma consensus_setup_state:
  "consensus_setup env d tk r dial cfg = Inr n \<Longrightarrow> n_state n = New (tk_now tk) (tk_rand tk) r (nc_NodeID cfg) (nc_NodePort cfg)"
  by (auto simp: consensus_setup_def ConnectToPeers_state NewNode_def Let_def split: sum.splits)

lemma consensus_init_state:
  assumes "consensus_init parse env d tk r dial bound events h = Some (Inr n)"
  obtains cfg where "consensus_config parse h = Inr cfg"
    "n_state n = RecordContact (tk_now tk) (New (tk_now tk) (tk_rand tk) r (nc_NodeID cfg) (nc_NodePort cfg))"
    "waitForMajorityConnected (Programs.majorityNeeded (length (nc_Peers cfg))) events = Some True"
proof -
  from assms obtain cfg n0 where cfg: "consensus_config parse h = Inr cfg"
    and n0: "consensus_setup env (d (nc_ConsensusLogDirectory cfg)) tk r dial cfg = Inr n0"
    and n: "consensus_start tk (length (nc_Peers cfg)) events n0 = Some (Some n)"
    by (auto simp: consensus_init_def split: sum.splits option.splits if_splits)
  from n have "waitForMajorityConnected (Programs.majorityNeeded (length (nc_Peers cfg))) events = Some True"
    and "n = Node_RecordContact tk n0" by (auto simp: consensus_start_def split: if_splits)
  then show thesis using that cfg consensus_setup_state [OF n0] by (simp add: Node_RecordContact_def)
qed

lemma New_fields: "st_role (New now k r v addr) = Follower" "st_currentTerm (New now k r v addr) = 0" "st_votedFor (New now k r v addr) = ''''"
  "st_id (New now k r v addr) = v" "st_ElectionTimeout (New now k r v addr) \<ge> 0"
  by (simp_all add: New_def state_ops Let_def)

lemma RecordContact_fields: "st_role (RecordContact now s) = st_role s" "st_currentTerm (RecordContact now s) = st_currentTerm s"
  "st_votedFor (RecordContact now s) = st_votedFor s" "st_id (RecordContact now s) = st_id s" "st_LastContact (RecordContact now s) = now"
  "st_ElectionTimeout (RecordContact now s) = st_ElectionTimeout s"
  by (simp_all add: RecordContact_def)

lemma consensus_init_follower:
  assumes "consensus_init parse env d tk r dial bound events h = Some (Inr n)"
  shows "st_role (n_state n) = Follower \<and> st_currentTerm (n_state n) = 0 \<and> st_votedFor (n_state n) = '''' \<and> runRaftLoops tk prs frs n = n"
  using assms
proof (rule consensus_init_state)
  fix cfg assume st: "n_state n = RecordContact (tk_now tk) (New (tk_now tk) (tk_rand tk) r (nc_NodeID cfg) (nc_NodePort cfg))"
  then have "runRaftLoops tk prs frs n = n" by (intro no_needless_election) (simp add: New_fields RecordContact_fields)
  then show ?thesis by (simp add: st New_fields RecordContact_fields)
qed

text \<open>A group of nodes that were started, each under its own name, is where the runs of election safety begin.\<close>

lemma started_group_initial:
  assumes votes: "cl_votes c = {}"
    and started: "\<And>v. v \<in> M \<Longrightarrow> \<exists>parse env d tk r dial bound events h cfg. consensus_config parse h = Inr cfg \<and>
      nc_NodeID cfg = v \<and> consensus_init parse env d tk r dial bound events h = Some (Inr (cl_nodes c v))"
  shows "initial_cluster M c"
proof -
  have "st_id (n_state (cl_nodes c v)) = v \<and> st_role (n_state (cl_nodes c v)) = Follower" if v: "v \<in> M" for v
  proof -
    from started [OF v] obtain parse env d tk r dial bound events h cfg where cfg: "consensus_config parse h = Inr cfg" "nc_NodeID cfg = v"
      and n: "consensus_init parse env d tk r dial bound events h = Some (Inr (cl_nodes c v))" by blast
    from n obtain cfg' where "consensus_config parse h = Inr cfg'"
      and "n_state (cl_nodes c v) = RecordContact (tk_now tk) (New (tk_now tk) (tk_rand tk) r (nc_NodeID cfg') (nc_NodePort cfg'))"
      by (rule consensus_init_state)
    with cfg show ?thesis by (simp add: New_fields RecordContact_fields)
  qed
  with votes show ?thesis by (simp add: initial_cluster_def)
qed

text \<open>A scheduler that starts is in its invariant, without jobs, with the configured clusters, connected or not.\<close>

lemma scheduler_init_ready:
  assumes "scheduler_init parse now jh ch dial reachable h = Inr (s, sc)"
  obtains cfg where "Scheduler_ImportEnvironment (ho_read h) parse (flag_String h ''config'' ''test_config.json'') = Inr cfg"
    "sched_inv s" "\<And>k. stage_of s k = None" "fst ` set (ss_clusters s) = pg_PeerID ` set (sg_Clusters cfg)" "sg_RaftPorts cfg \<noteq> []"
proof -
  from assms obtain cfg pm cm where cfg: "Scheduler_ImportEnvironment (ho_read h) parse (flag_String h ''config'' ''test_config.json'') = Inr cfg"
    and s: "scheduler_setup now jh ch cfg = (s, pm, cm)" and sc: "NewSchedulerControl dial reachable (sg_RaftPorts cfg) pm cm = Some sc"
    by (auto simp: scheduler_init_def split: sum.splits option.splits if_splits prod.splits)
  from sc have "sg_RaftPorts cfg \<noteq> []" by (auto simp: NewSchedulerControl_def NewRaftClient_def)
  then show thesis using that cfg scheduler_setup_ready [OF s] by blast
qed

text \<open>
  The cluster node opens its log file before anything makes the directory it is in. The consensus node puts no separator
  between the directory and the name of the file.
\<close>

lemma first_start_fails:
  assumes "cluster_import pm pl pi wk h = Inr env" and "\<not> ho_open h (ma_LogDirectory env @ ''/application.log'')"
  shows "cluster_init pm pl pi wk docker d h = Inl (LogFileError (ma_LogDirectory env @ ''/application.log''))"
  using assms by (simp add: cluster_init_def)

lemma log_file_beside_directory:
  assumes "consensus_config parse h = Inr cfg" and "nc_LogDirectory cfg = ''logs''" and "\<not> ho_open h ''logsapplication.log''"
  shows "consensus_init parse env d tk r dial bound events h = Some (Inl (LogFileError ''logsapplication.log''))"
  using assms by (simp add: consensus_init_def)

text \<open>
  The consensus test counts every job as sent exactly where nothing was committed: when each node answers as one that is not the leader.
\<close>

lemma consensus_test_counts_refusals:
  assumes "\<And>req attempt addr. \<exists>resp. rpc req attempt addr = Some resp \<and> ar_Status resp = APPEND_RESPONSE_BAD_PAYLOAD"
    and "\<And>task. marshal_command task \<noteq> None" "\<And>p. marshal p \<noteq> None" and dial: "dial (flag_String h ''cluster'' ''localhost:50051'')"
  shows "consensus_test_main marshal_command marshal dial rpc clock h =
    Some (4, \<lparr>cl_address = flag_String h ''cluster'' ''localhost:50051'', cl_open = False\<rparr>)"
proof -
  have "SendJob marshal_command marshal dial rpc nano k img prio task c = (None, c)" for nano k img prio task c
  proof -
    obtain raw where raw: "marshal_command task = Some raw" using assms(2) by blast
    obtain payload where payload: "marshal (test_payload k img prio raw) = Some payload" using assms(3) by blast
    obtain resp where "rpc (test_request nano k payload) 1 (cl_address c) = Some resp" "ar_Status resp = APPEND_RESPONSE_BAD_PAYLOAD"
      using assms(1) by blast
    then show ?thesis using raw payload by (simp add: SendJob_def eval_nat_numeral)
  qed
  then show ?thesis using dial by (simp add: consensus_test_main_def NewClient_def jobsToSend_def Client_Close_def in_int64_def)
qed

text \<open>The list of schedulers is never empty, so the load test has a first client, and the addresses written with commas between them come back.\<close>

lemma Split_nonempty [simp]: "strings_Split sep s \<noteq> []"
  by (induction sep s rule: strings_Split.induct) (auto split: list.splits)

lemma targetAddrs_nonempty: "targetAddrs s \<noteq> []"
  by (simp add: targetAddrs_def)

lemma Split_part: "sep \<notin> set p \<Longrightarrow> strings_Split sep p = [p]"
  by (induction p) auto

lemma Split_cons: "sep \<notin> set p \<Longrightarrow> strings_Split sep (p @ sep # s) = p # strings_Split sep s"
  by (induction p) auto

lemma TrimSpace_id:
  assumes "p = [] \<or> \<not> is_space (hd p) \<and> \<not> is_space (last p)"
  shows "strings_TrimSpace p = p"
proof -
  have "dropWhile is_space p = p" "dropWhile is_space (rev p) = rev p" using assms by (auto simp: dropWhile_eq_self_iff hd_rev)
  then show ?thesis by (simp add: strings_TrimSpace_def)
qed

fun strings_Join :: "string list \<Rightarrow> char \<Rightarrow> string" where
  "strings_Join [] sep = []"
| "strings_Join [p] sep = p"
| "strings_Join (p # ps) sep = p @ sep # strings_Join ps sep"

lemma Split_Join: "ps \<noteq> [] \<Longrightarrow> \<forall>p\<in>set ps. sep \<notin> set p \<Longrightarrow> strings_Split sep (strings_Join ps sep) = ps"
  by (induction ps sep rule: strings_Join.induct) (auto simp: Split_part Split_cons)

lemma targetAddrs_Join:
  assumes "addrs \<noteq> []" "\<forall>a\<in>set addrs. \<forall>c\<in>set a. c \<noteq> CHR '','' \<and> \<not> is_space c"
  shows "targetAddrs (strings_Join addrs CHR '','') = addrs"
proof -
  have "strings_TrimSpace a = a" if "a \<in> set addrs" for a
    using assms(2) that by (intro TrimSpace_id) (metis hd_in_set last_in_set)
  then show ?thesis using assms by (subst targetAddrs_def, subst Split_Join) (auto intro: map_idI)
qed

lemma default_targets: "targetAddrs ''localhost:50050, localhost:50056'' = [''localhost:50050'', ''localhost:50056'']"
  by code_simp

lemma dial_targets_None: "dial_targets dial addrs = None \<longleftrightarrow> (\<forall>a\<in>set addrs. dial a)"
  by (induction dial addrs rule: dial_targets.induct) auto

text \<open>The ticker accepts the rates from one to a thousand million polls per second.\<close>

lemma tickerInterval_Some: "tickerInterval pollRate \<noteq> None \<longleftrightarrow> 1 \<le> pollRate \<and> pollRate \<le> 1000000000"
proof (cases "0 < pollRate")
  case True
  then show ?thesis using pos_imp_zdiv_pos_iff [OF True, of 1000000000] by (auto simp: tickerInterval_def Let_def)
next
  case False
  then have "sgn pollRate * (1000000000 div \<bar>pollRate\<bar>) \<le> 0" by (intro mult_nonpos_nonneg) (simp_all add: sgn_if div_int_pos_iff)
  then have "tickerInterval pollRate = None" by (simp only: tickerInterval_def Let_def if_True if_cancel)
  then show ?thesis using False by simp
qed

text \<open>The load test begins to poll exactly if all schedulers can be dialled, the rate is valid and a job was accepted.\<close>

lemma load_test_begins:
  assumes small: "0 \<le> numJobs" "numJobs < 2 ^ 31" and w: "numWorkers > 0" and dist: "distinct (accepted_ids (map rpc [0..<nat numJobs]))"
  shows "(\<exists>out. load_test_begin dial rpc numJobs numWorkers pollRate h = Inr out) \<longleftrightarrow>
    (\<forall>a\<in>set (targetAddrs (flag_String h ''targets'' ''localhost:50050, localhost:50056'')). dial a) \<and>
    accepted_ids (map rpc [0..<nat numJobs]) \<noteq> [] \<and> 1 \<le> pollRate \<and> pollRate \<le> 1000000000"
proof -
  let ?addrs = "targetAddrs (flag_String h ''targets'' ''localhost:50050, localhost:50056'')"
  have "tr_submitted (submit_all (map rpc [0..<nat numJobs]) (start_run (length ?addrs))) = int (length (accepted_ids (map rpc [0..<nat numJobs])))"
    using submit_all_start [OF dist, of "length ?addrs"] small by simp
  moreover have "dial_targets dial ?addrs = None \<longleftrightarrow> (\<forall>a\<in>set ?addrs. dial a)" by (rule dial_targets_None)
  ultimately show ?thesis
    using small w tickerInterval_Some [of pollRate]
    by (auto simp: load_test_begin_def Let_def split: option.splits)
qed

text \<open>A host on which everything succeeds: the node starts on its first majority, waits before, and does not start with a word that is no boolean.\<close>

definition demo_config :: "string \<Rightarrow> NodeConfig" where
  "demo_config toStdErr =
     \<lparr>nc_NodeID = ''a'', nc_NodePort = '':1'', nc_NodeAddress = '''', nc_ConsensusLogDirectory = ''data/'', nc_LogDirectory = ''logs/'',
      nc_LogVerbosity = 3, nc_LogOutputToStdErr = toStdErr, nc_Peers = [\<lparr>pn_NodeID = ''b'', pn_NodeAddress = '':2''\<rparr>]\<rparr>"

definition demo_host :: host where
  "demo_host = \<lparr>ho_flag = (\<lambda>_. None), ho_read = (\<lambda>_. Some []), ho_open = (\<lambda>_. True), ho_mkdir = (\<lambda>_. True),
     ho_set = (\<lambda>name v. name = ''logtostderr'' \<longrightarrow> v \<in> {''true'', ''false''})\<rparr>"

definition demo_start :: "string \<Rightarrow> nat option list \<Rightarrow> (start_error + Node) option" where
  "demo_start toStdErr events =
     consensus_init (\<lambda>_. Some (demo_config toStdErr)) disk_ok (\<lambda>_. []) demo_tick 0 (\<lambda>_. Some 0) (\<lambda>_. True) events demo_host"

lemmas demo_start_defs = demo_start_def consensus_init_def consensus_config_def demo_config_def demo_host_def demo_tick_def flag_String_def
  Consensus_ImportEnvironment_def ImportFile_def consensus_setup_def LoadStorage_fresh startServer_def NewNode_def New_def state_ops
  connect_peer_def peer_map_def consensus_start_def Programs.majorityNeeded_def Node_RecordContact_def

lemma demo_start_runs: "\<exists>n. demo_start ''true'' [Some 0, Some 1] = Some (Inr n) \<and> st_id (n_state n) = ''a'' \<and> map fst (peer_map n) = [''b'']"
  by (simp add: demo_start_defs)

lemma demo_start_waits: "demo_start ''true'' [Some 0] = None" "demo_start ''true'' [Some 0, None] = Some (Inl NoMajority)"
  by (simp_all add: demo_start_defs)

lemma demo_start_flag: "demo_start ''stderr'' [Some 1] = Some (Inl (FlagError ''logtostderr''))"
  by (simp add: demo_start_defs)

end
