(* ===== verification/Spec2Isabelle.thy ===== *)
theory Spec2Isabelle
  imports Arbiter LogStore RaftSafety RaftService SystemRun EchoWorker TestClients Startup
begin

text \<open>
  \<^bold>\<open>NotAHiveMind.\<close> The program is a distributed job scheduler written in Go, with three kinds of processes. \<^emph>\<open>Consensus nodes\<close>
  (src/internal/consensus) keep a replicated log of job and scheduler events, after Raft. \<^emph>\<open>Schedulers\<close>
  (src/internal/scheduler) take jobs from clients, keep their state, pack them onto their clusters, hand them to other
  schedulers when they do not fit, and write each assignment to the log first. \<^emph>\<open>Cluster nodes\<close> (src/internal/cluster) queue the jobs
  they accept and run them in Docker containers. Both packers use the priority queue of src/internal/arbiter. The processes
  talk over gRPC: a scheduler calls AppendJob and ClusterStatus of its clusters and reads their stream of completed jobs,
  schedulers call Redistribute and Heartbeat of each other, and ClientAppend and GetData of a consensus node; consensus
  nodes call RequestVote, AppendEntries and InstallSnapshot of each other.

  \<^bold>\<open>How the model follows the code.\<close> Structs are records with the fields' names after a prefix, methods that hold a mutex are
  functions on the state, long-running goroutines are cut into one definition per step (a tick, a message, the part before
  and after a wait). Time, random numbers, new identifiers and the answers of remote parties, of Docker and of the file system
  are arguments. Errors are values; a panic is \<open>None\<close> where a definition says so. Where several structures
  share a pointer, the objects live in a heap and the structures hold addresses. Go's maps are association lists,
  so a theorem for all lists covers every order in which Go may enumerate them.

  \<^bold>\<open>Theories.\<close>
  \<^item> \<^verbatim>\<open>Prelude\<close>: fixed-width integers, maps and slices, decimal numbers, shared lemmas.
  \<^item> \<^verbatim>\<open>Arbiter\<close> (arbiter/packer.go): the packing queue. The locale \<open>packing_queue\<close> is the contract its clients rely on, and
    \<open>heuristic_queue\<close> extends it by the heuristic pop; both are interpreted on the code's queue (\<open>pq\<close>, \<open>pqh\<close>). Best fit, the stable
    sort, and what goes wrong when an identifier is removed and pushed again.
  \<^item> \<^verbatim>\<open>Models\<close> (models/, api/proto/cluster): payloads, identifiers, the messages between scheduler and cluster.
  \<^item> \<^verbatim>\<open>LogCodec\<close>, \<^verbatim>\<open>LogSnapshot\<close>, \<^verbatim>\<open>LogStore\<close> (consensus/filesystem): the byte format of log entries with its round trip, the
    compaction, and the log handler over an explicit directory. \<open>log_wf\<close> and \<open>durable\<close> are its invariants; the central result
    is crash recovery: after any run of \<open>store_step\<close> the directory alone restores the handler. The locale \<open>log_store\<close> is the
    contract of the store (interpretation \<open>ls\<close>); the proof that a follower's SUCCESS means what it says rests on it.
  \<^item> \<^verbatim>\<open>RaftState\<close>, \<^verbatim>\<open>RaftNode\<close>, \<^verbatim>\<open>RaftElection\<close> (consensus/state, consensus/service): a node's state, its handlers, and
    elections of a cluster in every interleaving. Two leaders of one term need a node that forgot its vote and voted twice; a
    follower with a majority wins. The locale \<open>quorums\<close> (\<open>mq\<close>) has the one law on majorities this rests on.
  \<^item> \<^verbatim>\<open>RaftReplication\<close> (service/add.go, retention.go): AddLog with its quorum, heartbeats, the catch-up loop and the transfer of
    snapshots in frames, run against the follower's own handlers. The catch-up loop has fuel; the theorem on it gives a bound on the fuel that suffices.
  \<^item> \<^verbatim>\<open>RaftService\<close> (service/serve.go, registry.go): the calls of ClientAppend interleaved with the rounds of AddLog. A client is told the verdict on its own
    request; two overlapping claims of a job both commit.
  \<^item> \<^verbatim>\<open>RaftNetwork\<close>, \<^verbatim>\<open>RaftSafety\<close>: the nodes with the messages between them, an executable step \<open>net_do\<close> for every handler and goroutine, and the
    invariant \<open>net_inv\<close> of all runs: as long as no node votes twice in a term, index and term identify a log entry. Two runs of the same
    network show what does not hold: one leader per term without that condition, and that a committed entry stays.
  \<^item> \<^verbatim>\<open>SchedState\<close> (scheduler/states): the central state over heaps of jobs and clusters. A job is waiting, active or done
    (\<open>stage_of\<close>); \<open>sched_inv\<close> says that the structures agree, every operation keeps it and implements the move it stands for.
    The locale \<open>job_tracker\<close> (\<open>jt\<close>) states these moves for the packer and the monitors.
  \<^item> \<^verbatim>\<open>SchedService\<close>, \<^verbatim>\<open>SchedPacker\<close> (scheduler/service, scheduler/packer): clients and handlers, the packing tick with its
    concurrent workers in an arbitrary order, and the monitors. No tick loses a job, whatever the others answer.
  \<^item> \<^verbatim>\<open>SchedConns\<close> (scheduler/service, scheduler/packer): the life of the connections, the stream of a cluster over all its reconnections, heartbeats,
    the loops of Packer.Start, and the running scheduler as the relation \<open>serve_step\<close> over ticks, streams and handlers: it loses no job in
    any run. Redistribution between two schedulers.
  \<^item> \<^verbatim>\<open>ClusterJobs\<close>, \<^verbatim>\<open>ClusterContainer\<close>, \<^verbatim>\<open>ClusterPool\<close>, \<^verbatim>\<open>ClusterNode\<close> (cluster/): the node's job queue, one container, the pool,
    and the node with its packer, health rules and server. The choice of the next job, conservation of jobs over every
    run, and termination of the wait for a container: 77 polls are enough for its timeout of
    15 seconds, because polls are 200 ms apart. The Go interfaces core.JobQueue and core.ContainerPool are the locales \<open>job_queue\<close> and
    \<open>container_pool\<close> (\<open>jq\<close>, \<open>cp\<close>), from which the node's theorems on placing a job follow: two placed jobs never
    share a container, a placed job with a result completes once, a failed placement restores the queue.
  \<^item> \<^verbatim>\<open>SystemRun\<close>: a scheduler, any number of nodes, and the channels and streams between them (\<open>sys_step\<close>), with lost answers and broken streams.
    What a node accepted is accounted for at every moment, and what the scheduler lists as completed was reported by a node that had accepted it.
  \<^item> \<^verbatim>\<open>EchoWorker\<close> (container_state.go, monitor.go, build/simple_go_echo): the files a container exchanges with the program inside it, over two
    explicit directories, and the echo worker. Results appear whole whatever fails.
  \<^item> \<^verbatim>\<open>TestClients\<close> (cmd/consensus_test, cmd/job_scheduling_test): SendJob with its redirects, and the load test in every interleaving of its goroutines.
  \<^item> \<^verbatim>\<open>FileHandler\<close> (filehandler/): files over the explicit directory, and the writer of the container logs: entries of open files are
    written in order; entries of a freed or closed file go astray.
  \<^item> \<^verbatim>\<open>Environment\<close> (environment/, the config packages): the importers of configurations, all or nothing.
  \<^item> \<^verbatim>\<open>Programs\<close> (cmd/): set-up from a configuration, start, the ticks of the loops as steps of the runs, and the shutdowns.
  \<^item> \<^verbatim>\<open>Startup\<close> (init and main under cmd/): from the command line to a running node over an explicit host, with every error that ends the
    process; a cluster node starts at the beginning of a run, a group of consensus nodes where the runs of election safety begin, a
    scheduler in its invariant. The start of the two test clients, with the list of schedulers as it is written on the command line.
  \<^item> This theory: the dispatch of a job from a scheduler to a node and its completion back, across both models, and the way of
    an echo job from its payload to the response at the scheduler.

  \<^bold>\<open>Failures of the code.\<close> Some theorems state that the code does not do what it means to, on every input of a kind
  or on a concrete run: votes forgotten within a term and two leaders of it, a committed entry that a later leader lacks, two claims
  of one job that both commit, candidates that never win, entries replicated under a wrong term, a truncation that blocks the log, an installed snapshot forgotten at a restart, a removed identifier popped twice, jobs stranded by a
  missing peer connection or by a packing error, a rebuilt container that panics, a lost container that reports success, a completion
  that overtakes the assignment, a redistributed job at two schedulers, a test client that reads the status the wrong way round.

  \<^bold>\<open>Not modelled.\<close> Signal handling, the text the programs log and the printed table of the load test (cmd); the sockets of gRPC servers,
  of which only whether they could be bound or dialled matters here; the health endpoint of the echo worker, a constant answer, and the Python
  echo container; generated protocol code. Job identifiers are file names without a path separator. Preemption inside a method
  that holds its mutex cannot be observed; workers without a common mutex are interleaved as whole steps.
\<close>

section \<open>A job from a scheduler to a cluster node and back\<close>

lemma Server_AppendJob_accepts:
  assumes "jres_Accept (fst (Server_AppendJob ping req node))"
  shows "known (sv_jobQueue (snd (Server_AppendJob ping req node))) (jr_JobId req)"
  using assms
  by (auto simp: Server_AppendJob_def reject_def AddJob_def known_def NewJob_def Let_def split: if_splits option.splits)

lemma status_event_completes:
  assumes look: "map_of (ss_jobs s) (cj_Id c) = Some a"
  shows "stage_of (job_event (status_event c) s) (cj_Id c) = Some Done"
    "job_Status (ss_jobHeap (job_event (status_event c) s) a) = (if cj_Succeeded c then Completed else Failed)"
    "job_Response (ss_jobHeap (job_event (status_event c) s) a) = cj_Payload c"
proof -
  have ev: "job_event (status_event c) s = snd (CompleteJob s (cj_Id c) (cj_Payload c) (cj_Succeeded c))"
    by (simp add: job_event_def ParseJobEvent_def status_event_def Let_def)
  show "stage_of (job_event (status_event c) s) (cj_Id c) = Some Done" using look by (simp add: ev CompleteJob_stage)
  show "job_Status (ss_jobHeap (job_event (status_event c) s) a) = (if cj_Succeeded c then Completed else Failed)"
    "job_Response (ss_jobHeap (job_event (status_event c) s) a) = cj_Payload c"
    using look by (simp_all add: ev CompleteJob_def set_job_def Let_def)
qed

text \<open>
  C7 (dispatch and completion). When a scheduler dispatches an active job to a cluster node and the node accepts it, the
  job is known to the node's queue and stays active at the scheduler, now with that node as its cluster; and when the node's
  queue later completes the job, the event it streams makes the job done at the scheduler, with the status and the result
  the node reported.
\<close>

theorem dispatch_and_completion:
  assumes inv: "sched_inv s" and c: "claimed s a"
    and d: "DispatchJob conn (\<lambda>req. Some (jres_Accept (fst (Server_AppendJob ping req node)))) (ss_jobHeap s a) s = (Some True, s1)"
    and q: "jobs_inv j" and m: "mark_take j (job_Id (ss_jobHeap s a)) payload ok = (Some finished, j')"
  shows "known (sv_jobQueue (snd (Server_AppendJob ping (dispatch_request (ss_jobHeap s a)) node))) (job_Id (ss_jobHeap s a)) \<and>
    stage_of s1 (job_Id (ss_jobHeap s a)) = Some Active \<and> job_AssignedClusterId (ss_jobHeap s1 a) = cc_nodeID conn \<and>
    (let s2 = job_event (status_event finished) s1 in
       sched_inv s2 \<and> stage_of s2 (job_Id (ss_jobHeap s a)) = Some Done \<and>
       job_Status (ss_jobHeap s2 a) = (if ok then Completed else Failed) \<and> job_Response (ss_jobHeap s2 a) = payload)"
proof -
  let ?k = "job_Id (ss_jobHeap s a)"
  have look: "map_of (ss_jobs s) ?k = Some a" and act: "stage_of s ?k = Some Active" using c by (simp_all add: claimed_def)
  have acc: "jres_Accept (fst (Server_AppendJob ping (dispatch_request (ss_jobHeap s a)) node))"
    and s1: "s1 = snd (AssignJob s ?k (cc_nodeID conn))"
    using d by (auto simp: DispatchJob_def split: if_splits)
  have fin: "cj_Id finished = ?k" "cj_Succeeded finished = ok" "cj_Payload finished = payload"
    using m q by (auto simp: mark_take_def jobs_inv_def split: option.splits)
  have one: "sched_inv s1" "stage_of s1 ?k = Some Active" "map_of (ss_jobs s1) ?k = Some a" "job_AssignedClusterId (ss_jobHeap s1 a) = cc_nodeID conn"
    using AssignJob_inv [OF inv act] AssignJob_stage [OF act] act look by (simp_all add: s1) (simp add: AssignJob_def set_job_def Let_def)
  have "sched_inv (job_event (status_event finished) s1)"
    using CompleteJob_inv [OF one(1)] one(1) by (simp add: job_event_def Let_def)
  then show ?thesis
    using one status_event_completes [of s1 finished a] fin Server_AppendJob_accepts [OF acc]
    by (simp add: Let_def dispatch_request_def)
qed

definition demo_conn :: ClusterConn where
  "demo_conn = \<lparr>cc_nodeID = ''n'', cc_connected = True\<rparr>"

definition demo_py_sched :: CentralState where
  "demo_py_sched = AppendJob (set_job 0 (demo_job\<lparr>job_ImageAlias := ''py''\<rparr>) demo_sched0) 0"

lemma demo_py_inv: "sched_inv demo_py_sched"
proof -
  have "sched_step demo_sched0 demo_py_sched"
    unfolding demo_py_sched_def
    by (rule sched_step.step_append) (simp_all add: demo_sched0_def NewState_def NewQueue_def queue_fresh_def)
  then have "sched_step\<^sup>*\<^sup>* (NewState (\<lambda>_. demo_job) (\<lambda>_. demo_cstate) ''s'' ''addr'') demo_py_sched" by (simp add: demo_sched0_def)
  then show ?thesis by (rule sched_reachable_inv)
qed

theorem dispatch_and_completion_witness:
  "\<exists>s s1 finished. stage_of s ''j'' = Some Active \<and>
     DispatchJob demo_conn (\<lambda>req. Some (jres_Accept (fst (Server_AppendJob True req ClusterNode.demo_node)))) (ss_jobHeap s 0) s = (Some True, s1) \<and>
     cj_Payload finished = Some [7] \<and> stage_of (job_event (status_event finished) s1) ''j'' = Some Done \<and>
     job_Response (ss_jobHeap (job_event (status_event finished) s1) 0) = Some [7]"
proof -
  let ?s = "snd (NextPendingJob demo_py_sched 8 16)"
  let ?rpc = "\<lambda>req. Some (jres_Accept (fst (Server_AppendJob True req ClusterNode.demo_node)))"
  let ?j = "activate (NewJob ''j'' demo_image 1 None) CreateJobsQueue"
  have inv: "sched_inv ?s" by (rule NextPendingJob_inv [OF demo_py_inv]) (rule surjective_pairing)
  have c: "claimed ?s 0" unfolding claimed_def by code_simp
  have key: "job_Id (ss_jobHeap ?s 0) = ''j''" by code_simp
  obtain r s1 where d: "DispatchJob demo_conn ?rpc (ss_jobHeap ?s 0) ?s = (r, s1)" by fastforce
  have "fst (DispatchJob demo_conn ?rpc (ss_jobHeap ?s 0) ?s) = Some True" by code_simp
  then have d': "DispatchJob demo_conn ?rpc (ss_jobHeap ?s 0) ?s = (Some True, s1)" using d by simp
  have q: "jobs_inv ?j"
    using jobs_inv_Create by (simp add: jobs_inv_def activate_def CreateJobsQueue_def NewJob_def NewQueue_def queue_fresh_def)
  let ?f = "NewJob ''j'' demo_image 1 None\<lparr>cj_AssignedContainerID := ''packing-in-progress'', cj_Payload := Some [7], cj_Succeeded := True\<rparr>"
  have m: "mark_take ?j (job_Id (ss_jobHeap ?s 0)) (Some [7]) True = (Some ?f, ?j\<lparr>jq_active := []\<rparr>)"
    unfolding key by (simp add: mark_take_def activate_def CreateJobsQueue_def NewJob_def)
  have act: "stage_of ?s ''j'' = Some Active" using c key by (simp add: claimed_def)
  show ?thesis
    using dispatch_and_completion [OF inv c d' q m] d' act unfolding key Let_def
    by (intro exI [of _ ?s] exI [of _ s1] exI [of _ ?f]) simp
qed


section \<open>A job of the echo worker, end to end\<close>


definition demo_payload_env :: payload_env where
  "demo_payload_env = \<lparr>py_mkdir = True, py_readdir = True, py_removeAll = (\<lambda>_. True), py_open = True, py_write = None, py_rename = True, py_removeTmp = True\<rparr>"

definition demo_monitor :: monitor_env where
  "demo_monitor = \<lparr>mo_open = (\<lambda>_ i. i = 2), mo_read = (\<lambda>_ _. True), mo_close = (\<lambda>_ _. True), mo_remove = (\<lambda>_. True)\<rparr>"

definition demo_echo_jobs :: Jobs where
  "demo_echo_jobs = snd (AddJob CreateJobsQueue (NewJob ''j'' demo_image 1 (Some [123, 125])))"


section \<open>Load reports\<close>

text \<open>What a scheduler stores of a cluster after a status request is the usage of the node's queue.\<close>

lemma reported_usage:
  fixes now :: time and node :: ClusterServer and conn :: ClusterConn and s :: CentralState
  defines "s' \<equiv> requestClusterState now (\<lambda>_. FetchClusterStatus (Some (ClusterStatus node)) conn) s"
  assumes "ss_clusters s = [(key, a)]" "cs_ID (ss_clusterHeap s a) = key" "cc_connected conn"
  shows "\<exists>b. LocalCluster s' key = Some b \<and>
    (cs_UsedCpu (ss_clusterHeap s' b), cs_UsedMem (ss_clusterHeap s' b)) = QueueUtilization (sv_jobQueue node) \<and>
    (cs_MaxCpu (ss_clusterHeap s' b), cs_MaxMem (ss_clusterHeap s' b)) = (sv_totalCPU node, sv_totalMemory node)"
proof -
  obtain u v where q: "QueueUtilization (sv_jobQueue node) = (u, v)" by fastforce
  then have "in_int64 u" "in_int64 v" using in_int64_wsum by (auto simp: QueueUtilization_def usage_def)
  then show ?thesis
    using assms q
    by (simp add: s'_def requestClusterState_def LocalClusters_def LocalCluster_def UpdateCluster_def new_cluster_def FetchClusterStatus_def
        ClusterStatus_def Let_def wrap64_diff_right)
qed

end
